(* ===== verification/Prelude.thy ===== *)
theory Prelude
  imports Main "HOL-Library.Word"
begin

text \<open>
  Shared vocabulary of the development.

  A C++ \<open>char\<close> is an Isabelle \<open>char\<close> (eight bits), a \<open>std::string\<close> or
  \<open>std::string_view\<close> is a \<open>string\<close> (a list of chars), fixed-width unsigned integers
  are words.  \<open>uint8\<close> and \<open>to_char\<close> are the two conversions the sources spell
  \<open>static_cast<std::uint8_t>(c)\<close> and (implicitly) narrowing to \<open>char\<close>.

  A piece of mutable memory is one allocation, a list of chars indexed from 0; a pointer
  into it is a natural number.  \<open>rd\<close> and \<open>wr\<close> are the only accesses, and an access
  outside of the allocation, undefined behaviour in C++, is \<open>None\<close>.  So a theorem that
  an operation returns \<open>Some\<close> is a memory-safety theorem.
\<close>

type_synonym u8 = "8 word"
type_synonym u16 = "16 word"
type_synonym u32 = "32 word"
type_synonym u64 = "64 word"

text \<open>Facts about the in-place memory and the invariants of the stateful components.\<close>

named_theorems mem_simps \<open>reads, writes and string views of one allocation\<close>
named_theorems inv_intros \<open>operations preserve their component's invariant\<close>

section \<open>Characters and words\<close>

definition uint8 :: "char \<Rightarrow> u8" where
  "uint8 c = word_of_nat (of_char c)"

definition to_char :: "'a::len word \<Rightarrow> char" where
  "to_char w = char_of (unat w)"

lemma unat_uint8: "unat (uint8 c) = of_char c"
proof -
  have "(of_char c :: nat) < 256" by simp
  then show ?thesis by (simp add: uint8_def unat_of_nat)
qed

lemma to_char_uint8 [simp]: "to_char (uint8 c) = c"
  by (simp add: to_char_def unat_uint8)

lemma of_char_to_char: "of_char (to_char w) = unat w mod 256"
  by (simp add: to_char_def)

lemma uint8_to_char [simp]: "uint8 (to_char (w :: u8)) = w"
proof -
  have "unat w < 256" using unsigned_less [of w] by simp
  then show ?thesis by (simp add: uint8_def of_char_to_char)
qed

lemma inj_uint8: "inj uint8"
  by (rule injI) (metis to_char_uint8)

abbreviation NUL :: char where "NUL \<equiv> CHR 0x00"
abbreviation CR :: char where "CR \<equiv> CHR 0x0D"
abbreviation LF :: char where "LF \<equiv> CHR 0x0A"
abbreviation SP :: char where "SP \<equiv> CHR 0x20"

section \<open>Shifts and masks of words\<close>

unbundle bit_operations_syntax

lemma nat_or_low:
  assumes "v < 2 ^ n"
  shows "push_bit n a OR v = push_bit n a + (v :: nat)"
proof (rule disjunctive_add_eq_or [symmetric], rule bit_eqI)
  have v: "v = take_bit n v" using assms by (simp add: take_bit_nat_eq_self)
  show "bit (push_bit n a AND v) m = bit 0 m" for m
    by (subst v) (auto simp: bit_simps)
qed

lemma unat_push_bit_small:
  fixes b :: "'a::len word"
  assumes "unat b * 2 ^ n < 2 ^ LENGTH('a)"
  shows "unat (push_bit n b) = unat b * 2 ^ n"
  unfolding unsigned_push_bit_eq using assms
  by (simp add: push_bit_eq_mult take_bit_nat_eq_self)

lemma unat_shift_or:
  fixes b w :: "'a::len word"
  assumes "unat b * 2 ^ n < 2 ^ LENGTH('a)" "unat w < 2 ^ n"
  shows "unat (push_bit n b OR w) = unat b * 2 ^ n + unat w"
proof -
  have "unat (push_bit n b) = push_bit n (unat b)"
    using unat_push_bit_small [OF assms(1)] by (simp only: push_bit_eq_mult)
  then show ?thesis
    using nat_or_low [OF assms(2), of "unat b"] by (simp only: unsigned_or_eq push_bit_eq_mult)
qed

section \<open>Numbers as text\<close>

text \<open>\<open>std::to_string\<close> of an unsigned number.\<close>

definition digit_char :: "nat \<Rightarrow> char" where
  "digit_char d = char_of (48 + d)"

fun show_nat :: "nat \<Rightarrow> string" where
  "show_nat n = (if n < 10 then [digit_char n] else show_nat (n div 10) @ [digit_char (n mod 10)])"

declare show_nat.simps [simp del]

definition show_int :: "int \<Rightarrow> string" where
  "show_int i = (if i < 0 then CHR ''-'' # show_nat (nat (- i)) else show_nat (nat i))"

section \<open>Lists\<close>

lemma takeWhile_dropWhile_split:
  "dropWhile P xs = y # ys \<Longrightarrow> xs = takeWhile P xs @ y # ys \<and> \<not> P y"
  by (metis hd_dropWhile list.discI list.sel(1) takeWhile_dropWhile_id)

lemma dropWhile_Nil_takeWhile: "dropWhile P xs = [] \<Longrightarrow> takeWhile P xs = xs"
  by (metis append_Nil2 takeWhile_dropWhile_id)

lemma takeWhile_neq_append [simp]:
  "c \<notin> set xs \<Longrightarrow> takeWhile (\<lambda>x. x \<noteq> c) (xs @ c # ys) = xs"
  by (induction xs) auto

lemma dropWhile_neq_append [simp]:
  "c \<notin> set xs \<Longrightarrow> dropWhile (\<lambda>x. x \<noteq> c) (xs @ c # ys) = c # ys"
  by (induction xs) auto

lemma takeWhile_neq_id [simp]: "c \<notin> set xs \<Longrightarrow> takeWhile (\<lambda>x. x \<noteq> c) xs = xs"
  by (induction xs) auto

lemma dropWhile_neq_absent [simp]: "c \<notin> set xs \<Longrightarrow> dropWhile (\<lambda>x. x \<noteq> c) xs = []"
  by (induction xs) auto

lemma set_takeWhileP: "c \<in> set (takeWhile P xs) \<Longrightarrow> c \<in> set xs \<and> P c"
  by (induction xs) (auto split: if_splits)

lemma notin_takeWhile_neq [simp]: "c \<notin> set (takeWhile (\<lambda>x. x \<noteq> c) xs)"
  by (auto dest: set_takeWhileP)

lemma notin_takeWhile: "c \<notin> set xs \<Longrightarrow> c \<notin> set (takeWhile P xs)"
  by (auto dest: set_takeWhileP)

lemma notin_dropWhile: "c \<notin> set xs \<Longrightarrow> c \<notin> set (dropWhile P xs)"
  by (induction xs) auto

section \<open>The option monad\<close>

lemma bind_pair_Some:
  "Option.bind x (\<lambda>(a, b). f a b) = Some r \<longleftrightarrow> (\<exists>a b. x = Some (a, b) \<and> f a b = Some r)"
  by (cases x) auto

section \<open>One allocation of memory\<close>

type_synonym cmem = string

definition rd :: "cmem \<Rightarrow> nat \<Rightarrow> char option" where
  "rd m i = (if i < length m then Some (m ! i) else None)"

definition wr :: "cmem \<Rightarrow> nat \<Rightarrow> char \<Rightarrow> cmem option" where
  "wr m i c = (if i < length m then Some (m[i := c]) else None)"

text \<open>The bytes of a view \<open>{p, p + n}\<close> of the memory, as \<open>std::string_view\<close> reads them.\<close>

definition view :: "cmem \<Rightarrow> nat \<Rightarrow> nat \<Rightarrow> string" where
  "view m p n = take n (drop p m)"

lemma rd_append_here [mem_simps, simp]: "rd (pre @ c # post) (length pre) = Some c"
  by (simp add: rd_def)

lemma wr_append_here [mem_simps, simp]:
  "wr (pre @ c # post) (length pre) d = Some (pre @ d # post)"
  by (simp add: wr_def)

lemma view_append [mem_simps]: "length xs = n \<Longrightarrow> view (pre @ xs @ post) (length pre) n = xs"
  by (simp add: view_def)

lemma view_prefix [mem_simps]:
  "p + n \<le> length pre \<Longrightarrow> view (pre @ post) p n = view pre p n"
  by (simp add: view_def)

lemma length_wr [mem_simps]: "wr m i c = Some m' \<Longrightarrow> length m' = length m"
  by (auto simp: wr_def split: if_splits)

end
