(* ===== verification/Base64.thy ===== *)
theory Base64
  imports Prelude
begin

unbundle bit_operations_syntax

text \<open>
  The codec of \<open>base64/base64.cpp\<close> and \<open>base64/include/base64.hpp\<close>, and its Lua
  bindings in \<open>mybase64/mybase64.cpp\<close>.  The 32-bit shift register of both loops is kept
  as a \<open>32 word\<close>; the characters written through the output pointer are the list a
  function returns, in the order they are written.
\<close>

section \<open>Buffer sizes\<close>

definition encoded_size :: "u64 \<Rightarrow> u64" where
  "encoded_size len = (len + 2) div 3 * 4"

definition decoded_size :: "u64 \<Rightarrow> u64" where
  "decoded_size len = (len + 3) div 4 * 3"

section \<open>The alphabet and its inverse table\<close>

definition alphabet :: string where
  "alphabet = ''ABCDEFGHIJKLMNOPQRSTUVWXYZabcdefghijklmnopqrstuvwxyz0123456789+/''"

definition alphabet_values :: "int list" where
  "alphabet_values = fst (fold (\<lambda>k (result, v). (result[of_char k := v], v + 1))
     alphabet (replicate 256 (- 1), 0))"

section \<open>Encoder\<close>

definition extract_char :: "u32 \<Rightarrow> nat \<Rightarrow> char" where
  "extract_char buffer i = alphabet ! unat (0x3f AND drop_bit (6 * i) buffer)"

fun encode :: "string \<Rightarrow> string" where
  "encode (c0 # c1 # c2 # rest) =
     (let buffer = push_bit (8 * 2) (ucast (uint8 c0));
          buffer = buffer OR push_bit (8 * 1) (ucast (uint8 c1));
          buffer = buffer OR push_bit (8 * 0) (ucast (uint8 c2))
      in extract_char buffer 3 # extract_char buffer 2 # extract_char buffer 1 # extract_char buffer 0 # encode rest)"
| "encode [c0, c1] =
     (let buffer = push_bit (8 * 2 - 6) (ucast (uint8 c0));
          buffer = buffer OR push_bit (8 * 1 - 6) (ucast (uint8 c1))
      in [extract_char buffer 2, extract_char buffer 1, extract_char buffer 0, CHR ''=''])"
| "encode [c0] =
     (let buffer = push_bit (8 * 2 - 6) (ucast (uint8 c0))
      in [extract_char buffer 2, extract_char buffer 1, CHR ''='', CHR ''=''])"
| "encode [] = []"

section \<open>Decoder\<close>

definition filled :: "u32 \<Rightarrow> nat \<Rightarrow> bool" where
  "filled buffer i = (drop_bit (6 * i) buffer \<noteq> 0)"

definition flush3 :: "u32 \<Rightarrow> string" where
  "flush3 buffer = [to_char (drop_bit (8 * 2) buffer), to_char (drop_bit (8 * 1) buffer),
     to_char (drop_bit (8 * 0) buffer)]"

fun decode_loop :: "string \<Rightarrow> u32 \<Rightarrow> string \<Rightarrow> u32 \<times> string" where
  "decode_loop [] buffer output = (buffer, output)"
| "decode_loop (c # cs) buffer output =
     (let value = alphabet_values ! unat (uint8 c) in
      if - 1 \<noteq> value then
        let buffer = push_bit 6 buffer OR word_of_int value in
        if filled buffer 4 then decode_loop cs 1 (output @ flush3 buffer)
        else decode_loop cs buffer output
      else decode_loop cs buffer output)"

definition decode_finish :: "u32 \<Rightarrow> string \<Rightarrow> string \<times> nat option" where
  "decode_finish buffer output =
     (if filled buffer 3 then
        let buffer = push_bit (6 * 1) buffer;
            output = output @ [to_char (drop_bit (8 * 2) buffer), to_char (drop_bit (8 * 1) buffer)]
        in (output, Some (length output))
      else if filled buffer 2 then
        let buffer = push_bit (6 * 2) buffer;
            output = output @ [to_char (drop_bit (8 * 2) buffer)]
        in (output, Some (length output))
      else if filled buffer 1 then (output, None)
      else (output, Some (length output)))"

text \<open>
  The pair is what has been written through \<open>output\<close> and the pointer returned: the offset
  of the end of the output, or \<open>None\<close> for \<open>nullptr\<close>.
\<close>

definition decode :: "string \<Rightarrow> string \<times> nat option" where
  "decode input = (case decode_loop input 1 [] of (buffer, output) \<Rightarrow> decode_finish buffer output)"

section \<open>Lua bindings\<close>

text \<open>
  A Lua buffer of \<open>n\<close> bytes is fresh memory with arbitrary contents (\<open>junk\<close>);
  writing a string into it past its end is undefined behaviour, \<open>None\<close>.
\<close>

definition write_buf :: "cmem \<Rightarrow> string \<Rightarrow> cmem option" where
  "write_buf buf xs = (if length xs \<le> length buf then Some (xs @ drop (length xs) buf) else None)"

text \<open>The inner option is the binding's result: a string, or \<open>luaL_pushfail\<close>.\<close>

definition l_from_base64 :: "(nat \<Rightarrow> cmem) \<Rightarrow> string \<Rightarrow> string option option" where
  "l_from_base64 junk input =
     (let outlen = decoded_size (word_of_nat (length input));
          output_first = junk (unat outlen)
      in case decode input of (written, output_last) \<Rightarrow>
           (case write_buf output_first written of
              None \<Rightarrow> None
            | Some buf \<Rightarrow> Some (case output_last of Some n \<Rightarrow> Some (take n buf) | None \<Rightarrow> None)))"

definition l_to_base64 :: "(nat \<Rightarrow> cmem) \<Rightarrow> string \<Rightarrow> string option" where
  "l_to_base64 junk input =
     (let outlen = encoded_size (word_of_nat (length input));
          output = junk (unat outlen)
      in case write_buf output (encode input) of
           None \<Rightarrow> None
         | Some buf \<Rightarrow> Some (take (unat outlen) buf))"

section \<open>The shift register as a number\<close>

lemma of_char_lt: "(of_char c :: nat) < 256"
  by simp

lemma unat_ucast_uint8: "unat (ucast (uint8 c) :: u32) = of_char c"
proof -
  have "(of_char c :: nat) < 2 ^ 32" by (rule order_less_trans [OF of_char_lt]) simp
  then have "take_bit 32 (of_char c :: nat) = of_char c" by (rule take_bit_nat_eq_self)
  then show ?thesis by (simp add: unsigned_ucast_eq unat_uint8)
qed

lemma encode_word3:
  "unat ((push_bit (8 * 2) (ucast (uint8 c0)) OR push_bit (8 * 1) (ucast (uint8 c1)))
     OR push_bit (8 * 0) (ucast (uint8 c2)) :: u32)
   = 65536 * of_char c0 + 256 * of_char c1 + of_char c2"
proof -
  let ?x = "ucast (uint8 c0) :: u32" and ?y = "ucast (uint8 c1) :: u32"
    and ?z = "ucast (uint8 c2) :: u32"
  have lt: "unat ?x < 256" "unat ?y < 256" "unat ?z < 256"
    by (simp_all add: unat_ucast_uint8)
  have "unat (push_bit 8 ?x OR ?y) = unat ?x * 2 ^ 8 + unat ?y"
    by (rule unat_shift_or) (use lt in simp_all)
  moreover have "unat (push_bit 8 (push_bit 8 ?x OR ?y) OR ?z)
    = unat (push_bit 8 ?x OR ?y) * 2 ^ 8 + unat ?z"
    by (rule unat_shift_or) (use lt calculation in simp_all)
  ultimately show ?thesis
    by (simp add: unat_ucast_uint8 push_bit_or)
qed

lemma encode_word2:
  "unat (push_bit (8 * 2 - 6) (ucast (uint8 c0)) OR push_bit (8 * 1 - 6) (ucast (uint8 c1)) :: u32)
   = 1024 * of_char c0 + 4 * of_char c1"
proof -
  let ?x = "ucast (uint8 c0) :: u32" and ?y = "ucast (uint8 c1) :: u32"
  have lt: "unat ?x < 256" "unat ?y < 256"
    by (simp_all add: unat_ucast_uint8)
  have "unat (push_bit 8 ?x OR ?y) = unat ?x * 2 ^ 8 + unat ?y"
    by (rule unat_shift_or) (use lt in simp_all)
  moreover have "unat (push_bit 2 (push_bit 8 ?x OR ?y)) = unat (push_bit 8 ?x OR ?y) * 2 ^ 2"
    by (rule unat_push_bit_small) (use lt calculation in simp_all)
  ultimately show ?thesis
    by (simp add: unat_ucast_uint8 push_bit_or)
qed

lemma encode_word1:
  "unat (push_bit (8 * 2 - 6) (ucast (uint8 c0)) :: u32) = 1024 * of_char c0"
proof -
  have "unat (push_bit 10 (ucast (uint8 c0)) :: u32) = unat (ucast (uint8 c0) :: u32) * 2 ^ 10"
    by (rule unat_push_bit_small) (simp add: unat_ucast_uint8 order_less_trans [OF mult_strict_right_mono [OF of_char_lt]])
  then show ?thesis by (simp add: unat_ucast_uint8)
qed

lemma unat_drop: "unat (drop_bit n b) = unat b div 2 ^ n"
  by (simp only: unat_drop_bit_eq) (simp only: drop_bit_eq_div)

lemma unat_extract: "unat (0x3f AND drop_bit n (b :: u32)) = unat b div 2 ^ n mod 64"
proof -
  have "unat (0x3f AND drop_bit n b) = take_bit 6 (unat b div 2 ^ n)"
    by (simp only: unsigned_and_eq unat_drop) (simp add: take_bit_eq_mask mask_eq_exp_minus_1 and.commute)
  then show ?thesis by (simp add: take_bit_eq_mod)
qed

lemma alphabet_table: "list_all (\<lambda>n. alphabet_values ! of_char (alphabet ! n) = int n) [0..<64]"
  by (simp add: alphabet_values_def alphabet_def upt_rec)

lemma alphabet_value: "n < 64 \<Longrightarrow> alphabet_values ! of_char (alphabet ! n) = int n"
  using alphabet_table by (simp add: list_all_iff)

lemma filled_iff: "filled b i \<longleftrightarrow> 64 ^ i \<le> unat b"
proof -
  have "filled b i \<longleftrightarrow> unat (drop_bit (6 * i) b) \<noteq> 0"
    by (simp add: filled_def unat_eq_0)
  also have "unat (drop_bit (6 * i) b) = unat b div 64 ^ i"
    by (simp add: unat_drop power_mult del: drop_bit_eq_div)
  finally show ?thesis
    by (simp add: div_eq_0_iff not_less)
qed

lemma unat_push6:
  "unat (b :: u32) < 2 ^ 24 \<Longrightarrow> v < 64 \<Longrightarrow>
   unat (push_bit 6 b OR word_of_int (int v)) = 64 * unat b + v"
  using unat_shift_or [of b 6 "word_of_int (int v)"]
  by (simp add: unat_of_nat)

lemma to_char_drop: "to_char (drop_bit n (b :: u32)) = char_of (unat b div 2 ^ n)"
  by (simp add: to_char_def unat_drop)

definition chars3 :: "nat \<Rightarrow> string" where
  "chars3 n = [char_of (n div 65536), char_of (n div 256), char_of n]"

lemma flush3_chars3: "flush3 b = chars3 (unat b)"
  unfolding flush3_def chars3_def to_char_drop by simp

lemma decode_step:
  assumes "v < 64" "n < 2 ^ 24"
  shows "decode_loop (alphabet ! v # cs) (word_of_nat n) out =
    (if 64 ^ 4 \<le> 64 * n + v then decode_loop cs 1 (out @ chars3 (64 * n + v))
     else decode_loop cs (word_of_nat (64 * n + v)) out)"
proof -
  have n: "unat (word_of_nat n :: u32) = n"
    using assms(2) by (simp add: unat_of_nat)
  let ?b = "push_bit 6 (word_of_nat n) OR word_of_int (int v) :: u32"
  have b: "unat ?b = 64 * n + v"
    using unat_push6 [of "word_of_nat n" v] assms by (simp add: n)
  then have "?b = word_of_nat (64 * n + v)"
    by (metis of_nat_unat ucast_id)
  moreover have "flush3 ?b = chars3 (unat ?b)" by (rule flush3_chars3)
  ultimately show ?thesis
    using b by (simp add: Let_def unat_uint8 alphabet_value [OF assms(1)] filled_iff
        del: of_int_of_nat_eq)
qed

lemma char_of_cong: "m mod 256 = n mod 256 \<Longrightarrow> char_of (m :: nat) = char_of n"
  by (metis char_of_mod_256)

lemma chars3_top: "chars3 (2 ^ 24 + Y) = chars3 Y"
proof -
  have m: "char_of (k * 256 + Z) = char_of Z" for k Z :: nat
    by (rule char_of_cong) simp
  have "(2 ^ 24 + Y) div 65536 = 1 * 256 + Y div 65536" by simp
  moreover have "(2 ^ 24 + Y) div 256 = 256 * 256 + Y div 256" by simp
  moreover have "2 ^ 24 + Y = 65536 * 256 + Y" by simp
  ultimately show ?thesis
    unfolding chars3_def by (simp only: m)
qed

lemma decode_one: 
  assumes "v < 64" "64 * n + v < 64 ^ 4"
  shows "decode_loop (alphabet ! v # cs) (word_of_nat n) out = decode_loop cs (word_of_nat (64 * n + v)) out"
proof -
  have "n < 2 ^ 24" using assms(2) by simp
  from decode_step [OF assms(1) this, of cs out] show ?thesis
    using assms(2) by (simp only: not_le [symmetric] if_False)
qed

lemma decode_four:
  assumes v: "v3 < 64" "v2 < 64" "v1 < 64" "v0 < 64"
  shows "decode_loop (alphabet ! v3 # alphabet ! v2 # alphabet ! v1 # alphabet ! v0 # cs) 1 out
    = decode_loop cs 1 (out @ chars3 (262144 * v3 + 4096 * v2 + 64 * v1 + v0))"
proof -
  let ?n1 = "64 * 1 + v3" and ?n2 = "64 * (64 * 1 + v3) + v2"
  let ?n3 = "64 * (64 * (64 * 1 + v3) + v2) + v1"
  have lt: "?n1 < 64 ^ 4" "?n2 < 64 ^ 4" "?n3 < 64 ^ 4" "?n3 < 2 ^ 24" "64 ^ 4 \<le> 64 * ?n3 + v0"
    using v by simp_all
  have "decode_loop (alphabet ! v3 # alphabet ! v2 # alphabet ! v1 # alphabet ! v0 # cs) (word_of_nat 1) out
    = decode_loop (alphabet ! v0 # cs) (word_of_nat ?n3) out"
    by (simp only: decode_one [OF v(1) lt(1)] decode_one [OF v(2) lt(2)] decode_one [OF v(3) lt(3)])
  also have "\<dots> = decode_loop cs 1 (out @ chars3 (64 * ?n3 + v0))"
    using decode_step [OF v(4) lt(4)] lt(5) by (simp only: if_True)
  also have "chars3 (64 * ?n3 + v0) = chars3 (262144 * v3 + 4096 * v2 + 64 * v1 + v0)"
    using chars3_top [of "262144 * v3 + 4096 * v2 + 64 * v1 + v0"] by (simp add: algebra_simps)
  finally show ?thesis by simp
qed

lemma regroup:
  assumes "(X :: nat) < 2 ^ 24"
  shows "262144 * (X div 2 ^ 18 mod 64) + 4096 * (X div 2 ^ 12 mod 64) + 64 * (X div 2 ^ 6 mod 64)
    + X div 2 ^ 0 mod 64 = X"
proof -
  define q1 where "q1 = X div 64"
  define q2 where "q2 = q1 div 64"
  define q3 where "q3 = q2 div 64"
  have q: "X div 2 ^ 6 = q1" "X div 2 ^ 12 = q2" "X div 2 ^ 18 = q3"
    by (simp_all add: q1_def q2_def q3_def div_mult2_eq [symmetric])
  have "q3 < 64" using assms by (simp add: q(3) [symmetric])
  then have "q3 mod 64 = q3" by simp
  moreover have "64 * q1 + X mod 64 = X" "64 * q2 + q1 mod 64 = q1" "64 * q3 + q2 mod 64 = q2"
    by (simp_all add: q1_def q2_def q3_def)
  ultimately show ?thesis unfolding q by simp
qed

lemma char_of_sum: "char_of (256 * k + of_char c :: nat) = c"
proof -
  have "char_of (256 * k + of_char c) = char_of (of_char c :: nat)"
    by (rule char_of_cong) simp
  then show ?thesis by simp
qed

lemma word3_div:
  assumes "(b :: nat) < 256" "c < 256"
  shows "(65536 * a + 256 * b + c) div 65536 = a" "(65536 * a + 256 * b + c) div 256 = 256 * a + b"
    "(a < 256) \<Longrightarrow> 65536 * a + 256 * b + c < 2 ^ 24"
  using assms by (auto intro: div_nat_eqI)

lemma chars3_word3: "chars3 (65536 * of_char c0 + 256 * of_char c1 + of_char c2) = [c0, c1, c2]"
proof -
  have "65536 * of_char c0 + 256 * of_char c1 + of_char c2
      = 256 * (256 * of_char c0 + of_char c1) + (of_char c2 :: nat)"
    by simp
  then show ?thesis
    unfolding chars3_def word3_div [OF of_char_lt of_char_lt] by (simp only: char_of_sum char_of_char)
qed

text \<open>The encoder as arithmetic.\<close>

lemma encode_three:
  fixes c0 c1 c2 :: char
  defines "X \<equiv> 65536 * of_char c0 + 256 * of_char c1 + of_char c2 :: nat"
  shows "encode (c0 # c1 # c2 # rest) = alphabet ! (X div 2 ^ 18 mod 64) # alphabet ! (X div 2 ^ 12 mod 64)
      # alphabet ! (X div 2 ^ 6 mod 64) # alphabet ! (X div 2 ^ 0 mod 64) # encode rest"
  unfolding X_def by (simp only: encode.simps Let_def extract_char_def unat_extract encode_word3) simp

lemma encode_two:
  fixes c0 c1 :: char
  defines "X \<equiv> 1024 * of_char c0 + 4 * of_char c1 :: nat"
  shows "encode [c0, c1] = [alphabet ! (X div 2 ^ 12 mod 64), alphabet ! (X div 2 ^ 6 mod 64),
      alphabet ! (X div 2 ^ 0 mod 64), CHR ''='']"
  unfolding X_def by (simp only: encode.simps Let_def extract_char_def unat_extract encode_word2) simp

lemma encode_one:
  fixes c0 :: char
  defines "X \<equiv> 1024 * of_char c0 :: nat"
  shows "encode [c0] = [alphabet ! (X div 2 ^ 12 mod 64), alphabet ! (X div 2 ^ 6 mod 64), CHR ''='', CHR ''='']"
  unfolding X_def by (simp only: encode.simps Let_def extract_char_def unat_extract encode_word1) simp

lemma decode_encode3:
  "decode_loop (encode (c0 # c1 # c2 # rest)) 1 out = decode_loop (encode rest) 1 (out @ [c0, c1, c2])"
proof -
  let ?X = "65536 * of_char c0 + 256 * of_char c1 + of_char c2 :: nat"
  have lt: "?X < 2 ^ 24"
    by (rule word3_div(3) [OF of_char_lt of_char_lt of_char_lt])
  have "x mod 64 < 64" for x :: nat by simp
  then show ?thesis
    by (simp only: encode_three decode_four regroup [OF lt] chars3_word3)
qed

lemma pad_skipped: "decode_loop (CHR ''='' # cs) b out = decode_loop cs b out"
proof -
  have "alphabet_values ! of_char CHR ''='' = - 1"
    by (simp add: alphabet_values_def alphabet_def)
  then show ?thesis by (simp add: unat_uint8 Let_def)
qed

lemma word2_div:
  assumes "(a :: nat) < 256" "b < 256"
  shows "64 * (1024 * a + 4 * b) div 65536 = a" "64 * (1024 * a + 4 * b) div 256 = 256 * a + b"
    "1024 * a + 4 * b < 2 ^ 18"
  using assms by (auto intro: div_nat_eqI)

lemma regroup2:
  assumes "(X :: nat) < 2 ^ 18"
  shows "64 * (64 * (X div 2 ^ 12 mod 64) + (X div 2 ^ 6 mod 64)) + X div 2 ^ 0 mod 64 = X"
  using regroup [of X] assms by simp

lemma lead3: "64 * (64 * p + q) + r = X \<Longrightarrow> 64 * (64 * (64 * 1 + p) + q) + r = 2 ^ 18 + (X :: nat)"
  by simp

lemma lead2: "64 * (64 * p + q) + X div 2 ^ 0 mod 64 = X \<Longrightarrow> X = 64 * Y \<Longrightarrow>
    64 * (64 * 1 + p) + q = 2 ^ 12 + (Y :: nat)"
  by simp

lemma decode_three:
  assumes "v2 < 64" "v1 < 64" "v0 < 64"
  shows "decode_loop (alphabet ! v2 # alphabet ! v1 # alphabet ! v0 # cs) (word_of_nat 1) out =
     decode_loop cs (word_of_nat (64 * (64 * (64 * 1 + v2) + v1) + v0)) out"
proof -
  have "64 * 1 + v2 < 64 ^ 4" "64 * (64 * 1 + v2) + v1 < 64 ^ 4"
    "64 * (64 * (64 * 1 + v2) + v1) + v0 < 64 ^ 4" using assms by simp_all
  then show ?thesis
    by (simp only: decode_one [OF assms(1)] decode_one [OF assms(2)] decode_one [OF assms(3)])
qed

lemma decode_two:
  assumes "v1 < 64" "v0 < 64"
  shows "decode_loop (alphabet ! v1 # alphabet ! v0 # cs) (word_of_nat 1) out =
     decode_loop cs (word_of_nat (64 * (64 * 1 + v1) + v0)) out"
proof -
  have "64 * 1 + v1 < 64 ^ 4" "64 * (64 * 1 + v1) + v0 < 64 ^ 4" using assms by simp_all
  then show ?thesis
    by (simp only: decode_one [OF assms(1)] decode_one [OF assms(2)])
qed

lemma decode_encode2: "decode_loop (encode [c0, c1]) 1 out =
   (word_of_nat (2 ^ 18 + (1024 * of_char c0 + 4 * of_char c1)), out)"
proof -
  let ?X = "1024 * of_char c0 + 4 * of_char c1 :: nat"
  have lt: "?X < 2 ^ 18" by (rule word2_div(3) [OF of_char_lt of_char_lt])
  have v: "x mod 64 < 64" for x :: nat by simp
  have "64 * (64 * (64 * 1 + ?X div 2 ^ 12 mod 64) + ?X div 2 ^ 6 mod 64) + ?X div 2 ^ 0 mod 64
    = 2 ^ 18 + ?X"
    by (rule lead3 [OF regroup2 [OF lt]])
  then show ?thesis
    using decode_three [OF v v v, of "?X div 2 ^ 12" "?X div 2 ^ 6" "?X div 2 ^ 0" "[CHR ''='']"]
    unfolding encode_two by (simp only: pad_skipped decode_loop.simps(1) of_nat_1)
qed

lemma decode_encode1: "decode_loop (encode [c0]) 1 out = (word_of_nat (2 ^ 12 + 16 * of_char c0), out)"
proof -
  let ?X = "1024 * of_char c0 :: nat"
  have lt: "?X < 2 ^ 18" using word2_div(3) [OF of_char_lt, of 0 c0] by simp
  have v: "x mod 64 < 64" for x :: nat by simp
  have "?X = 64 * (16 * of_char c0)" by simp
  then have "64 * (64 * 1 + ?X div 2 ^ 12 mod 64) + ?X div 2 ^ 6 mod 64 = 2 ^ 12 + 16 * of_char c0"
    by (rule lead2 [OF regroup2 [OF lt]])
  then show ?thesis
    using decode_two [OF v v, of "?X div 2 ^ 12" "?X div 2 ^ 6" "[CHR ''='', CHR ''='']"]
    unfolding encode_one by (simp only: pad_skipped decode_loop.simps(1) of_nat_1)
qed

text \<open>What is flushed at the end: two bytes of three digits, one of two.\<close>

lemma finish_digits3:
  assumes "X < 2 ^ 18"
  shows "decode_finish (word_of_nat (2 ^ 18 + X)) out = (out @ [char_of (X div 1024), char_of (X div 4)], Some (length out + 2))"
proof -
  let ?b = "word_of_nat (2 ^ 18 + X) :: u32"
  have u: "unat ?b = 2 ^ 18 + X"
    using assms by (subst unat_of_nat) simp
  have p: "unat (push_bit 6 ?b) = 2 ^ 24 + 64 * X"
    by (subst unat_push_bit_small) (unfold u, use assms in simp_all)
  have "chars3 (2 ^ 24 + 64 * X) = chars3 (64 * X)" by (rule chars3_top)
  moreover have "64 * X div 65536 = X div 1024" "64 * X div 256 = X div 4" by simp_all
  ultimately have c: "char_of ((2 ^ 24 + 64 * X) div 65536) = (char_of (X div 1024) :: char)"
    "char_of ((2 ^ 24 + 64 * X) div 256) = (char_of (X div 4) :: char)"
    unfolding chars3_def by (simp_all only: list.inject)
  have "filled ?b 3" by (simp only: filled_iff u) simp
  then show ?thesis
    using c by (simp only: decode_finish_def Let_def if_True to_char_drop mult_1_right p) simp
qed

lemma finish_digits2:
  assumes "X < 2 ^ 12"
  shows "decode_finish (word_of_nat (2 ^ 12 + X)) out = (out @ [char_of (X div 16)], Some (length out + 1))"
proof -
  let ?b = "word_of_nat (2 ^ 12 + X) :: u32"
  have u: "unat ?b = 2 ^ 12 + X"
    using assms by (subst unat_of_nat) simp
  have p: "unat (push_bit 12 ?b) = 2 ^ 24 + 4096 * X"
    by (subst unat_push_bit_small) (unfold u, use assms in simp_all)
  have "chars3 (2 ^ 24 + 4096 * X) = chars3 (4096 * X)" by (rule chars3_top)
  moreover have "4096 * X div 65536 = X div 16" by simp
  ultimately have c: "char_of ((2 ^ 24 + 4096 * X) div 65536) = (char_of (X div 16) :: char)"
    unfolding chars3_def by (simp_all only: list.inject)
  have f: "\<not> filled ?b 3" "filled ?b 2" using assms by (simp_all only: filled_iff u) simp_all
  show ?thesis
    using c f p by (simp add: decode_finish_def Let_def to_char_drop del: of_nat_add)
qed

lemma finish_two:
  assumes "a < 256" "b < 256"
  shows "decode_finish (word_of_nat (2 ^ 18 + (1024 * a + 4 * b))) out
    = (out @ [char_of a, char_of (256 * a + b)], Some (length out + 2))"
proof -
  have "(1024 * a + 4 * b) div 1024 = a" "(1024 * a + 4 * b) div 4 = 256 * a + b"
    using assms by (auto intro: div_nat_eqI)
  with finish_digits3 [OF word2_div(3) [OF assms], of out] show ?thesis by simp
qed

lemma finish_one:
  assumes "a < 256"
  shows "decode_finish (word_of_nat (2 ^ 12 + 16 * a)) out = (out @ [char_of a], Some (length out + 1))"
  using finish_digits2 [of "16 * a" out] assms by simp

lemma decode_encode_acc:
  "(case decode_loop (encode s) 1 out of (b, o') \<Rightarrow> decode_finish b o')
    = (out @ s, Some (length out + length s))"
proof (induction s arbitrary: out rule: encode.induct)
  case (1 c0 c1 c2 rest)
  show ?case by (simp only: decode_encode3 "1") simp
next
  case (2 c0 c1)
  show ?case
    by (simp only: decode_encode2 case_prod_conv finish_two [OF of_char_lt of_char_lt] char_of_sum char_of_char)
      simp
next
  case (3 c0)
  show ?case
    by (simp only: decode_encode1 case_prod_conv finish_one [OF of_char_lt] char_of_char) simp
next
  case 4
  show ?case by (simp add: decode_finish_def filled_iff)
qed

section \<open>Lengths, failures and junk\<close>

lemma length_encode: "length (encode s) = (length s + 2) div 3 * 4"
proof (induction s rule: encode.induct)
  case (1 c0 c1 c2 rest)
  have "(length rest + 3 + 2) div 3 = Suc ((length rest + 2) div 3)" by simp
  with "1" show ?case by (simp add: Let_def)
qed (simp_all add: Let_def)

definition is_symbol :: "char \<Rightarrow> bool" where
  "is_symbol c \<longleftrightarrow> c \<in> set alphabet"

abbreviation symbols :: "string \<Rightarrow> string" where
  "symbols \<equiv> filter is_symbol"

lemma table_fold_other:
  "j \<notin> of_char ` set ks \<Longrightarrow>
   fst (fold (\<lambda>k (r, v). (r[of_char k := v], v + 1)) ks (r, v :: int)) ! j = r ! j"
  by (induction ks arbitrary: r v) auto

lemma no_symbol_value: "\<not> is_symbol c \<Longrightarrow> alphabet_values ! of_char c = - 1"
  by (subst alphabet_values_def, subst table_fold_other) (auto simp: is_symbol_def of_char_eq_iff)

lemma symbol_index: "is_symbol c \<Longrightarrow> \<exists>v < 64. c = alphabet ! v"
proof -
  assume "is_symbol c"
  then obtain v where "v < length alphabet" "c = alphabet ! v"
    by (auto simp: is_symbol_def in_set_conv_nth)
  moreover have "length alphabet = 64" by (simp add: alphabet_def)
  ultimately show ?thesis by auto
qed

lemma decode_loop_junk: "\<not> is_symbol c \<Longrightarrow> decode_loop (c # cs) b out = decode_loop cs b out"
  using no_symbol_value [of c] by (simp add: unat_uint8 Let_def)

lemma decode_loop_symbols: "decode_loop s b out = decode_loop (symbols s) b out"
proof (induction s arbitrary: b out)
  case (Cons c s)
  show ?case
  proof (cases "is_symbol c")
    case True
    then show ?thesis using Cons.IH by (simp add: Let_def)
  next
    case False
    then show ?thesis using Cons.IH by (simp add: decode_loop_junk del: decode_loop.simps)
  qed
qed simp

text \<open>
  After \<open>k\<close> symbols of a group the register holds a leading 1 above \<open>k\<close> six-bit digits;
  this is what the test \<open>filled\<close> reads.
\<close>

definition register :: "u32 \<Rightarrow> nat \<Rightarrow> bool" where
  "register b k \<longleftrightarrow> k < 4 \<and> 64 ^ k \<le> unat b \<and> unat b < 2 * 64 ^ k"

lemma register_filled: "register b k \<Longrightarrow> filled b i \<longleftrightarrow> i \<le> k"
proof -
  assume r: "register b k"
  have "i \<le> k" if "64 ^ i \<le> unat b"
  proof (rule ccontr)
    assume "\<not> i \<le> k"
    then have "(64 :: nat) ^ Suc k \<le> 64 ^ i" by (intro power_increasing) auto
    with that r show False by (simp add: register_def)
  qed
  moreover have "64 ^ i \<le> unat b" if "i \<le> k"
    using r power_increasing [OF that, of "64 :: nat"] unfolding register_def by linarith
  ultimately show ?thesis by (auto simp: filled_iff)
qed

lemma decode_loop_register:
  assumes "register b k" "list_all is_symbol s" "decode_loop s b out = (b', out')"
  shows "register b' ((k + length s) mod 4) \<and> length out' = length out + 3 * ((k + length s) div 4)"
  using assms
proof (induction s arbitrary: b k out)
  case Nil
  then show ?case by (simp add: register_def)
next
  case (Cons c s)
  from Cons.prems(2) obtain v where v: "v < 64" "c = alphabet ! v"
    using symbol_index by auto
  let ?n = "unat b"
  have n: "?n < 2 ^ 24" "64 ^ k \<le> ?n" "?n < 2 * 64 ^ k" "k < 4"
    using Cons.prems(1) power_increasing [of k 3 "64 :: nat"] by (simp_all add: register_def)
  have step: "decode_loop (c # s) b out = (if 64 ^ 4 \<le> 64 * ?n + v
      then decode_loop s 1 (out @ chars3 (64 * ?n + v)) else decode_loop s (word_of_nat (64 * ?n + v)) out)"
    using decode_step [OF v(1) n(1), of s out] by (simp add: v(2) del: decode_loop.simps)
  show ?case
  proof (cases "k = 3")
    case True
    then have "64 ^ 4 \<le> 64 * ?n + v" using n by simp
    with step Cons.prems(3) have "decode_loop s 1 (out @ chars3 (64 * ?n + v)) = (b', out')"
      by (simp del: decode_loop.simps)
    moreover have "register 1 0" by (simp add: register_def)
    ultimately have "register b' ((0 + length s) mod 4)
        \<and> length out' = length (out @ chars3 (64 * ?n + v)) + 3 * ((0 + length s) div 4)"
      using Cons.IH [of 1 0 "out @ chars3 (64 * ?n + v)"] Cons.prems(2) by simp
    moreover have "(4 + length s) div 4 = Suc (length s div 4)" "(4 + length s) mod 4 = length s mod 4"
      by simp_all
    ultimately show ?thesis using True by (simp add: chars3_def)
  next
    case False
    then have k: "k \<le> 2" using n by simp
    have lt: "64 * ?n + v < 2 * 64 ^ Suc k" using n v by simp
    also have "\<dots> \<le> 2 * 64 ^ 3" using power_increasing [of "Suc k" 3 "64 :: nat"] k by simp
    finally have lt3: "64 * ?n + v < 2 * 64 ^ 3" .
    then have u: "unat (word_of_nat (64 * ?n + v) :: u32) = 64 * ?n + v"
      by (subst unat_of_nat) simp
    have "register (word_of_nat (64 * ?n + v)) (Suc k)"
      unfolding register_def u using n k lt by simp
    moreover have "decode_loop s (word_of_nat (64 * ?n + v)) out = (b', out')"
      using step Cons.prems(3) lt3 by (simp del: decode_loop.simps of_nat_add of_nat_mult)
    ultimately show ?thesis
      using Cons.IH [of "word_of_nat (64 * ?n + v)" "Suc k" out] Cons.prems(2) by simp
  qed
qed

lemma decode_finish_register:
  "register b k \<Longrightarrow> decode_finish b out = (w, fin) \<Longrightarrow>
   length w = length out + (k - 1) \<and> fin = (if k = 1 then None else Some (length w))"
proof -
  assume r: "register b k" and d: "decode_finish b out = (w, fin)"
  note f = register_filled [OF r, of 3] register_filled [OF r, of 2] register_filled [OF r, of 1]
  from r consider "k = 0" | "k = 1" | "k = 2" | "k = 3" by (simp add: register_def) linarith
  then show ?thesis by cases (use d f in \<open>auto simp: decode_finish_def Let_def\<close>)
qed

lemma decode_result:
  assumes "decode s = (w, fin)"
  shows "length w = 3 * (length (symbols s) div 4) + (length (symbols s) mod 4 - 1)"
    and "fin = (if length (symbols s) mod 4 = 1 then None else Some (length w))"
proof -
  obtain b out where l: "decode_loop (symbols s) 1 [] = (b, out)" by fastforce
  have "register 1 0" by (simp add: register_def)
  moreover have "list_all is_symbol (symbols s)" by (simp add: list_all_iff)
  ultimately have r: "register b (length (symbols s) mod 4)"
    and n: "length out = 3 * (length (symbols s) div 4)"
    using decode_loop_register [OF _ _ l] by fastforce+
  have "decode_finish b out = (w, fin)"
    using assms decode_loop_symbols [of s 1 "[]"] by (simp add: decode_def l)
  then show "length w = 3 * (length (symbols s) div 4) + (length (symbols s) mod 4 - 1)"
    "fin = (if length (symbols s) mod 4 = 1 then None else Some (length w))"
    using decode_finish_register [OF r] n by auto
qed

lemma decode_bounds:
  "decode s = (w, fin) \<Longrightarrow> length w \<le> (length s + 3) div 4 * 3 \<and>
   (fin = None \<longleftrightarrow> length (symbols s) mod 4 = 1) \<and> (\<forall>n. fin = Some n \<longrightarrow> n = length w)"
proof -
  assume d: "decode s = (w, fin)"
  let ?k = "length (symbols s)"
  have "3 * (k div 4) + (k mod 4 - 1) \<le> (k + 3) div 4 * 3" for k :: nat
  proof -
    have lt: "k mod 4 < 4" by simp
    have "k + 3 = 4 * (k div 4) + (k mod 4 + 3)" by simp
    then have "(k + 3) div 4 = k div 4 + (k mod 4 + 3) div 4"
      by (metis div_mult_self4 add.commute zero_neq_numeral)
    moreover from lt consider "k mod 4 = 0" | "k mod 4 = 1" | "k mod 4 = 2" | "k mod 4 = 3" by linarith
    ultimately show ?thesis by cases simp_all
  qed
  then have "3 * (?k div 4) + (?k mod 4 - 1) \<le> (?k + 3) div 4 * 3" .
  also have "\<dots> \<le> (length s + 3) div 4 * 3"
    by (intro mult_le_mono1 div_le_mono) simp
  finally have "3 * (?k div 4) + (?k mod 4 - 1) \<le> (length s + 3) div 4 * 3" .
  then show ?thesis using decode_result [OF d] by simp
qed

lemma unat_decoded_size:
  assumes "n < 2 ^ 62"
  shows "unat (decoded_size (word_of_nat n)) = (n + 3) div 4 * 3"
proof -
  have u: "unat (word_of_nat n + 3 :: u64) = n + 3"
    using assms by (simp add: unat_word_ariths unat_of_nat)
  have "(n + 3) div 4 * 3 < 2 ^ 64" using assms by simp
  then show ?thesis
    unfolding decoded_size_def by (simp add: unat_word_ariths(2) unat_div u)
qed

lemma unat_encoded_size:
  assumes "n < 2 ^ 62"
  shows "unat (encoded_size (word_of_nat n)) = (n + 2) div 3 * 4"
proof -
  have u: "unat (word_of_nat n + 2 :: u64) = n + 2"
    using assms by (simp add: unat_word_ariths unat_of_nat)
  have "(n + 2) div 3 * 4 < 2 ^ 64" using assms by simp
  then show ?thesis
    unfolding encoded_size_def by (simp add: unat_word_ariths(2) unat_div u)
qed

lemma l_to_base64_ok:
  assumes "length s < 2 ^ 62" "\<And>n. length (junk n) = n"
  shows "l_to_base64 junk s = Some (encode s)"
  using unat_encoded_size [OF assms(1)] assms(2)
  by (simp add: l_to_base64_def write_buf_def length_encode Let_def)

lemma l_from_base64_ok:
  assumes "length s < 2 ^ 62" "\<And>n. length (junk n) = n"
  shows "l_from_base64 junk s =
    Some (if length (symbols s) mod 4 = 1 then None else Some (fst (decode s)))"
proof -
  obtain w fin where d: "decode s = (w, fin)" by fastforce
  let ?n = "(length s + 3) div 4 * 3"
  have le: "length w \<le> ?n" using decode_bounds [OF d] by blast
  then have "write_buf (junk ?n) w = Some (w @ drop (length w) (junk ?n))"
    by (simp add: write_buf_def assms(2))
  then have "l_from_base64 junk s = Some (case fin of Some n \<Rightarrow> Some (take n (w @ drop (length w) (junk ?n)))
      | None \<Rightarrow> None)"
    by (simp add: l_from_base64_def unat_decoded_size [OF assms(1)] d)
  then show ?thesis unfolding decode_result(2) [OF d] using d by simp
qed

section \<open>What a text means\<close>

text \<open>
  The number of an alphabet character, and the bytes that the digits of a text stand for: three for four
  digits, two or one for three or two digits at the end, whose spare low bits are ignored; one digit at the
  end is no text.
\<close>

definition digits :: "string \<Rightarrow> nat list" where
  "digits t = List.map (\<lambda>c. length (takeWhile (\<lambda>x. x \<noteq> c) alphabet)) (symbols t)"

fun reading :: "nat list \<Rightarrow> string option" where
  "reading (a # b # c # d # ds) =
     map_option (\<lambda>r. chars3 (262144 * a + 4096 * b + 64 * c + d) @ r) (reading ds)"
| "reading [a, b, c] =
     Some [char_of ((4096 * a + 64 * b + c) div 1024), char_of ((4096 * a + 64 * b + c) div 4)]"
| "reading [a, b] = Some [char_of ((64 * a + b) div 16)]"
| "reading [a] = None"
| "reading [] = Some []"

text \<open>No spare bit is set.\<close>

fun canonical :: "nat list \<Rightarrow> bool" where
  "canonical (a # b # c # d # ds) = canonical ds"
| "canonical [a, b, c] = (c mod 4 = 0)"
| "canonical [a, b] = (b mod 16 = 0)"
| "canonical ds = True"

lemma symbol_number:
  assumes "is_symbol c"
  shows "length (takeWhile (\<lambda>x. x \<noteq> c) alphabet) < 64" "alphabet ! length (takeWhile (\<lambda>x. x \<noteq> c) alphabet) = c"
proof -
  have c: "c \<in> set alphabet" using assms by (simp add: is_symbol_def)
  then have "takeWhile (\<lambda>x. x \<noteq> c) alphabet \<noteq> alphabet" by (auto simp: takeWhile_eq_all_conv)
  then have l: "length (takeWhile (\<lambda>x. x \<noteq> c) alphabet) < length alphabet"
    by (metis length_takeWhile_le order_neq_le_trans takeWhile_eq_take take_all order_refl)
  then show "length (takeWhile (\<lambda>x. x \<noteq> c) alphabet) < 64" by (simp add: alphabet_def)
  show "alphabet ! length (takeWhile (\<lambda>x. x \<noteq> c) alphabet) = c"
    using nth_length_takeWhile [OF l] by simp
qed

lemma digits_symbols: "List.map ((!) alphabet) (digits t) = symbols t" "list_all (\<lambda>d. d < 64) (digits t)"
  using symbol_number
  by (auto simp: digits_def list_all_iff intro!: map_idI)

lemma reading_None: "reading ds = None \<longleftrightarrow> length ds mod 4 = 1"
  by (induction ds rule: reading.induct) simp_all

lemma decode_reading_acc:
  assumes "list_all (\<lambda>d. d < 64) ds" "reading ds = Some r"
  shows "(case decode_loop (List.map ((!) alphabet) ds) 1 out of (b, o') \<Rightarrow> decode_finish b o')
    = (out @ r, Some (length out + length r))"
  using assms
proof (induction ds arbitrary: out r rule: reading.induct)
  case (1 a b c d ds)
  from "1.prems" obtain r' where r: "reading ds = Some r'" "r = chars3 (262144 * a + 4096 * b + 64 * c + d) @ r'"
    by auto
  from "1.prems"(1) have v: "a < 64" "b < 64" "c < 64" "d < 64" and ds: "list_all (\<lambda>d. d < 64) ds" by simp_all
  from "1.IH" [OF ds r(1), of "out @ chars3 (262144 * a + 4096 * b + 64 * c + d)"] show ?case
    by (simp only: list.map decode_four [OF v]) (simp add: r(2) chars3_def)
next
  case (2 a b c)
  let ?X = "4096 * a + 64 * b + c"
  have v: "a < 64" "b < 64" "c < 64" and lt: "?X < 2 ^ 18" using "2.prems"(1) by simp_all
  have "64 * (64 * (64 * 1 + a) + b) + c = 2 ^ 18 + ?X" by simp
  moreover have r: "r = [char_of (?X div 1024), char_of (?X div 4)]" using "2.prems"(2) by simp
  ultimately show ?case
    using decode_three [OF v, of "[]" out] finish_digits3 [OF lt, of out]
    unfolding r by (simp only: list.map decode_loop.simps(1) of_nat_1 case_prod_conv) simp
next
  case (3 a b)
  let ?X = "64 * a + b"
  have v: "a < 64" "b < 64" and lt: "?X < 2 ^ 12" using "3.prems"(1) by simp_all
  have "64 * (64 * 1 + a) + b = 2 ^ 12 + ?X" by simp
  moreover have r: "r = [char_of (?X div 16)]" using "3.prems"(2) by simp
  ultimately show ?case
    using decode_two [OF v, of "[]" out] finish_digits2 [OF lt, of out]
    unfolding r by (simp only: list.map decode_loop.simps(1) of_nat_1 case_prod_conv) simp
next
  case 5
  then show ?case by (simp add: decode_finish_def filled_iff)
qed simp

lemma decode_reading:
  assumes "reading (digits t) = Some r"
  shows "decode t = (r, Some (length r))"
  using decode_reading_acc [OF digits_symbols(2) assms, of "[]"] decode_loop_symbols [of t 1 "[]"]
  by (simp add: decode_def digits_symbols(1))

text \<open>Encoding gives the digits back.\<close>

lemma of_chars3:
  assumes "(X :: nat) < 2 ^ 24"
  shows "65536 * of_char (char_of (X div 65536) :: char) + 256 * of_char (char_of (X div 256) :: char)
    + of_char (char_of X :: char) = X"
proof -
  define q1 where "q1 = X div 256"
  define q2 where "q2 = q1 div 256"
  have q: "X div 65536 = q2" by (simp add: q1_def q2_def div_mult2_eq [symmetric])
  have "q2 < 256" using assms by (simp add: q [symmetric])
  moreover have "256 * q1 + X mod 256 = X" "256 * q2 + q1 mod 256 = q1" by (simp_all add: q1_def q2_def)
  ultimately show ?thesis by (simp add: q of_char_mod_256 flip: q1_def)
qed

lemma digits_of_four:
  assumes "a < 64" "b < 64" "c < 64" "d < (64 :: nat)"
  defines "X \<equiv> 262144 * a + 4096 * b + 64 * c + d"
  shows "X div 2 ^ 18 mod 64 = a" "X div 2 ^ 12 mod 64 = b" "X div 2 ^ 6 mod 64 = c" "X div 2 ^ 0 mod 64 = d"
    "X < 2 ^ 24"
proof -
  have e: "X div 2 ^ 18 = 64 * 0 + a" "X div 2 ^ 12 = 64 * a + b" "X div 2 ^ 6 = 64 * (64 * a + b) + c"
    "X div 2 ^ 0 = 64 * (64 * (64 * a + b) + c) + d"
    using assms(1-4) unfolding X_def by (auto intro: div_nat_eqI)
  have m: "(64 * q + r) mod 64 = r" if "r < 64" for q r :: nat using that by simp
  show "X div 2 ^ 18 mod 64 = a" "X div 2 ^ 12 mod 64 = b" "X div 2 ^ 6 mod 64 = c" "X div 2 ^ 0 mod 64 = d"
    unfolding e by (rule m [OF assms(1)] m [OF assms(2)] m [OF assms(3)] m [OF assms(4)])+
  show "X < 2 ^ 24" using assms(1-4) unfolding X_def by simp
qed

lemma of_chars2:
  assumes "(Y :: nat) < 2 ^ 16"
  shows "256 * of_char (char_of (Y div 256) :: char) + of_char (char_of Y :: char) = Y"
proof -
  have "Y div 256 < 256" using assms by simp
  moreover have "256 * (Y div 256) + Y mod 256 = Y" by simp
  ultimately show ?thesis by (simp add: of_char_mod_256)
qed

lemma encode_digits3:
  assumes "a < 64" "b < 64" "c < 64" "c mod 4 = 0"
  shows "encode [char_of ((4096 * a + 64 * b + c) div 1024), char_of ((4096 * a + 64 * b + c) div 4)] =
    [alphabet ! a, alphabet ! b, alphabet ! c, CHR ''='']"
proof -
  let ?X = "4096 * a + 64 * b + c"
  from assms(4) obtain k where k: "c = 4 * k" by (metis mod_0_imp_dvd dvdE)
  define Y where "Y = 1024 * a + 16 * b + k"
  have y: "?X = 4 * Y" "Y < 2 ^ 16" using assms(1-3) by (simp_all add: k Y_def)
  have d: "4 * Y div 1024 = Y div 256" "4 * Y div 4 = Y" by simp_all
  have "1024 * of_char (char_of (?X div 1024) :: char) + 4 * of_char (char_of (?X div 4) :: char) =
      4 * (256 * of_char (char_of (Y div 256) :: char) + of_char (char_of Y :: char) :: nat)"
    unfolding y(1) d by simp
  then have "1024 * of_char (char_of (?X div 1024) :: char) + 4 * of_char (char_of (?X div 4) :: char) = ?X"
    unfolding of_chars2 [OF y(2)] y(1) .
  moreover from digits_of_four [of 0 a b c] assms
  have "?X div 2 ^ 12 mod 64 = a" "?X div 2 ^ 6 mod 64 = b" "?X div 2 ^ 0 mod 64 = c" by simp_all
  ultimately show ?thesis by (simp only: encode_two)
qed

lemma encode_digits2:
  assumes "a < 64" "b < 64" "b mod 16 = 0"
  shows "encode [char_of ((64 * a + b) div 16)] = [alphabet ! a, alphabet ! b, CHR ''='', CHR ''='']"
proof -
  from assms(3) obtain k where k: "b = 16 * k" by (metis mod_0_imp_dvd dvdE)
  have "(64 * a + b) div 16 = 4 * a + k" by (simp add: k)
  moreover have "4 * a + k < 256" using assms(1,2) k by simp
  ultimately have "1024 * of_char (char_of ((64 * a + b) div 16) :: char) = 4096 * a + 64 * b + 0"
    by (simp add: k)
  moreover from digits_of_four [of 0 a b 0] assms(1,2)
  have "(4096 * a + 64 * b + 0) div 2 ^ 12 mod 64 = a" "(4096 * a + 64 * b + 0) div 2 ^ 6 mod 64 = b" by simp_all
  ultimately show ?thesis by (simp only: encode_one)
qed

lemma encode_reading:
  assumes "list_all (\<lambda>d. d < 64) ds" "canonical ds" "reading ds = Some r"
  shows "encode r = List.map ((!) alphabet) ds @ replicate ((4 - length ds mod 4) mod 4) CHR ''=''"
  using assms
proof (induction ds arbitrary: r rule: reading.induct)
  case (1 a b c d ds)
  let ?X = "262144 * a + 4096 * b + 64 * c + d"
  from "1.prems" obtain r' where r: "reading ds = Some r'" "r = chars3 ?X @ r'" by auto
  from "1.prems"(1) have v: "a < 64" "b < 64" "c < 64" "d < 64" and ds: "list_all (\<lambda>d. d < 64) ds" by simp_all
  note X = digits_of_four [OF v]
  have "encode r = alphabet ! a # alphabet ! b # alphabet ! c # alphabet ! d # encode r'"
    unfolding r(2) chars3_def append.simps encode_three of_chars3 [OF X(5)] X(1-4) ..
  with "1.IH" [OF ds _ r(1)] "1.prems"(2) show ?case by simp
next
  case (2 a b c)
  with encode_digits3 [of a b c] show ?case by (simp del: encode.simps)
next
  case (3 a b)
  with encode_digits2 [of a b] show ?case by (simp add: numeral_2_eq_2 del: encode.simps)
qed simp_all

section \<open>Properties\<close>

text \<open>C15: decoding the encoding of any byte string writes exactly that string and returns
  the pointer to its end.\<close>

theorem decode_encode: "decode (encode s) = (s, Some (length s))"
  using decode_encode_acc [of s "[]"] by (simp add: decode_def)

text \<open>on any input, junk and padding included, the decoder writes at most
  \<open>decoded_size\<close> many bytes, fails exactly when the number of alphabet characters is 1
  modulo 4, and otherwise returns the end of what it wrote.\<close>

theorem decode_total:
  "length (fst (decode s)) \<le> (length s + 3) div 4 * 3 \<and>
   snd (decode s) =
     (if length (symbols s) mod 4 = 1 then None else Some (length (fst (decode s))))"
  using decode_bounds [of s "fst (decode s)" "snd (decode s)"]
    decode_result(2) [of s "fst (decode s)" "snd (decode s)"] by simp

lemma reading_length: "reading ds = Some r \<Longrightarrow> length r \<le> length ds"
  by (induction ds arbitrary: r rule: reading.induct) (auto simp: chars3_def)

text \<open>
  C21: the Lua bindings on any strings, whatever the buffers they get from Lua contain at first.
  Encoding never leaves its buffer and gives the encoding.  Decoding never leaves its buffer either,
  padded or not and with junk between the digits, and gives the bytes that the digits stand for, or
  nil just when one digit is left over.  Each undoes the other: decoding an encoding gives the string
  back, and encoding what was decoded from a text without spare bits gives its digits back, padded.
\<close>

theorem lua_base64_roundtrip:
  assumes "length s < 2 ^ 61" "length t < 2 ^ 62" and "\<And>n. length (junk n) = n"
  shows "l_to_base64 junk s = Some (encode s) \<and> l_from_base64 junk (encode s) = Some (Some s) \<and>
    l_from_base64 junk t = Some (reading (digits t)) \<and>
    (reading (digits t) = None \<longleftrightarrow> length (digits t) mod 4 = 1) \<and>
    (\<forall>r. canonical (digits t) \<and> l_from_base64 junk t = Some (Some r) \<longrightarrow>
       l_to_base64 junk r = Some (symbols t @ replicate ((4 - length (symbols t) mod 4) mod 4) CHR ''=''))"
proof -
  have encodes: "l_to_base64 junk r = Some (encode r)" if "length r < 2 ^ 62" for r
    using that assms(3) by (intro l_to_base64_ok) simp_all
  have decodes: "l_from_base64 junk u =
      Some (if length (symbols u) mod 4 = 1 then None else Some (fst (decode u)))" if "length u < 2 ^ 62" for u
    using that assms(3) by (intro l_from_base64_ok)
  have len: "length (digits t) = length (symbols t)" by (simp add: digits_def)
  have t: "l_from_base64 junk t = Some (reading (digits t))"
    using decodes [OF assms(2)] reading_None [of "digits t"] decode_reading [of t]
    by (cases "reading (digits t)") (simp_all add: len)
  have "l_to_base64 junk r = Some (symbols t @ replicate ((4 - length (symbols t) mod 4) mod 4) CHR ''='')"
    if "canonical (digits t)" "l_from_base64 junk t = Some (Some r)" for r
  proof -
    have r: "reading (digits t) = Some r" using t that(2) by simp
    have "length r < 2 ^ 62"
      using reading_length [OF r] assms(2) length_filter_le [of is_symbol t] by (simp only: len)
    from encodes [OF this] encode_reading [OF digits_symbols(2) that(1) r] show ?thesis
      by (simp add: digits_symbols(1) len)
  qed
  moreover have "(length s + 2) div 3 * 4 < 2 ^ 62" using assms(1) by simp
  then have "l_from_base64 junk (encode s) = Some (Some s)"
    using decodes [of "encode s"] decode_encode_acc [of s "[]"] decode_result(2) [of "encode s" s "Some (length s)"]
    by (simp add: length_encode decode_def split: if_splits)
  ultimately show ?thesis using encodes [of s] assms(1) t reading_None [of "digits t"] by simp
qed

theorem lua_base64_roundtrip_witness:
  "l_to_base64 (\<lambda>n. replicate n NUL) ''foob'' = Some ''Zm9vYg=='' \<and>
   l_from_base64 (\<lambda>n. replicate n NUL) ''Zm9vYg=='' = Some (Some ''foob'') \<and>
   l_from_base64 (\<lambda>n. replicate n NUL) ''Zm9v'' = Some (Some ''foo'')"
proof -
  have e: "encode ''foob'' = ''Zm9vYg==''"
    by (simp add: Let_def extract_char_def uint8_def alphabet_def)
  have r: "reading (digits ''Zm9v'') = Some ''foo''"
    by (simp add: digits_def alphabet_def is_symbol_def chars3_def char_of_eq_iff)
  have "length ''foob'' < 2 ^ 61" "length ''Zm9v'' < 2 ^ 62" by simp_all
  from lua_base64_roundtrip [OF this, of "\<lambda>n. replicate n NUL", OF length_replicate] show ?thesis
    unfolding e r by (intro conjI) (simp_all only: simp_thms)
qed

end
