(* ===== verification/IrcMsg.thy ===== *)
theory IrcMsg
  imports Prelude "HOL-Library.Monad_Syntax"
begin

text \<open>
  The in-place IRC message parser of \<open>ircmsg/ircmsg.cpp\<close>.

  The parser owns no storage: it overwrites separators of the caller's buffer with NUL
  bytes, unescapes tag values over themselves, and returns views into the buffer.  The
  model keeps exactly that: one allocation (\<open>cmem\<close>), a cursor, and views
  \<open>(offset, length)\<close>.  \<open>None\<close> is an access outside of the allocation.

  What a message means, and the proof that this parser computes it in place without leaving
  its allocation, is the theory \<open>IrcRefine\<close>.
\<close>

section \<open>Data\<close>

text \<open>
  The element type is the string representation: views while the buffer is being parsed,
  strings for what they denote.
\<close>

type_synonym sview = "nat \<times> nat"

record 's irctag =
  tag_key :: 's
  tag_val :: 's

record 's ircmsg =
  msg_tags :: "'s irctag list"
  msg_source :: 's
  msg_command :: 's
  msg_args :: "'s list"

datatype irc_error_code = MISSING_TAG | MISSING_COMMAND

fun irc_parse_error_what :: "irc_error_code \<Rightarrow> string" where
  "irc_parse_error_what MISSING_TAG = ''irc parse error: missing tag''"
| "irc_parse_error_what MISSING_COMMAND = ''irc parse error: missing command''"

fun show_irc_error_code :: "irc_error_code \<Rightarrow> string" where
  "show_irc_error_code MISSING_COMMAND = ''MISSING COMMAND''"
| "show_irc_error_code MISSING_TAG = ''MISSING TAG''"

record parser =
  pmem :: cmem
  p_msg :: nat

section \<open>Pointer loops of the C library\<close>

text \<open>\<open>scan P m p\<close> is \<open>while (P(*p)) p++;\<close>.\<close>

function scan :: "(char \<Rightarrow> bool) \<Rightarrow> cmem \<Rightarrow> nat \<Rightarrow> nat option" where
  "scan P m p = do { c \<leftarrow> rd m p; if P c then scan P m (Suc p) else Some p }"
  by pat_completeness auto
termination
  by (relation "measure (\<lambda>(P, m, p). length m - p)") (auto simp: rd_def split: if_splits)

declare scan.simps [simp del]

definition strlen_view :: "cmem \<Rightarrow> nat \<Rightarrow> sview option" where
  "strlen_view m p = do { q \<leftarrow> scan (\<lambda>c. c \<noteq> NUL) m p; Some (p, q - p) }"

text \<open>\<open>strsep(&str, d)\<close>: the token, the new value of \<open>str\<close> and the memory.\<close>

fun strsep :: "cmem \<Rightarrow> nat option \<Rightarrow> char \<Rightarrow> (nat option \<times> nat option \<times> cmem) option" where
  "strsep m None d = Some (None, None, m)"
| "strsep m (Some p) d = do {
     q \<leftarrow> scan (\<lambda>c. c \<noteq> NUL \<and> c \<noteq> d) m p;
     c \<leftarrow> rd m q;
     if c = NUL then Some (Some p, None, m)
     else do { m \<leftarrow> wr m q NUL; Some (Some p, Some (Suc q), m) }
   }"

section \<open>The class \<open>parser\<close>\<close>

definition trim :: "parser \<Rightarrow> parser option" where
  "trim s = do { q \<leftarrow> scan (\<lambda>c. c = SP) (pmem s) (p_msg s); Some (s\<lparr>p_msg := q\<rparr>) }"

text \<open>The sentinel \<open>empty\<close> is a one-byte allocation of its own.\<close>

fun parser_new :: "(cmem \<times> nat) option \<Rightarrow> parser option" where
  "parser_new None = Some \<lparr>pmem = [NUL], p_msg = 0\<rparr>"
| "parser_new (Some (m, p)) = trim \<lparr>pmem = m, p_msg = p\<rparr>"

definition word :: "parser \<Rightarrow> (nat \<times> parser) option" where
  "word s = do {
     let start = p_msg s;
     q \<leftarrow> scan (\<lambda>c. c \<noteq> NUL \<and> c \<noteq> SP) (pmem s) start;
     c \<leftarrow> rd (pmem s) q;
     if c \<noteq> NUL then do {
       m \<leftarrow> wr (pmem s) q NUL;
       s \<leftarrow> trim \<lparr>pmem = m, p_msg = Suc q\<rparr>;
       Some (start, s)
     } else Some (start, s\<lparr>p_msg := q\<rparr>)
   }"

definition match :: "char \<Rightarrow> parser \<Rightarrow> (bool \<times> parser) option" where
  "match c s = do {
     d \<leftarrow> rd (pmem s) (p_msg s);
     Some (if c = d then (True, s\<lparr>p_msg := Suc (p_msg s)\<rparr>) else (False, s))
   }"

definition isempty :: "parser \<Rightarrow> bool option" where
  "isempty s = do { c \<leftarrow> rd (pmem s) (p_msg s); Some (c = NUL) }"

definition peek :: "parser \<Rightarrow> nat" where
  "peek s = p_msg s"

section \<open>Tags\<close>

fun unescape_char :: "char \<Rightarrow> char" where
  "unescape_char c =
     (if c = CHR '':'' then CHR '';''
      else if c = CHR ''s'' then SP
      else if c = CHR ''r'' then CR
      else if c = CHR ''n'' then LF
      else c)"

declare unescape_char.simps [simp del]

abbreviation BS :: char where "BS \<equiv> CHR 0x5C"

function unescape_loop :: "cmem \<Rightarrow> nat \<Rightarrow> nat \<Rightarrow> (nat \<times> cmem) option" where
  "unescape_loop m cursor wpos = do {
     c \<leftarrow> rd m cursor;
     if c = NUL then Some (wpos, m)
     else if c = BS then do {
       d \<leftarrow> rd m (Suc cursor);
       if d = NUL then Some (wpos, m)
       else do {
         m \<leftarrow> wr m wpos (unescape_char d);
         unescape_loop m (Suc (Suc cursor)) (Suc wpos)
       }
     } else do {
       m \<leftarrow> wr m wpos c;
       unescape_loop m (Suc cursor) (Suc wpos)
     }
   }"
  by pat_completeness auto
termination
  by (relation "measure (\<lambda>(m, cursor, wpos). length m - cursor)")
    (auto simp: rd_def wr_def split: if_splits)

declare unescape_loop.simps [simp del]

definition unescape_tag_value :: "cmem \<Rightarrow> nat \<Rightarrow> (sview \<times> cmem) option" where
  "unescape_tag_value m val = do {
     cursor \<leftarrow> scan (\<lambda>c. c \<noteq> NUL \<and> c \<noteq> BS) m val;
     c \<leftarrow> rd m cursor;
     if c = NUL then do { v \<leftarrow> strlen_view m val; Some (v, m) }
     else do { (wpos, m) \<leftarrow> unescape_loop m cursor cursor; Some ((val, wpos - val), m) }
   }"

lemma scan_bound: "scan P m p = Some q \<Longrightarrow> p \<le> q \<and> q < length m"
proof (induction P m p rule: scan.induct)
  case (1 P m p)
  then show ?case
    by (subst (asm) (2) scan.simps) (auto simp: rd_def split: if_splits)
qed

lemma strsep_bound:
  "strsep m (Some p) d = Some (t, r, m') \<Longrightarrow>
   length m' = length m \<and> t = Some p \<and> (\<forall>q. r = Some q \<longrightarrow> p < q \<and> q \<le> length m)"
  by (auto simp: Option.bind_eq_Some_conv rd_def wr_def split: if_splits dest!: scan_bound)


text \<open>The loop body of \<open>parse_irc_tags\<close>: one token, split at its first \<open>=\<close>.\<close>

definition parse_one_tag ::
  "cmem \<Rightarrow> nat \<Rightarrow> ((irc_error_code + sview irctag) \<times> nat option \<times> cmem) option" where
  "parse_one_tag m p = do {
     (val, str, m) \<leftarrow> strsep m (Some p) (CHR '';'');
     (key, val, m) \<leftarrow> strsep m val (CHR ''='');
     k \<leftarrow> key;
     c \<leftarrow> rd m k;
     if c = NUL then Some (Inl MISSING_TAG, str, m)
     else do {
       kv \<leftarrow> strlen_view m k;
       (case val of
          None \<Rightarrow> Some (Inr \<lparr>tag_key = kv, tag_val = (0, 0)\<rparr>, str, m)
        | Some v \<Rightarrow> do {
            (vv, m) \<leftarrow> unescape_tag_value m v;
            Some (Inr \<lparr>tag_key = kv, tag_val = vv\<rparr>, str, m)
          })
     }
   }"

lemma unescape_loop_length:
  "unescape_loop m c w = Some (w', m') \<Longrightarrow> length m' = length m"
proof (induction m c w rule: unescape_loop.induct)
  case (1 m c w)
  from "1.prems" obtain x where x: "rd m c = Some x"
    by (subst (asm) unescape_loop.simps) (auto simp: Option.bind_eq_Some_conv)
  from "1.IH" [OF x] "1.prems" x show ?case
    by (subst (asm) (3) unescape_loop.simps)
      (auto simp: Option.bind_eq_Some_conv split: if_splits dest: length_wr)
qed

lemma unescape_tag_value_length:
  "unescape_tag_value m v = Some (r, m') \<Longrightarrow> length m' = length m"
  by (auto simp: unescape_tag_value_def Option.bind_eq_Some_conv split: if_splits
      dest!: unescape_loop_length)

lemma parse_one_tag_bound:
  assumes "parse_one_tag m p = Some (r, str, m')"
  shows "length m' = length m \<and> (\<forall>q. str = Some q \<longrightarrow> p < q \<and> q \<le> length m)"
proof -
  from assms obtain val str1 m1 key val2 m2 where
    s1: "strsep m (Some p) (CHR '';'') = Some (val, str1, m1)" and
    s2: "strsep m1 val (CHR ''='') = Some (key, val2, m2)" and
    rest: "str = str1" "length m' = length m2"
    by (auto simp: parse_one_tag_def Option.bind_eq_Some_conv split: if_splits option.splits
        dest!: unescape_tag_value_length)
  from strsep_bound [OF s1] have "val = Some p" "length m1 = length m" by auto
  with s2 have "length m2 = length m1" using strsep_bound by blast
  with rest strsep_bound [OF s1] show ?thesis by simp
qed

function parse_irc_tags ::
  "cmem \<Rightarrow> nat \<Rightarrow> sview irctag list \<Rightarrow> ((irc_error_code + sview irctag list) \<times> cmem) option" where
  "parse_irc_tags m str tags =
     (case parse_one_tag m str of
        None \<Rightarrow> None
      | Some (Inl e, str, m) \<Rightarrow> Some (Inl e, m)
      | Some (Inr tag, None, m) \<Rightarrow> Some (Inr (tags @ [tag]), m)
      | Some (Inr tag, Some str, m) \<Rightarrow> parse_irc_tags m str (tags @ [tag]))"
  by pat_completeness auto
termination
  by (relation "measure (\<lambda>(m, str, tags). Suc (length m) - str)")
    (auto dest!: parse_one_tag_bound)

declare parse_irc_tags.simps [simp del]

section \<open>Messages\<close>

text \<open>The argument loop.\<close>

lemma trim_bound: "trim s = Some s' \<Longrightarrow> pmem s' = pmem s \<and> p_msg s \<le> p_msg s' \<and> p_msg s' < length (pmem s)"
  by (auto simp: trim_def Option.bind_eq_Some_conv dest!: scan_bound)

lemma word_bound:
  assumes "word s = Some (w, s')" "rd (pmem s) (p_msg s) = Some c" "c \<noteq> NUL"
  shows "length (pmem s') = length (pmem s) \<and> p_msg s < p_msg s' \<and> p_msg s' < length (pmem s)"
proof -
  from assms(1) obtain q d where
    q: "scan (\<lambda>c. c \<noteq> NUL \<and> c \<noteq> SP) (pmem s) (p_msg s) = Some q" "rd (pmem s) q = Some d"
    by (auto simp: word_def Option.bind_eq_Some_conv Let_def)
  note b = scan_bound [OF q(1)]
  show ?thesis
  proof (cases "d = NUL")
    case True
    with q assms have "s' = s\<lparr>p_msg := q\<rparr>" "q \<noteq> p_msg s" by (auto simp: word_def Let_def)
    with b show ?thesis by simp
  next
    case False
    with q assms(1) obtain m where "wr (pmem s) q NUL = Some m" "trim \<lparr>pmem = m, p_msg = Suc q\<rparr> = Some s'"
      by (auto simp: word_def Option.bind_eq_Some_conv Let_def)
    with b show ?thesis by (auto dest!: trim_bound length_wr)
  qed
qed

lemma match_bound:
  "match c s = Some (b, s') \<Longrightarrow> c \<noteq> NUL \<Longrightarrow> pmem s' = pmem s \<and> (\<not> b \<longrightarrow> s' = s) \<and>
   p_msg s' \<le> length (pmem s)"
  by (auto simp: match_def Option.bind_eq_Some_conv rd_def split: if_splits)

function parse_args :: "parser \<Rightarrow> sview list \<Rightarrow> (sview list \<times> parser) option" where
  "parse_args p args = do {
     e \<leftarrow> isempty p;
     if e then Some (args, p)
     else do {
       (m, p) \<leftarrow> match (CHR '':'') p;
       if m then do { v \<leftarrow> strlen_view (pmem p) (peek p); Some (args @ [v], p) }
       else do {
         (w, p) \<leftarrow> word p;
         v \<leftarrow> strlen_view (pmem p) w;
         parse_args p (args @ [v])
       }
     }
   }"
  by pat_completeness auto
termination
proof (relation "measure (\<lambda>(p, args). length (pmem p) - p_msg p)", goal_cases)
  case (2 p args e x m p1 y w p2 v)
  then obtain c where "rd (pmem p) (p_msg p) = Some c" "c \<noteq> NUL"
    by (auto simp: isempty_def Option.bind_eq_Some_conv)
  moreover from 2 have "p1 = p" by (auto simp: match_def Option.bind_eq_Some_conv split: if_splits)
  ultimately show ?case using 2 word_bound [of p w p2] by (auto simp: Option.bind_eq_Some_conv)
qed simp

declare parse_args.simps [simp del]

text \<open>
  The body of \<open>parse_irc_message\<close> after the tags: source, command and arguments.
  \<open>parse_irc_message\<close> itself starts with the constructor of the parser and the tags.
\<close>

definition parse_body ::
  "sview irctag list \<Rightarrow> parser \<Rightarrow> ((irc_error_code + sview ircmsg) \<times> cmem) option" where
  "parse_body tags p = do {
     (colon, p) \<leftarrow> match (CHR '':'') p;
     (source, p) \<leftarrow>
       (if colon then do { (w, p) \<leftarrow> word p; v \<leftarrow> strlen_view (pmem p) w; Some (v, p) }
        else Some ((0, 0), p));
     (w, p) \<leftarrow> word p;
     command \<leftarrow> strlen_view (pmem p) w;
     if snd command = 0 then Some (Inl MISSING_COMMAND, pmem p)
     else do {
       (args, p) \<leftarrow> parse_args p [];
       Some (Inr \<lparr>msg_tags = tags, msg_source = source, msg_command = command, msg_args = args\<rparr>,
         pmem p)
     }
   }"

definition parse_irc_message ::
  "(cmem \<times> nat) option \<Rightarrow> ((irc_error_code + sview ircmsg) \<times> cmem) option" where
  "parse_irc_message msg = do {
     p \<leftarrow> parser_new msg;
     (at, p) \<leftarrow> match (CHR ''@'') p;
     (tags, p) \<leftarrow>
       (if at then do {
          (w, p) \<leftarrow> word p;
          (r, m) \<leftarrow> parse_irc_tags (pmem p) w [];
          Some (r, p\<lparr>pmem := m\<rparr>)
        } else Some (Inr [], p));
     (case tags of
        Inl e \<Rightarrow> Some (Inl e, pmem p)
      | Inr tags \<Rightarrow> parse_body tags p)
   }"

end
