(* ===== verification/IrcRefine.thy ===== *)
theory IrcRefine
  imports IrcMsg
begin

text \<open>
  The in-place parser of \<open>IrcMsg\<close> against ordinary functions on strings.

  \<open>spec_parse\<close> says what a message means, without memory.  The \<open>_app\<close> lemmas follow each
  routine of the parser over an allocation \<open>pre @ s @ NUL # post\<close>: the bytes before and after are
  kept, the message's own bytes are replaced by as many others, and the views handed out so far
  (\<open>reads\<close>) lie in the part that later steps never write again.  The last section prints messages
  and parses them back.
\<close>

section \<open>What a message means\<close>

definition spec_trim :: "string \<Rightarrow> string" where
  "spec_trim s = dropWhile (\<lambda>c. c = SP) s"

definition spec_word :: "string \<Rightarrow> string \<times> string" where
  "spec_word s = (takeWhile (\<lambda>c. c \<noteq> SP) s, spec_trim (dropWhile (\<lambda>c. c \<noteq> SP) s))"

definition split_at :: "char \<Rightarrow> string \<Rightarrow> string \<times> string option" where
  "split_at d s = (takeWhile (\<lambda>c. c \<noteq> d) s,
     case dropWhile (\<lambda>c. c \<noteq> d) s of [] \<Rightarrow> None | _ # r \<Rightarrow> Some r)"

fun unescape :: "string \<Rightarrow> string" where
  "unescape [] = []"
| "unescape [c] = (if c = BS then [] else [c])"
| "unescape (c # d # r) =
     (if c = BS then unescape_char d # unescape r else c # unescape (d # r))"

definition spec_tag :: "string \<Rightarrow> irc_error_code + string irctag" where
  "spec_tag t = (case split_at (CHR ''='') t of (k, v) \<Rightarrow>
     if k = [] then Inl MISSING_TAG
     else Inr \<lparr>tag_key = k, tag_val = (case v of None \<Rightarrow> [] | Some v \<Rightarrow> unescape v)\<rparr>)"

lemma split_at_None: "split_at d s = (t, None) \<Longrightarrow> t = s \<and> d \<notin> set s"
proof -
  assume "split_at d s = (t, None)"
  then have t: "t = takeWhile (\<lambda>c. c \<noteq> d) s" and "dropWhile (\<lambda>c. c \<noteq> d) s = []"
    by (auto simp: split_at_def split: list.splits)
  then have "t = s" by (simp add: dropWhile_Nil_takeWhile)
  moreover have "d \<notin> set t" by (simp add: t)
  ultimately show ?thesis by simp
qed

lemma split_at_Some: "split_at d s = (t, Some r) \<Longrightarrow> s = t @ d # r \<and> d \<notin> set t"
proof -
  assume "split_at d s = (t, Some r)"
  then obtain c where c: "dropWhile (\<lambda>c. c \<noteq> d) s = c # r" and t: "t = takeWhile (\<lambda>c. c \<noteq> d) s"
    by (auto simp: split_at_def split: list.splits)
  from takeWhile_dropWhile_split [OF c] show ?thesis unfolding t by auto
qed

lemma split_at_length: "split_at d s = (t, Some r) \<Longrightarrow> length r < length s"
  by (auto dest: split_at_Some)

function spec_tags :: "string \<Rightarrow> irc_error_code + string irctag list" where
  "spec_tags s = (case split_at (CHR '';'') s of (t, rest) \<Rightarrow>
     (case spec_tag t of
        Inl e \<Rightarrow> Inl e
      | Inr tag \<Rightarrow>
          (case rest of
             None \<Rightarrow> Inr [tag]
           | Some r \<Rightarrow> (case spec_tags r of Inl e \<Rightarrow> Inl e | Inr tags \<Rightarrow> Inr (tag # tags)))))"
  by pat_completeness auto
termination
  by (relation "measure length") (auto dest!: sym split_at_length)

declare spec_tags.simps [simp del]

lemma spec_trim_length: "length (spec_trim s) \<le> length s"
  by (simp add: spec_trim_def length_dropWhile_le)

lemma spec_word_length: "length (snd (spec_word (c # cs))) < Suc (length cs)"
proof (cases "c = SP")
  case True
  then show ?thesis by (simp add: spec_word_def spec_trim_def length_dropWhile_le less_Suc_eq_le)
next
  case False
  have "length (spec_trim (dropWhile (\<lambda>c. c \<noteq> SP) cs)) \<le> length cs"
    by (rule le_trans [OF spec_trim_length length_dropWhile_le])
  with False show ?thesis by (simp add: spec_word_def)
qed

function spec_args :: "string \<Rightarrow> string list" where
  "spec_args [] = []"
| "spec_args (c # s) =
     (if c = CHR '':'' then [s]
      else case spec_word (c # s) of (w, r) \<Rightarrow> w # spec_args r)"
  by pat_completeness auto
termination
  by (relation "measure length") (auto, metis snd_conv spec_word_length)

declare spec_args.simps [simp del]

definition spec_body :: "string irctag list \<Rightarrow> string \<Rightarrow> irc_error_code + string ircmsg" where
  "spec_body tags s =
     (let (source, s) = (case s of
          [] \<Rightarrow> ([], s)
        | c # r \<Rightarrow> if c = CHR '':'' then spec_word r else ([], s));
          (command, s) = spec_word s
      in if command = [] then Inl MISSING_COMMAND
         else Inr \<lparr>msg_tags = tags, msg_source = source, msg_command = command,
           msg_args = spec_args s\<rparr>)"

definition spec_parse :: "string \<Rightarrow> irc_error_code + string ircmsg" where
  "spec_parse s =
     (let s = spec_trim s;
          (tags, s) = (case s of
              [] \<Rightarrow> (Inr [], s)
            | c # r \<Rightarrow> if c = CHR ''@'' then (case spec_word r of (w, r) \<Rightarrow> (spec_tags w, r)) else (Inr [], s))
      in case tags of
           Inl e \<Rightarrow> Inl e
         | Inr tags \<Rightarrow> spec_body tags s)"

section \<open>Views that stay valid\<close>

definition reads :: "cmem \<Rightarrow> sview \<Rightarrow> string \<Rightarrow> bool" where
  "reads m v s \<longleftrightarrow> fst v + snd v \<le> length m \<and> view m (fst v) (snd v) = s"

definition reads_tag :: "cmem \<Rightarrow> sview irctag \<Rightarrow> string irctag \<Rightarrow> bool" where
  "reads_tag m v t \<longleftrightarrow> reads m (tag_key v) (tag_key t) \<and> reads m (tag_val v) (tag_val t)"

lemma reads_append [mem_simps]: "reads m v s \<Longrightarrow> reads (m @ x) v s"
  by (auto simp: reads_def mem_simps)

lemma reads_tag_append [mem_simps]: "reads_tag m v t \<Longrightarrow> reads_tag (m @ x) v t"
  by (simp add: reads_tag_def reads_append)

lemma reads_empty [mem_simps]: "reads m (0, 0) []"
  by (simp add: reads_def view_def)

lemma reads_here [mem_simps]: "length s = n \<Longrightarrow> reads (pre @ s @ post) (length pre, n) s"
  by (simp add: reads_def view_def)

lemma reads_tags_append:
  "list_all2 (reads_tag m) vs ts \<Longrightarrow> list_all2 (reads_tag (m @ x)) vs ts"
  by (erule list_all2_mono) (rule reads_tag_append)

section \<open>The pointer loops on a null-terminated string\<close>

lemma scan_app [mem_simps]:
  "list_all P xs \<Longrightarrow> \<not> P c \<Longrightarrow> scan P (pre @ xs @ c # post) (length pre) = Some (length pre + length xs)"
proof (induction xs arbitrary: pre)
  case Nil
  then show ?case by (subst scan.simps) simp
next
  case (Cons x xs)
  then show ?case
    using Cons.IH [of "pre @ [x]"] by (subst scan.simps) simp
qed

lemma strlen_view_app [mem_simps]:
  "NUL \<notin> set s \<Longrightarrow> strlen_view (pre @ s @ NUL # post) (length pre) = Some (length pre, length s)"
proof -
  assume "NUL \<notin> set s"
  then have "list_all (\<lambda>c. c \<noteq> NUL) s" by (auto simp: list_all_iff)
  then show ?thesis by (simp add: strlen_view_def scan_app)
qed

lemma strsep_app:
  assumes "NUL \<notin> set s" "d \<noteq> NUL" "split_at d s = (t, rest)"
  shows "strsep (pre @ s @ NUL # post) (Some (length pre)) d =
    (case rest of
       None \<Rightarrow> Some (Some (length pre), None, pre @ s @ NUL # post)
     | Some r \<Rightarrow> Some (Some (length pre), Some (length pre + Suc (length t)), pre @ t @ NUL # r @ NUL # post))"
proof (cases rest)
  case None
  with assms(3) have "d \<notin> set s" by (auto dest: split_at_None)
  with assms(1) have "list_all (\<lambda>c. c \<noteq> NUL \<and> c \<noteq> d) s" by (auto simp: list_all_iff)
  then have "scan (\<lambda>c. c \<noteq> NUL \<and> c \<noteq> d) (pre @ s @ NUL # post) (length pre) = Some (length (pre @ s))"
    by (simp add: scan_app)
  moreover have "rd (pre @ s @ NUL # post) (length (pre @ s)) = Some NUL"
    using rd_append_here [of "pre @ s" NUL post] by simp
  ultimately show ?thesis by (simp add: None)
next
  case (Some r)
  with assms(3) have s: "s = t @ d # r" "d \<notin> set t" using split_at_Some by auto
  then have "list_all (\<lambda>c. c \<noteq> NUL \<and> c \<noteq> d) t"
    using assms(1) by (auto simp: list_all_iff)
  then have "scan (\<lambda>c. c \<noteq> NUL \<and> c \<noteq> d) (pre @ s @ NUL # post) (length pre) = Some (length (pre @ t))"
    by (simp add: s scan_app)
  moreover have "rd (pre @ s @ NUL # post) (length (pre @ t)) = Some d"
    "wr (pre @ s @ NUL # post) (length (pre @ t)) NUL = Some (pre @ t @ NUL # r @ NUL # post)"
    using rd_append_here [of "pre @ t" d "r @ NUL # post"]
      wr_append_here [of "pre @ t" d "r @ NUL # post" NUL] by (simp_all add: s)
  ultimately show ?thesis using assms(2) by (simp add: Some)
qed


declare strsep.simps [simp del]

lemma unescape_loop_app:
  "NUL \<notin> set s \<Longrightarrow> \<exists>gap'. unescape_loop (pre @ gap @ s @ NUL # post) (length pre + length gap) (length pre)
     = Some (length pre + length (unescape s), pre @ unescape s @ gap' @ NUL # post)
     \<and> length (unescape s) + length gap' = length gap + length s"
proof (induction s arbitrary: pre gap rule: unescape.induct)
  case 1
  have "rd ((pre @ gap) @ NUL # post) (length (pre @ gap)) = Some NUL" by (rule rd_append_here)
  then show ?case by (subst unescape_loop.simps) auto
next
  case (2 c)
  obtain h t where ht: "gap @ [c] = h # t" "length gap = length t" by (cases gap) auto
  have r: "rd (pre @ gap @ [c] @ NUL # post) (length pre + length gap) = Some c"
    using rd_append_here [of "pre @ gap" c "NUL # post"] by simp
  have r2: "rd (pre @ gap @ [c] @ NUL # post) (Suc (length pre + length gap)) = Some NUL"
    using rd_append_here [of "pre @ gap @ [c]" NUL post] by simp
  show ?case
  proof (cases "c = BS")
    case True
    with r r2 show ?thesis by (subst unescape_loop.simps) (auto intro: exI [of _ "gap @ [BS]"])
  next
    case False
    have "wr (pre @ gap @ [c] @ NUL # post) (length pre) c = Some (pre @ c # t @ NUL # post)"
      using wr_append_here [of pre h "t @ NUL # post" c] ht(1)
      by (metis append.assoc append_Cons)
    moreover have "rd (pre @ c # t @ NUL # post) (Suc (length pre + length gap)) = Some NUL"
      using rd_append_here [of "pre @ c # t" NUL post] ht(2) by simp
    ultimately show ?thesis using False r 2 ht(2)
      by (subst unescape_loop.simps, simp) (subst unescape_loop.simps, auto intro: exI [of _ t])
  qed
next
  case (3 c d r)
  have rc: "rd (pre @ gap @ (c # d # r) @ NUL # post) (length pre + length gap) = Some c"
    using rd_append_here [of "pre @ gap" c "d # r @ NUL # post"] by simp
  have rd: "rd (pre @ gap @ (c # d # r) @ NUL # post) (Suc (length pre + length gap)) = Some d"
    using rd_append_here [of "pre @ gap @ [c]" d "r @ NUL # post"] by simp
  show ?case
  proof (cases "c = BS")
    case True
    obtain h t where ht: "gap @ [c, d] = h # t" "Suc (length gap) = length t" by (cases gap) auto
    have "wr (pre @ gap @ (c # d # r) @ NUL # post) (length pre) (unescape_char d)
        = Some (pre @ unescape_char d # t @ r @ NUL # post)"
      using wr_append_here [of pre h "t @ r @ NUL # post" "unescape_char d"] ht(1)
      by (metis append.assoc append_Cons append_Nil)
    moreover obtain gap' where "unescape_loop ((pre @ [unescape_char d]) @ t @ r @ NUL # post)
        (length (pre @ [unescape_char d]) + length t) (length (pre @ [unescape_char d]))
      = Some (length (pre @ [unescape_char d]) + length (unescape r),
          (pre @ [unescape_char d]) @ unescape r @ gap' @ NUL # post)"
      "length (unescape r) + length gap' = length t + length r"
      using "3.IH"(1) [OF True, of "pre @ [unescape_char d]" t] 3(3) by auto
    moreover have idx: "Suc (Suc (length pre + length gap)) = length (pre @ [unescape_char d]) + length t"
      using ht(2) by simp
    ultimately show ?thesis using True rc rd 3(3) ht(2)
      by (subst unescape_loop.simps, simp only: idx option.sel bind.bind_lunit if_True HOL.simp_thms)
        (auto intro!: exI [of _ gap'] simp del: rd_append_here)
  next
    case False
    obtain h t where ht: "gap @ [c] = h # t" "length gap = length t" by (cases gap) auto
    have "wr (pre @ gap @ (c # d # r) @ NUL # post) (length pre) c
        = Some (pre @ c # t @ (d # r) @ NUL # post)"
      using wr_append_here [of pre h "t @ d # r @ NUL # post" c] ht(1)
      by (metis append.assoc append_Cons append_Nil)
    moreover obtain gap' where "unescape_loop ((pre @ [c]) @ t @ (d # r) @ NUL # post)
        (length (pre @ [c]) + length t) (length (pre @ [c]))
      = Some (length (pre @ [c]) + length (unescape (d # r)),
          (pre @ [c]) @ unescape (d # r) @ gap' @ NUL # post)"
      "length (unescape (d # r)) + length gap' = length t + length (d # r)"
      using "3.IH"(2) [OF False, of "pre @ [c]" t] 3(3) by auto
    ultimately show ?thesis using False rc 3(3) ht(2)
      by (subst unescape_loop.simps) (auto intro!: exI [of _ gap'] simp del: rd_append_here)
  qed
qed

lemma unescape_plain: "BS \<notin> set a \<Longrightarrow> unescape (a @ b) = a @ unescape b"
proof (induction a)
  case (Cons c a)
  then show ?case by (cases "a @ b") auto
qed simp

lemma unescape_tag_value_app:
  assumes "NUL \<notin> set s"
  shows "\<exists>gap. unescape_tag_value (pre @ s @ NUL # post) (length pre)
     = Some ((length pre, length (unescape s)), pre @ unescape s @ gap @ NUL # post)
     \<and> length (unescape s) + length gap = length s"
proof (cases "BS \<in> set s")
  case False
  then have "unescape s = s" using unescape_plain [of s "[]"] by simp
  moreover have "list_all (\<lambda>c. c \<noteq> NUL \<and> c \<noteq> BS) s"
    using assms False by (auto simp: list_all_iff)
  then have "scan (\<lambda>c. c \<noteq> NUL \<and> c \<noteq> BS) (pre @ s @ NUL # post) (length pre) = Some (length pre + length s)"
    by (simp add: scan_app)
  moreover have "rd (pre @ s @ NUL # post) (length pre + length s) = Some NUL"
    using rd_append_here [of "pre @ s" NUL post] by simp
  ultimately show ?thesis
    using strlen_view_app [OF assms, of pre post]
    by (auto simp: unescape_tag_value_def intro: exI [of _ "[]"])
next
  case True
  then obtain a r where s: "s = a @ BS # r" and a: "BS \<notin> set a" by (metis split_list_first)
  have "list_all (\<lambda>c. c \<noteq> NUL \<and> c \<noteq> BS) a"
    using assms a by (auto simp: s list_all_iff)
  then have scan: "scan (\<lambda>c. c \<noteq> NUL \<and> c \<noteq> BS) (pre @ a @ BS # r @ NUL # post) (length pre)
      = Some (length pre + length a)"
    by (simp add: scan_app)
  have rd: "rd (pre @ a @ BS # r @ NUL # post) (length pre + length a) = Some BS"
    using rd_append_here [of "pre @ a" BS "r @ NUL # post"] by simp
  have "NUL \<notin> set (BS # r)" using assms by (simp add: s)
  then obtain gap where "unescape_loop ((pre @ a) @ [] @ (BS # r) @ NUL # post)
      (length (pre @ a) + length ([] :: string)) (length (pre @ a))
    = Some (length (pre @ a) + length (unescape (BS # r)),
        (pre @ a) @ unescape (BS # r) @ gap @ NUL # post)"
    "length (unescape (BS # r)) + length gap = length ([] :: string) + length (BS # r)"
    using unescape_loop_app [of "BS # r" "pre @ a" "[]" post] by blast
  then show ?thesis
    using scan rd by (auto simp: unescape_tag_value_def s unescape_plain [OF a] intro!: exI [of _ gap])
qed

text \<open>
  One round of the tag loop: the token becomes \<open>d\<close>, of the same length, the views it
  yields lie inside the part of the buffer the loop is done with.
\<close>

lemma parse_one_tag_app:
  assumes "NUL \<notin> set s" "split_at (CHR '';'') s = (t, rest)"
  shows "\<exists>r d. parse_one_tag (pre @ s @ NUL # post) (length pre) =
      Some (r, (case rest of None \<Rightarrow> None | Some _ \<Rightarrow> Some (length pre + Suc (length t))),
        pre @ d @ (case rest of None \<Rightarrow> NUL # post | Some u \<Rightarrow> NUL # u @ NUL # post)) \<and>
    length d = length t \<and>
    (case spec_tag t of Inl e \<Rightarrow> r = Inl e | Inr tag \<Rightarrow> (\<exists>v. r = Inr v \<and> reads_tag (pre @ d) v tag))"
proof -
  define post' where "post' = (case rest of None \<Rightarrow> post | Some u \<Rightarrow> u @ NUL # post)"
  let ?str = "case rest of None \<Rightarrow> None | Some _ \<Rightarrow> Some (length pre + Suc (length t))"
  let ?m = "pre @ t @ NUL # post'"
  have t: "NUL \<notin> set t" using assms by (auto simp: split_at_def dest: set_takeWhileP)
  have s1: "strsep (pre @ s @ NUL # post) (Some (length pre)) (CHR '';'') = Some (Some (length pre), ?str, ?m)"
    using strsep_app [OF assms(1) _ assms(2), of pre post] assms(2) split_at_None [of _ s t]
    by (auto simp: post'_def split: option.splits)
  obtain k v where kv: "split_at (CHR ''='') t = (k, v)" by fastforce
  have k: "NUL \<notin> set k" using t kv by (auto simp: split_at_def dest: set_takeWhileP)
  have post: "(case rest of None \<Rightarrow> NUL # post | Some u \<Rightarrow> NUL # u @ NUL # post) = NUL # post'"
    by (simp add: post'_def split: option.splits)
  show ?thesis
  proof (cases v)
    case None
    with kv have kt: "k = t" by (auto dest: split_at_None)
    have s2: "strsep ?m (Some (length pre)) (CHR ''='') = Some (Some (length pre), None, ?m)"
      using strsep_app [OF t _ kv] None by simp
    show ?thesis
    proof (cases "t = []")
      case True
      with s1 s2 None kv kt show ?thesis
        by (simp add: parse_one_tag_def spec_tag_def post exI [of _ "[]"])
    next
      case False
      then obtain c cs where c: "t = c # cs" by (cases t) auto
      with t have "rd ?m (length pre) = Some c" "c \<noteq> NUL" by auto
      moreover have "strlen_view ?m (length pre) = Some (length pre, length t)"
        by (rule strlen_view_app [OF t])
      ultimately have "parse_one_tag (pre @ s @ NUL # post) (length pre)
          = Some (Inr \<lparr>tag_key = (length pre, length t), tag_val = (0, 0)\<rparr>, ?str, ?m)"
        using s1 s2 by (simp add: parse_one_tag_def)
      moreover have "reads_tag (pre @ t) \<lparr>tag_key = (length pre, length t), tag_val = (0, 0)\<rparr>
          \<lparr>tag_key = t, tag_val = []\<rparr>"
        using reads_here [of t _ pre "[]"] by (simp add: reads_tag_def reads_empty)
      ultimately show ?thesis using False kt kv None
        by (auto simp: spec_tag_def post intro!: exI [of _ t])
    qed
  next
    case (Some u)
    with kv have tu: "t = k @ CHR ''='' # u" by (auto dest: split_at_Some)
    let ?m2 = "pre @ k @ NUL # u @ NUL # post'"
    have s2: "strsep ?m (Some (length pre)) (CHR ''='') = Some (Some (length pre), Some (length pre + Suc (length k)), ?m2)"
      using strsep_app [OF t _ kv] Some by simp
    show ?thesis
    proof (cases "k = []")
      case True
      with s1 s2 Some kv tu show ?thesis
        by (auto simp: parse_one_tag_def spec_tag_def post intro!: exI [of _ "NUL # u"])
    next
      case False
      then obtain c cs where c: "k = c # cs" by (cases k) auto
      with k have rd: "rd ?m2 (length pre) = Some c" "c \<noteq> NUL" by auto
      have sl: "strlen_view ?m2 (length pre) = Some (length pre, length k)"
        by (rule strlen_view_app [OF k])
      have u: "NUL \<notin> set u" using t tu by simp
      obtain gap where gap: "unescape_tag_value ((pre @ k @ [NUL]) @ u @ NUL # post') (length (pre @ k @ [NUL]))
          = Some ((length (pre @ k @ [NUL]), length (unescape u)),
             (pre @ k @ [NUL]) @ unescape u @ gap @ NUL # post')"
        "length (unescape u) + length gap = length u"
        using unescape_tag_value_app [OF u] by blast
      let ?v = "\<lparr>tag_key = (length pre, length k), tag_val = (length (pre @ k @ [NUL]), length (unescape u))\<rparr>"
      let ?d = "k @ NUL # unescape u @ gap"
      have "parse_one_tag (pre @ s @ NUL # post) (length pre) = Some (Inr ?v, ?str, pre @ ?d @ NUL # post')"
        using s1 s2 rd sl gap(1) by (simp add: parse_one_tag_def)
      moreover have "reads_tag (pre @ ?d) ?v \<lparr>tag_key = k, tag_val = unescape u\<rparr>"
        using reads_here [of k _ pre "NUL # unescape u @ gap"]
          reads_here [of "unescape u" _ "pre @ k @ [NUL]" gap] by (simp add: reads_tag_def)
      moreover have "length ?d = length t" using gap(2) by (simp add: tu)
      ultimately show ?thesis using False kv Some
        by (auto simp: spec_tag_def post intro!: exI [of _ ?d])
    qed
  qed
qed

lemma parse_irc_tags_app:
  "NUL \<notin> set s \<Longrightarrow> \<exists>r s'. parse_irc_tags (pre @ s @ NUL # post) (length pre) vs = Some (r, pre @ s' @ NUL # post) \<and>
     length s' = length s \<and>
     (case spec_tags s of
        Inl e \<Rightarrow> r = Inl e
      | Inr us \<Rightarrow> (\<exists>ws. r = Inr (vs @ ws) \<and> list_all2 (reads_tag (pre @ s')) ws us))"
proof (induction "length s" arbitrary: s pre vs rule: less_induct)
  case less
  obtain t rest where sp: "split_at (CHR '';'') s = (t, rest)" by fastforce
  from parse_one_tag_app [OF less.prems sp, of pre post] obtain r d where
    one: "parse_one_tag (pre @ s @ NUL # post) (length pre) =
      Some (r, (case rest of None \<Rightarrow> None | Some _ \<Rightarrow> Some (length pre + Suc (length t))),
        pre @ d @ (case rest of None \<Rightarrow> NUL # post | Some u \<Rightarrow> NUL # u @ NUL # post))" and
    d: "length d = length t" and
    r: "case spec_tag t of Inl e \<Rightarrow> r = Inl e | Inr tag \<Rightarrow> (\<exists>v. r = Inr v \<and> reads_tag (pre @ d) v tag)"
    by blast
  show ?case
  proof (cases rest)
    case None
    with sp have "t = s" by (auto dest: split_at_None)
    with one d r sp None show ?thesis
      by (subst parse_irc_tags.simps, subst spec_tags.simps)
        (auto split: sum.splits intro!: exI [of _ d])
  next
    case (Some u)
    with sp have s: "s = t @ CHR '';'' # u" by (auto dest: split_at_Some)
    show ?thesis
    proof (cases "spec_tag t")
      case (Inl e)
      with one d r sp Some show ?thesis
        by (subst parse_irc_tags.simps, subst spec_tags.simps)
          (auto simp: s intro!: exI [of _ "d @ NUL # u"])
    next
      case (Inr tag)
      with r obtain v where v: "r = Inr v" "reads_tag (pre @ d) v tag" by auto
      have "length u < length s" "NUL \<notin> set u" using less.prems by (auto simp: s)
      from less.hyps [OF this, of "pre @ d @ [NUL]" "vs @ [v]"] obtain r' u' where
        ih: "parse_irc_tags ((pre @ d @ [NUL]) @ u @ NUL # post) (length (pre @ d @ [NUL])) (vs @ [v])
            = Some (r', (pre @ d @ [NUL]) @ u' @ NUL # post)"
          "length u' = length u"
          "case spec_tags u of Inl e \<Rightarrow> r' = Inl e
           | Inr us \<Rightarrow> (\<exists>ws. r' = Inr ((vs @ [v]) @ ws) \<and> list_all2 (reads_tag ((pre @ d @ [NUL]) @ u')) ws us)"
        by blast
      have v': "reads_tag (pre @ d @ NUL # u') v tag"
        using reads_tag_append [OF v(2), of "NUL # u'"] by simp
      have "parse_irc_tags (pre @ s @ NUL # post) (length pre) vs
          = Some (r', pre @ (d @ NUL # u') @ NUL # post)"
        using one v(1) d Some ih(1) by (subst parse_irc_tags.simps) simp
      moreover have "length (d @ NUL # u') = length s" using d ih(2) by (simp add: s)
      moreover have "case spec_tags s of Inl e \<Rightarrow> r' = Inl e
          | Inr us \<Rightarrow> (\<exists>ws. r' = Inr (vs @ ws) \<and> list_all2 (reads_tag (pre @ d @ NUL # u')) ws us)"
        using ih(3) v' Inr sp Some by (subst spec_tags.simps) (auto split: sum.splits)
      ultimately show ?thesis by blast
    qed
  qed
qed

section \<open>Words and arguments\<close>

lemma trim_app:
  assumes "NUL \<notin> set s"
  shows "trim \<lparr>pmem = pre @ s @ NUL # post, p_msg = length pre\<rparr> =
    Some \<lparr>pmem = pre @ s @ NUL # post, p_msg = length pre + (length s - length (spec_trim s))\<rparr>"
proof -
  define a b where "a = takeWhile (\<lambda>c. c = SP) s" and "b = spec_trim s"
  have s: "s = a @ b" by (simp add: a_def b_def spec_trim_def)
  have a: "list_all (\<lambda>c. c = SP) a" by (auto simp: a_def list_all_iff dest: set_takeWhileP)
  have "length s = length a + length b" by (subst s) simp
  then have len: "length s - length (spec_trim s) = length a" by (simp add: b_def)
  have "scan (\<lambda>c. c = SP) (pre @ s @ NUL # post) (length pre) = Some (length pre + length a)"
  proof (cases b)
    case Nil
    with a show ?thesis by (simp add: s scan_app)
  next
    case (Cons c cs)
    then have "dropWhile (\<lambda>c. c = SP) s = c # cs" by (simp add: b_def spec_trim_def)
    then have "c \<noteq> SP" by (simp add: dropWhile_eq_Cons_conv)
    with a Cons show ?thesis by (simp add: s scan_app)
  qed
  with len show ?thesis by (simp add: trim_def)
qed

lemma spec_trim_split: "\<exists>a. s = a @ spec_trim s"
  by (metis spec_trim_def takeWhile_dropWhile_id)

text \<open>
  A word ends up null-terminated in place, and the rest of the message is where the
  cursor points; the byte counts make the view arithmetic of the callers linear.
\<close>

lemma word_app:
  assumes "NUL \<notin> set s" "spec_word s = (w, r)"
  shows "\<exists>gap. word \<lparr>pmem = pre @ s @ NUL # post, p_msg = length pre\<rparr> =
      Some (length pre, \<lparr>pmem = pre @ w @ gap @ r @ NUL # post, p_msg = length (pre @ w @ gap)\<rparr>) \<and>
    length (w @ gap @ r) = length s \<and> NUL \<notin> set w \<and> NUL \<notin> set r \<and>
    (gap = [] \<longrightarrow> r = []) \<and> (gap \<noteq> [] \<longrightarrow> hd gap = NUL)"
proof -
  have w: "w = takeWhile (\<lambda>c. c \<noteq> SP) s" using assms(2) by (simp add: spec_word_def)
  have wa: "list_all (\<lambda>c. c \<noteq> NUL \<and> c \<noteq> SP) w"
    using assms(1) by (auto simp: w list_all_iff dest: set_takeWhileP)
  have nw: "NUL \<notin> set w" using wa by (auto simp: list_all_iff)
  show ?thesis
  proof (cases "dropWhile (\<lambda>c. c \<noteq> SP) s")
    case Nil
    then have s: "s = w" by (simp add: w dropWhile_Nil_takeWhile)
    have r: "r = []" using assms(2) Nil by (simp add: spec_word_def spec_trim_def)
    have "rd (pre @ s @ NUL # post) (length pre + length w) = Some NUL"
      using rd_append_here [of "pre @ w" NUL post] by (simp add: s)
    with wa nw show ?thesis
      by (simp add: word_def Let_def s scan_app r exI [of _ "[]"])
  next
    case (Cons c b)
    then have s: "s = w @ SP # b" and r: "r = spec_trim b"
      using takeWhile_dropWhile_split [OF Cons] assms(2)
      by (auto simp: w spec_word_def spec_trim_def)
    obtain a where b: "b = a @ r" using spec_trim_split [of b] r by auto
    have nb: "NUL \<notin> set b" "NUL \<notin> set r" using assms(1) by (auto simp: s b)
    have "rd (pre @ s @ NUL # post) (length pre + length w) = Some SP"
      "wr (pre @ s @ NUL # post) (length pre + length w) NUL = Some (pre @ w @ NUL # b @ NUL # post)"
      using rd_append_here [of "pre @ w" SP "b @ NUL # post"]
        wr_append_here [of "pre @ w" SP "b @ NUL # post" NUL] by (simp_all add: s)
    moreover have len: "length b - length (spec_trim b) = length a"
    proof -
      have "length b = length a + length r" by (subst b) simp
      then show ?thesis by (simp add: r)
    qed
    have "trim \<lparr>pmem = (pre @ w @ [NUL]) @ b @ NUL # post, p_msg = length (pre @ w @ [NUL])\<rparr> =
        Some \<lparr>pmem = (pre @ w @ [NUL]) @ b @ NUL # post, p_msg = length (pre @ w @ [NUL]) + length a\<rparr>"
      using trim_app [OF nb(1), of "pre @ w @ [NUL]" post] unfolding len .
    ultimately show ?thesis using wa nw nb
      by (auto simp: word_def Let_def s scan_app b intro!: exI [of _ "NUL # a"])
  qed
qed

lemma word_view_app:
  assumes "NUL \<notin> set s" "spec_word s = (w, r)"
  shows "\<exists>gap. word \<lparr>pmem = pre @ s @ NUL # post, p_msg = length pre\<rparr> =
      Some (length pre, \<lparr>pmem = (pre @ w @ gap) @ r @ NUL # post, p_msg = length (pre @ w @ gap)\<rparr>) \<and>
    strlen_view ((pre @ w @ gap) @ r @ NUL # post) (length pre) = Some (length pre, length w) \<and>
    length (w @ gap @ r) = length s \<and> NUL \<notin> set w \<and> NUL \<notin> set r \<and> 
    (gap = [] \<longrightarrow> r = []) \<and> (gap \<noteq> [] \<longrightarrow> hd gap = NUL)"
proof -
  from word_app [OF assms, of pre post] obtain gap where
    word: "word \<lparr>pmem = pre @ s @ NUL # post, p_msg = length pre\<rparr> =
      Some (length pre, \<lparr>pmem = pre @ w @ gap @ r @ NUL # post, p_msg = length (pre @ w @ gap)\<rparr>)" and
    len: "length (w @ gap @ r) = length s" and n: "NUL \<notin> set w" "NUL \<notin> set r" and
    gap: "gap = [] \<longrightarrow> r = []" "gap \<noteq> [] \<longrightarrow> hd gap = NUL"
    by blast
  have "strlen_view (pre @ w @ gap @ r @ NUL # post) (length pre) = Some (length pre, length w)"
  proof (cases gap)
    case Nil
    with gap strlen_view_app [OF n(1), of pre post] show ?thesis by simp
  next
    case (Cons g gs)
    with gap strlen_view_app [OF n(1), of pre "gs @ r @ NUL # post"] show ?thesis by simp
  qed
  with word len n gap show ?thesis by auto
qed

lemma parse_args_app:
  "NUL \<notin> set s \<Longrightarrow> \<exists>ws p s'. parse_args \<lparr>pmem = pre @ s @ NUL # post, p_msg = length pre\<rparr> vs = Some (vs @ ws, p) \<and>
     pmem p = pre @ s' @ NUL # post \<and> length s' = length s \<and>
     list_all2 (reads (pre @ s')) ws (spec_args s)"
proof (induction s arbitrary: pre vs rule: spec_args.induct)
  case 1
  then show ?case
    by (subst parse_args.simps) (simp add: isempty_def spec_args.simps exI [of _ "[]"])
next
  case (2 c s)
  let ?p = "\<lparr>pmem = pre @ (c # s) @ NUL # post, p_msg = length pre\<rparr>"
  have e: "isempty ?p = Some False" using 2(2) by (auto simp: isempty_def)
  show ?case
  proof (cases "c = CHR '':''")
    case True
    have m: "match (CHR '':'') ?p = Some (True, ?p\<lparr>p_msg := Suc (length pre)\<rparr>)"
      by (simp add: match_def True)
    have v: "strlen_view (pre @ (c # s) @ NUL # post) (Suc (length pre)) = Some (Suc (length pre), length s)"
      using strlen_view_app [of s "pre @ [c]" post] 2(2) by simp
    have "parse_args ?p vs = Some (vs @ [(Suc (length pre), length s)], ?p\<lparr>p_msg := Suc (length pre)\<rparr>)"
      using e m v by (subst parse_args.simps) (simp add: peek_def)
    moreover have "reads (pre @ c # s) (Suc (length pre), length s) s"
      using reads_here [of s _ "pre @ [c]" "[]"] by simp
    ultimately show ?thesis using True
      by (auto simp: spec_args.simps intro!: exI [of _ "c # s"])
  next
    case False
    have m: "match (CHR '':'') ?p = Some (False, ?p)"
      using False by (simp add: match_def)
    obtain w r where wr: "spec_word (c # s) = (w, r)" by fastforce
    from word_view_app [OF 2(2) wr, of pre post] obtain gap where
      word: "word ?p = Some (length pre, \<lparr>pmem = (pre @ w @ gap) @ r @ NUL # post, p_msg = length (pre @ w @ gap)\<rparr>)" and
      v: "strlen_view ((pre @ w @ gap) @ r @ NUL # post) (length pre) = Some (length pre, length w)" and
      len: "length (w @ gap @ r) = length (c # s)" and n: "NUL \<notin> set r"
      by blast
    from "2.IH" [OF False wr [symmetric] n, of "pre @ w @ gap" "vs @ [(length pre, length w)]"]
    obtain ws p r' where
      ih: "parse_args \<lparr>pmem = (pre @ w @ gap) @ r @ NUL # post, p_msg = length (pre @ w @ gap)\<rparr>
            (vs @ [(length pre, length w)]) = Some ((vs @ [(length pre, length w)]) @ ws, p)"
        "pmem p = (pre @ w @ gap) @ r' @ NUL # post" "length r' = length r"
        "list_all2 (reads ((pre @ w @ gap) @ r')) ws (spec_args r)"
      by blast
    have "parse_args ?p vs = Some (vs @ (length pre, length w) # ws, p)"
      using e m word v ih(1) by (subst parse_args.simps) simp
    moreover have "reads (pre @ w @ gap @ r') (length pre, length w) w"
      by (rule reads_here) simp
    then have "list_all2 (reads (pre @ w @ gap @ r')) ((length pre, length w) # ws) (spec_args (c # s))"
      using ih(4) False wr by (simp add: spec_args.simps)
    ultimately show ?thesis using ih(2,3) len
      by (auto intro!: exI [of _ "w @ gap @ r'"])
  qed
qed


definition reads_msg :: "cmem \<Rightarrow> sview ircmsg \<Rightarrow> string ircmsg \<Rightarrow> bool" where
  "reads_msg m v t \<longleftrightarrow>
     list_all2 (reads_tag m) (msg_tags v) (msg_tags t) \<and> reads m (msg_source v) (msg_source t) \<and>
     reads m (msg_command v) (msg_command t) \<and> list_all2 (reads m) (msg_args v) (msg_args t)"


lemma list_all2_reads_append: "list_all2 (reads m) vs ts \<Longrightarrow> list_all2 (reads (m @ x)) vs ts"
  by (erule list_all2_mono) (rule reads_append)

lemma command_app:
  assumes "NUL \<notin> set s" "spec_word s = (cmd, r)"
  shows "\<exists>p s0 ws q s'. word \<lparr>pmem = pre @ s @ NUL # post, p_msg = length pre\<rparr> = Some (length pre, p) \<and>
     strlen_view (pmem p) (length pre) = Some (length pre, length cmd) \<and>
     pmem p = pre @ s0 @ NUL # post \<and> length s0 = length s \<and>
     parse_args p [] = Some (ws, q) \<and> pmem q = pre @ s' @ NUL # post \<and> length s' = length s \<and>
     reads (pre @ s') (length pre, length cmd) cmd \<and> list_all2 (reads (pre @ s')) ws (spec_args r)"
proof -
  from word_view_app [OF assms, of pre post] obtain gap where
    word: "word \<lparr>pmem = pre @ s @ NUL # post, p_msg = length pre\<rparr> =
      Some (length pre, \<lparr>pmem = (pre @ cmd @ gap) @ r @ NUL # post, p_msg = length (pre @ cmd @ gap)\<rparr>)" and
    v: "strlen_view ((pre @ cmd @ gap) @ r @ NUL # post) (length pre) = Some (length pre, length cmd)" and
    len: "length (cmd @ gap @ r) = length s" and n: "NUL \<notin> set r"
    by blast
  from parse_args_app [OF n, of "pre @ cmd @ gap" post "[]"] obtain ws q r' where
    args: "parse_args \<lparr>pmem = (pre @ cmd @ gap) @ r @ NUL # post, p_msg = length (pre @ cmd @ gap)\<rparr> []
        = Some (ws, q)" "pmem q = (pre @ cmd @ gap) @ r' @ NUL # post" "length r' = length r"
      "list_all2 (reads ((pre @ cmd @ gap) @ r')) ws (spec_args r)"
    by auto
  have "reads (pre @ cmd @ gap @ r') (length pre, length cmd) cmd" by (rule reads_here) simp
  with word v len args show ?thesis
    by (intro exI [of _ "\<lparr>pmem = (pre @ cmd @ gap) @ r @ NUL # post, p_msg = length (pre @ cmd @ gap)\<rparr>"]
        exI [of _ "cmd @ gap @ r"] exI [of _ ws] exI [of _ q] exI [of _ "cmd @ gap @ r'"]) simp
qed

lemma parse_body_app:
  assumes "NUL \<notin> set s" "list_all2 (reads_tag pre) vs tags"
  shows "\<exists>r s'. parse_body vs \<lparr>pmem = pre @ s @ NUL # post, p_msg = length pre\<rparr> = Some (r, pre @ s' @ NUL # post) \<and>
     length s' = length s \<and>
     (case spec_body tags s of Inl e \<Rightarrow> r = Inl e | Inr msg \<Rightarrow> (\<exists>v. r = Inr v \<and> reads_msg (pre @ s') v msg))"
proof (cases "\<exists>u. s = CHR '':'' # u")
  case True
  then obtain u where s: "s = CHR '':'' # u" by blast
  obtain src t where st: "spec_word u = (src, t)" by fastforce
  obtain cmd r where cr: "spec_word t = (cmd, r)" by fastforce
  let ?p = "pre @ [CHR '':'']"
  have u: "NUL \<notin> set u" using assms(1) s by simp
  from word_view_app [OF u st, of ?p post] obtain gap where
    word: "word \<lparr>pmem = ?p @ u @ NUL # post, p_msg = length ?p\<rparr> =
      Some (length ?p, \<lparr>pmem = (?p @ src @ gap) @ t @ NUL # post, p_msg = length (?p @ src @ gap)\<rparr>)" and
    v: "strlen_view ((?p @ src @ gap) @ t @ NUL # post) (length ?p) = Some (length ?p, length src)" and
    len: "length (src @ gap @ t) = length u" and n: "NUL \<notin> set t"
    by blast
  from command_app [OF n cr, of "?p @ src @ gap" post] obtain p t0 ws q t' where
    c: "word \<lparr>pmem = (?p @ src @ gap) @ t @ NUL # post, p_msg = length (?p @ src @ gap)\<rparr>
        = Some (length (?p @ src @ gap), p)"
      "strlen_view (pmem p) (length (?p @ src @ gap)) = Some (length (?p @ src @ gap), length cmd)"
      "pmem p = (?p @ src @ gap) @ t0 @ NUL # post" "length t0 = length t"
      "parse_args p [] = Some (ws, q)" "pmem q = (?p @ src @ gap) @ t' @ NUL # post" "length t' = length t"
      "reads ((?p @ src @ gap) @ t') (length (?p @ src @ gap), length cmd) cmd"
      "list_all2 (reads ((?p @ src @ gap) @ t')) ws (spec_args r)"
    by blast
  have m: "match (CHR '':'') \<lparr>pmem = pre @ s @ NUL # post, p_msg = length pre\<rparr> =
      Some (True, \<lparr>pmem = ?p @ u @ NUL # post, p_msg = length ?p\<rparr>)"
    by (simp add: match_def s)
  show ?thesis
  proof (cases "cmd = []")
    case True
    then have "parse_body vs \<lparr>pmem = pre @ s @ NUL # post, p_msg = length pre\<rparr>
        = Some (Inl MISSING_COMMAND, pre @ (CHR '':'' # src @ gap @ t0) @ NUL # post)"
      using word v m c(1-3) by (simp add: parse_body_def)
    moreover have "spec_body tags s = Inl MISSING_COMMAND"
      using True st cr by (simp add: spec_body_def s)
    ultimately show ?thesis using len c(4)
      by (intro exI [of _ "Inl MISSING_COMMAND"] exI [of _ "CHR '':'' # src @ gap @ t0"]) (simp add: s)
  next
    case False
    let ?v = "\<lparr>msg_tags = vs, msg_source = (length ?p, length src),
      msg_command = (length (?p @ src @ gap), length cmd), msg_args = ws\<rparr>"
    let ?s' = "CHR '':'' # src @ gap @ t'"
    have "parse_body vs \<lparr>pmem = pre @ s @ NUL # post, p_msg = length pre\<rparr> = Some (Inr ?v, pre @ ?s' @ NUL # post)"
      using word v m c(1-3,5,6) False by (simp add: parse_body_def)
    moreover have "spec_body tags s =
        Inr \<lparr>msg_tags = tags, msg_source = src, msg_command = cmd, msg_args = spec_args r\<rparr>"
      using False st cr by (simp add: spec_body_def s)
    moreover have "reads (pre @ ?s') (length ?p, length src) src"
      using reads_here [of src _ ?p "gap @ t'"] by simp
    then have "reads_msg (pre @ ?s') ?v
        \<lparr>msg_tags = tags, msg_source = src, msg_command = cmd, msg_args = spec_args r\<rparr>"
      using reads_tags_append [OF assms(2), of ?s'] c(8,9) by (simp add: reads_msg_def)
    ultimately show ?thesis using len c(7)
      by (intro exI [of _ "Inr ?v"] exI [of _ ?s']) (simp add: s)
  qed
next
  case False
  obtain cmd r where cr: "spec_word s = (cmd, r)" by fastforce
  from command_app [OF assms(1) cr, of pre post] obtain p s0 ws q s' where
    c: "word \<lparr>pmem = pre @ s @ NUL # post, p_msg = length pre\<rparr> = Some (length pre, p)"
      "strlen_view (pmem p) (length pre) = Some (length pre, length cmd)"
      "pmem p = pre @ s0 @ NUL # post" "length s0 = length s"
      "parse_args p [] = Some (ws, q)" "pmem q = pre @ s' @ NUL # post" "length s' = length s"
      "reads (pre @ s') (length pre, length cmd) cmd"
      "list_all2 (reads (pre @ s')) ws (spec_args r)"
    by blast
  have m: "match (CHR '':'') \<lparr>pmem = pre @ s @ NUL # post, p_msg = length pre\<rparr> =
      Some (False, \<lparr>pmem = pre @ s @ NUL # post, p_msg = length pre\<rparr>)"
    using False by (cases s) (auto simp: match_def)
  have sb: "spec_body tags s = (if cmd = [] then Inl MISSING_COMMAND
      else Inr \<lparr>msg_tags = tags, msg_source = [], msg_command = cmd, msg_args = spec_args r\<rparr>)"
    using False cr by (cases s) (auto simp: spec_body_def)
  show ?thesis
  proof (cases "cmd = []")
    case True
    then show ?thesis using m c(1-4) sb
      by (intro exI [of _ "Inl MISSING_COMMAND"] exI [of _ s0]) (simp add: parse_body_def)
  next
    case cmd: False
    let ?v = "\<lparr>msg_tags = vs, msg_source = (0, 0), msg_command = (length pre, length cmd), msg_args = ws\<rparr>"
    have "parse_body vs \<lparr>pmem = pre @ s @ NUL # post, p_msg = length pre\<rparr> = Some (Inr ?v, pre @ s' @ NUL # post)"
      using m c(1-3,5,6) cmd by (simp add: parse_body_def)
    moreover have "reads_msg (pre @ s') ?v
        \<lparr>msg_tags = tags, msg_source = [], msg_command = cmd, msg_args = spec_args r\<rparr>"
      using reads_tags_append [OF assms(2), of s'] c(8,9) by (simp add: reads_msg_def reads_empty)
    ultimately show ?thesis using c(7) sb cmd
      by (intro exI [of _ "Inr ?v"] exI [of _ s']) simp
  qed
qed

lemma parse_at_app:
  assumes "NUL \<notin> set u" "spec_word u = (w, t)"
  shows "\<exists>r s'. (case spec_tags w of Inl e \<Rightarrow> Inl e | Inr tags \<Rightarrow> spec_body tags t) = spec \<longrightarrow>
     (do {
        (w, p) \<leftarrow> word \<lparr>pmem = pre @ u @ NUL # post, p_msg = length pre\<rparr>;
        (r, m) \<leftarrow> parse_irc_tags (pmem p) w [];
        (case r of Inl e \<Rightarrow> Some (Inl e, m) | Inr tags \<Rightarrow> parse_body tags (p\<lparr>pmem := m\<rparr>))
      }) = Some (r, pre @ s' @ NUL # post) \<and>
     length s' = length u \<and>
     (case spec of Inl e \<Rightarrow> r = Inl e | Inr msg \<Rightarrow> (\<exists>v. r = Inr v \<and> reads_msg (pre @ s') v msg))"
proof -
  from word_view_app [OF assms, of pre post] obtain gap where
    word: "word \<lparr>pmem = pre @ u @ NUL # post, p_msg = length pre\<rparr> =
      Some (length pre, \<lparr>pmem = (pre @ w @ gap) @ t @ NUL # post, p_msg = length (pre @ w @ gap)\<rparr>)" and
    len: "length (w @ gap @ t) = length u" and n: "NUL \<notin> set w" "NUL \<notin> set t" and
    gap: "gap = [] \<longrightarrow> t = []" "gap \<noteq> [] \<longrightarrow> hd gap = NUL"
    by blast
  obtain post' where post': "gap @ t @ NUL # post = NUL # post'"
    using gap by (cases gap) auto
  from parse_irc_tags_app [OF n(1), of pre post' "[]"] obtain r w' where
    tags: "parse_irc_tags ((pre @ w @ gap) @ t @ NUL # post) (length pre) [] = Some (r, (pre @ w' @ gap) @ t @ NUL # post)"
      "length w' = length w"
      "case spec_tags w of Inl e \<Rightarrow> r = Inl e
       | Inr us \<Rightarrow> (\<exists>ws. r = Inr ws \<and> list_all2 (reads_tag (pre @ w')) ws us)"
    unfolding post' [symmetric] append.assoc append_Nil by blast
  show ?thesis
  proof (cases "spec_tags w")
    case (Inl e)
    with tags have "r = Inl e" by simp
    with word tags(1,2) len Inl show ?thesis
      by (intro exI [of _ "Inl e"] exI [of _ "w' @ gap @ t"]) auto
  next
    case (Inr us)
    with tags(3) obtain ws where ws: "r = Inr ws" "list_all2 (reads_tag (pre @ w')) ws us" by auto
    then have "list_all2 (reads_tag (pre @ w' @ gap)) ws us"
      using reads_tags_append [of "pre @ w'" ws us gap] by simp
    from parse_body_app [OF n(2) this, of post] obtain r' t' where
      body: "parse_body ws \<lparr>pmem = (pre @ w' @ gap) @ t @ NUL # post, p_msg = length (pre @ w' @ gap)\<rparr>
          = Some (r', (pre @ w' @ gap) @ t' @ NUL # post)" "length t' = length t"
        "case spec_body us t of Inl e \<Rightarrow> r' = Inl e
         | Inr msg \<Rightarrow> (\<exists>v. r' = Inr v \<and> reads_msg ((pre @ w' @ gap) @ t') v msg)"
      by blast
    have p: "length (pre @ w @ gap) = length (pre @ w' @ gap)" using tags(2) by simp
    show ?thesis
      using word tags(1) ws(1) body(1,2) body(3) [unfolded append.assoc] Inr len tags(2)
      by (intro exI [of _ r'] exI [of _ "w' @ gap @ t'"]) auto
  qed
qed

lemma parse_irc_message_app:
  assumes "NUL \<notin> set s"
  shows "\<exists>r s'. parse_irc_message (Some (pre @ s @ NUL # post, length pre)) = Some (r, pre @ s' @ NUL # post) \<and>
     length s' = length s \<and>
     (case spec_parse s of Inl e \<Rightarrow> r = Inl e | Inr msg \<Rightarrow> (\<exists>v. r = Inr v \<and> reads_msg (pre @ s') v msg))"
proof -
  obtain a where a: "s = a @ spec_trim s" using spec_trim_split by blast
  define b where "b = spec_trim s"
  have s: "s = a @ b" using a by (simp add: b_def)
  have nb: "NUL \<notin> set b" using assms by (simp add: s)
  have "length s = length a + length b" by (subst s) simp
  then have len: "length s - length (spec_trim s) = length a" by (simp add: b_def)
  have new: "parser_new (Some (pre @ s @ NUL # post, length pre)) =
      Some \<lparr>pmem = (pre @ a) @ b @ NUL # post, p_msg = length (pre @ a)\<rparr>"
    using trim_app [OF assms, of pre post] unfolding len by (simp add: s)
  show ?thesis
  proof (cases "\<exists>u. b = CHR ''@'' # u")
    case True
    then obtain u where u: "b = CHR ''@'' # u" by blast
    obtain w t where wt: "spec_word u = (w, t)" by fastforce
    have nu: "NUL \<notin> set u" using nb u by simp
    have sp: "spec_parse s = (case spec_tags w of Inl e \<Rightarrow> Inl e | Inr tags \<Rightarrow> spec_body tags t)"
      using wt u by (simp add: spec_parse_def b_def [symmetric])
    from parse_at_app [OF nu wt, of "spec_parse s" "pre @ a @ [CHR ''@'']" post] sp obtain r u' where
      r: "(do {
        (w, p) \<leftarrow> word \<lparr>pmem = (pre @ a @ [CHR ''@'']) @ u @ NUL # post, p_msg = length (pre @ a @ [CHR ''@''])\<rparr>;
        (r, m) \<leftarrow> parse_irc_tags (pmem p) w [];
        (case r of Inl e \<Rightarrow> Some (Inl e, m) | Inr tags \<Rightarrow> parse_body tags (p\<lparr>pmem := m\<rparr>))
      }) = Some (r, (pre @ a @ [CHR ''@'']) @ u' @ NUL # post)" "length u' = length u"
      "case spec_parse s of Inl e \<Rightarrow> r = Inl e
       | Inr msg \<Rightarrow> (\<exists>v. r = Inr v \<and> reads_msg ((pre @ a @ [CHR ''@'']) @ u') v msg)"
      by auto
    have m: "match (CHR ''@'') \<lparr>pmem = (pre @ a) @ b @ NUL # post, p_msg = length (pre @ a)\<rparr> =
        Some (True, \<lparr>pmem = (pre @ a @ [CHR ''@'']) @ u @ NUL # post, p_msg = length (pre @ a @ [CHR ''@''])\<rparr>)"
      using rd_append_here [of "pre @ a" "CHR ''@''" "u @ NUL # post"] by (simp add: match_def u)
    have "parse_irc_message (Some (pre @ s @ NUL # post, length pre)) =
        Some (r, (pre @ a @ [CHR ''@'']) @ u' @ NUL # post)"
    proof -
      from r(1) obtain w' p rr m where
        "word \<lparr>pmem = (pre @ a @ [CHR ''@'']) @ u @ NUL # post, p_msg = length (pre @ a @ [CHR ''@''])\<rparr> = Some (w', p)"
        "parse_irc_tags (pmem p) w' [] = Some (rr, m)"
        "(case rr of Inl e \<Rightarrow> Some (Inl e, m) | Inr tags \<Rightarrow> parse_body tags (p\<lparr>pmem := m\<rparr>))
          = Some (r, (pre @ a @ [CHR ''@'']) @ u' @ NUL # post)"
        unfolding bind_pair_Some by blast
      then show ?thesis
        unfolding parse_irc_message_def new m Option.bind.bind_lunit by (cases rr) (auto simp: m)
    qed
    then show ?thesis using r(2) r(3) [unfolded append.assoc append_Cons append_Nil]
      by (intro exI [of _ r] exI [of _ "a @ CHR ''@'' # u'"]) (simp add: s u)
  next
    case False
    have sp: "spec_parse s = spec_body [] b"
      using False by (cases b) (auto simp: spec_parse_def b_def [symmetric])
    obtain c cs where c: "b @ NUL # post = c # cs" "c \<noteq> CHR ''@''" using False by (cases b) auto
    have m: "match (CHR ''@'') \<lparr>pmem = (pre @ a) @ b @ NUL # post, p_msg = length (pre @ a)\<rparr> =
        Some (False, \<lparr>pmem = (pre @ a) @ b @ NUL # post, p_msg = length (pre @ a)\<rparr>)"
      using c rd_append_here [of "pre @ a" c cs] by (simp add: match_def)
    from parse_body_app [OF nb, of "pre @ a" "[]" "[]" post] obtain r b' where
      body: "parse_body [] \<lparr>pmem = (pre @ a) @ b @ NUL # post, p_msg = length (pre @ a)\<rparr>
          = Some (r, (pre @ a) @ b' @ NUL # post)" "length b' = length b"
        "case spec_body [] b of Inl e \<Rightarrow> r = Inl e | Inr msg \<Rightarrow> (\<exists>v. r = Inr v \<and> reads_msg ((pre @ a) @ b') v msg)"
      by auto
    show ?thesis using body(1,2) body(3) [unfolded append.assoc] m new sp
      by (intro exI [of _ r] exI [of _ "a @ b'"]) (simp add: parse_irc_message_def s)
  qed
qed


text \<open>
  C1: the in-place parser is memory safe and correct.  On a null-terminated message inside of a
  larger allocation it never reads or writes out of the message's own bytes (the bytes before and
  after are unchanged and the terminator stays), it ends, and it reports the error or returns the
  views that read, in the final memory, as the tags, source, command and arguments of the message.
\<close>

theorem parse_irc_message_refines:
  assumes "NUL \<notin> set s"
  shows "\<exists>r s'. parse_irc_message (Some (pre @ s @ NUL # post, length pre)) = Some (r, pre @ s' @ NUL # post) \<and>
     length s' = length s \<and>
     (case spec_parse s of Inl e \<Rightarrow> r = Inl e | Inr msg \<Rightarrow> (\<exists>v. r = Inr v \<and> reads_msg (pre @ s') v msg))"
  by (rule parse_irc_message_app [OF assms])

section \<open>Printing and parsing back\<close>

fun escape_char :: "char \<Rightarrow> string" where
  "escape_char c =
     (if c = CHR '';'' then [BS, CHR '':''] else if c = SP then [BS, CHR ''s'']
      else if c = CR then [BS, CHR ''r''] else if c = LF then [BS, CHR ''n'']
      else if c = BS then [BS, BS] else [c])"

declare escape_char.simps [simp del]

definition escape :: "string \<Rightarrow> string" where
  "escape s = concat (List.map escape_char s)"

fun print_tag :: "string irctag \<Rightarrow> string" where
  "print_tag t = tag_key t @ (if tag_val t = [] then [] else CHR ''='' # escape (tag_val t))"

fun print_tags :: "string irctag list \<Rightarrow> string" where
  "print_tags [] = []"
| "print_tags [t] = print_tag t"
| "print_tags (t # ts) = print_tag t @ CHR '';'' # print_tags ts"

fun print_args :: "string list \<Rightarrow> string" where
  "print_args [] = []"
| "print_args [a] = SP # CHR '':'' # a"
| "print_args (a # as) = SP # a @ print_args as"

definition print_msg :: "string ircmsg \<Rightarrow> string" where
  "print_msg m =
     (if msg_tags m = [] then [] else CHR ''@'' # print_tags (msg_tags m) @ [SP]) @
     (if msg_source m = [] then [] else CHR '':'' # msg_source m @ [SP]) @
     msg_command m @ print_args (msg_args m)"

definition ok_word :: "string \<Rightarrow> bool" where
  "ok_word s \<longleftrightarrow> NUL \<notin> set s \<and> SP \<notin> set s"

definition ok_tag :: "string irctag \<Rightarrow> bool" where
  "ok_tag t \<longleftrightarrow> ok_word (tag_key t) \<and> tag_key t \<noteq> [] \<and> CHR ''='' \<notin> set (tag_key t) \<and>
     CHR '';'' \<notin> set (tag_key t) \<and> NUL \<notin> set (tag_val t)"

definition ok_middle :: "string \<Rightarrow> bool" where
  "ok_middle s \<longleftrightarrow> ok_word s \<and> s \<noteq> [] \<and> hd s \<noteq> CHR '':''"

text \<open>The messages that have a wire form: \<open>butlast\<close> since only the last argument may hold spaces.\<close>

definition ok_msg :: "string ircmsg \<Rightarrow> bool" where
  "ok_msg m \<longleftrightarrow> list_all ok_tag (msg_tags m) \<and> ok_word (msg_source m) \<and>
     ok_middle (msg_command m) \<and> hd (msg_command m) \<noteq> CHR ''@'' \<and>
     list_all ok_middle (butlast (msg_args m)) \<and>
     (msg_args m \<noteq> [] \<longrightarrow> NUL \<notin> set (List.last (msg_args m)))"

lemma escape_simps [simp]: "escape [] = []" "escape (c # s) = escape_char c @ escape s"
  by (simp_all add: escape_def)

lemma unescape_escape [simp]: "unescape (escape s) = s"
proof (induction s)
  case (Cons c s)
  have "unescape (escape_char c @ r) = c # unescape r" for r
    by (cases r) (auto simp: escape_char.simps unescape_char.simps)
  with Cons show ?case by simp
qed simp

lemma set_escape_char: "d \<in> set (escape_char c) \<Longrightarrow> d \<noteq> CHR '';'' \<and> d \<noteq> SP \<and> (d = NUL \<longrightarrow> c = NUL)"
  by (auto simp: escape_char.simps split: if_splits)

lemma escape_safe [simp]: "CHR '';'' \<notin> set (escape s)" "SP \<notin> set (escape s)"
  "NUL \<notin> set s \<Longrightarrow> NUL \<notin> set (escape s)"
  by (auto simp: escape_def dest: set_escape_char)

lemma split_at_here: "d \<notin> set t \<Longrightarrow> split_at d (t @ d # r) = (t, Some r)"
  by (simp add: split_at_def)

lemma split_at_absent: "d \<notin> set t \<Longrightarrow> split_at d t = (t, None)"
  by (simp add: split_at_def)

lemma spec_tag_print: "ok_tag t \<Longrightarrow> spec_tag (print_tag t) = Inr t"
  by (cases t) (auto simp: ok_tag_def spec_tag_def split_at_here split_at_absent)

lemma print_tag_safe: "ok_tag t \<Longrightarrow> CHR '';'' \<notin> set (print_tag t) \<and> ok_word (print_tag t)"
  by (auto simp: ok_tag_def ok_word_def)

lemma spec_tags_print: "list_all ok_tag ts \<Longrightarrow> ts \<noteq> [] \<Longrightarrow> spec_tags (print_tags ts) = Inr ts"
proof (induction ts rule: print_tags.induct)
  case (2 t)
  then show ?case
    using print_tag_safe [of t] spec_tag_print [of t]
    by (subst spec_tags.simps) (simp add: split_at_absent del: print_tag.simps)
next
  case (3 t u ts)
  then show ?case
    using print_tag_safe [of t] spec_tag_print [of t]
    by (subst spec_tags.simps) (simp add: split_at_here del: print_tag.simps)
qed simp

lemma print_tags_word: "list_all ok_tag ts \<Longrightarrow> ok_word (print_tags ts)"
  by (induction ts rule: print_tags.induct)
    (auto simp: ok_word_def simp del: print_tag.simps dest: print_tag_safe)

lemma spec_word_here [simp]: "SP \<notin> set w \<Longrightarrow> spec_word (w @ SP # r) = (w, spec_trim (SP # r))"
  by (simp add: spec_word_def)

lemma spec_trim_simps [simp]: "spec_trim (SP # r) = spec_trim r" "spec_trim [] = []"
  "c \<noteq> SP \<Longrightarrow> spec_trim (c # r) = c # r"
  by (simp_all add: spec_trim_def)

lemma spec_word_end: "SP \<notin> set w \<Longrightarrow> spec_word w = (w, [])"
  by (simp add: spec_word_def)

lemma print_args_word:
  "SP \<notin> set w \<Longrightarrow> spec_word (w @ print_args as) = (w, spec_trim (print_args as))"
  by (cases as rule: print_args.cases) (simp_all add: spec_word_end)

lemma spec_args_print:
  "list_all ok_middle (butlast as) \<Longrightarrow> spec_args (spec_trim (print_args as)) = as"
proof (induction as rule: print_args.induct)
  case (3 a b as)
  obtain c w where a: "a = c # w" "c \<noteq> SP" "c \<noteq> CHR '':''" "SP \<notin> set a"
    using 3(2) by (cases a) (auto simp: ok_middle_def ok_word_def)
  then have "spec_trim (print_args (a # b # as)) = c # w @ print_args (b # as)" by simp
  moreover have "spec_word (c # w @ print_args (b # as)) = (a, spec_trim (print_args (b # as)))"
    using print_args_word [of a "b # as"] a by simp
  ultimately show ?case using 3 a by (simp add: spec_args.simps)
qed (simp_all add: spec_args.simps)

lemma spec_body_print:
  assumes "ok_msg m"
  shows "spec_body ts ((if msg_source m = [] then [] else CHR '':'' # msg_source m @ [SP]) @
     msg_command m @ print_args (msg_args m)) = Inr (m\<lparr>msg_tags := ts\<rparr>)"
proof -
  obtain c w where c: "msg_command m = c # w" "c \<noteq> SP" "c \<noteq> CHR '':''" "SP \<notin> set (msg_command m)"
    using assms by (cases "msg_command m") (auto simp: ok_msg_def ok_middle_def ok_word_def)
  have cmd: "spec_word (c # w @ print_args (msg_args m)) = (msg_command m, spec_trim (print_args (msg_args m)))"
    using print_args_word [of "msg_command m"] c by simp
  have args: "spec_args (spec_trim (print_args (msg_args m))) = msg_args m"
    using assms by (simp add: spec_args_print ok_msg_def)
  have src: "SP \<notin> set (msg_source m)" using assms by (simp add: ok_msg_def ok_word_def)
  show ?thesis using cmd args src c by (simp add: spec_body_def)
qed

lemma spec_parse_print: "ok_msg m \<Longrightarrow> spec_parse (print_msg m) = Inr m"
proof -
  assume ok: "ok_msg m"
  let ?b = "(if msg_source m = [] then [] else CHR '':'' # msg_source m @ [SP]) @
     msg_command m @ print_args (msg_args m)"
  have "\<exists>c w. ?b = c # w \<and> c \<noteq> SP \<and> c \<noteq> CHR ''@''"
    using ok by (cases "msg_command m"; cases "msg_source m = []")
      (auto simp: ok_msg_def ok_middle_def ok_word_def)
  then obtain c w where c: "?b = c # w" "c \<noteq> SP" "c \<noteq> CHR ''@''" by blast
  show ?thesis
  proof (cases "msg_tags m = []")
    case True
    with c ok spec_body_print [OF ok, of "[]"] show ?thesis
      by (simp add: spec_parse_def print_msg_def)
  next
    case False
    have t: "ok_word (print_tags (msg_tags m))" "spec_tags (print_tags (msg_tags m)) = Inr (msg_tags m)"
      using ok False by (simp_all add: ok_msg_def print_tags_word spec_tags_print)
    have "print_msg m = CHR ''@'' # print_tags (msg_tags m) @ SP # c # w"
      using False c(1) by (simp add: print_msg_def)
    with c t spec_body_print [OF ok, of "msg_tags m"] show ?thesis
      by (simp add: spec_parse_def ok_word_def)
  qed
qed

lemma print_args_NUL:
  "list_all ok_middle (butlast as) \<Longrightarrow> (as \<noteq> [] \<longrightarrow> NUL \<notin> set (List.last as)) \<Longrightarrow> NUL \<notin> set (print_args as)"
  by (induction as rule: print_args.induct) (auto simp: ok_middle_def ok_word_def split: if_splits)

lemma print_msg_NUL: "ok_msg m \<Longrightarrow> NUL \<notin> set (print_msg m)"
  using print_args_NUL [of "msg_args m"] print_tags_word [of "msg_tags m"]
  by (auto simp: ok_msg_def print_msg_def ok_word_def ok_middle_def)

text \<open>
  C16: every well-formed message survives the wire: rendering its tags (escaped), source, command
  and arguments and parsing the rendering in place succeeds, and the views read back the message.
\<close>

theorem print_then_parse:
  assumes "ok_msg m"
  shows "\<exists>v s'. parse_irc_message (Some (print_msg m @ [NUL], 0)) = Some (Inr v, s' @ [NUL]) \<and> reads_msg s' v m"
  using parse_irc_message_app [OF print_msg_NUL [OF assms], of "[]" "[]"] spec_parse_print [OF assms] by auto

lemma print_then_parse_witness:
  "\<exists>v s'. parse_irc_message (Some (''@a=b;+c :nick!u@h PRIVMSG #chan :hi there'' @ [NUL], 0)) = Some (Inr v, s' @ [NUL]) \<and>
     reads_msg s' v \<lparr>msg_tags = [\<lparr>tag_key = ''a'', tag_val = ''b''\<rparr>, \<lparr>tag_key = ''+c'', tag_val = []\<rparr>],
       msg_source = ''nick!u@h'', msg_command = ''PRIVMSG'', msg_args = [''#chan'', ''hi there'']\<rparr>"
proof -
  let ?m = "\<lparr>msg_tags = [\<lparr>tag_key = ''a'', tag_val = ''b''\<rparr>, \<lparr>tag_key = ''+c'', tag_val = []\<rparr>],
       msg_source = ''nick!u@h'', msg_command = ''PRIVMSG'', msg_args = [''#chan'', ''hi there'']\<rparr>"
  have "ok_msg ?m" by (simp add: ok_msg_def ok_tag_def ok_middle_def ok_word_def)
  moreover have "print_msg ?m = ''@a=b;+c :nick!u@h PRIVMSG #chan :hi there''"
    by (simp add: print_msg_def escape_char.simps)
  ultimately show ?thesis using print_then_parse [of ?m] by simp
qed

lemma parse_irc_message_refines_witness:
  "let s = ''@k=a'' @ BS # '':b :srv  001  me :x y'' in
   \<exists>v s'. parse_irc_message (Some (''>>'' @ s @ NUL # ''<<'', length ''>>'')) =
       Some (Inr v, ''>>'' @ s' @ NUL # ''<<'') \<and> length s' = length s \<and>
     reads_msg (''>>'' @ s') v \<lparr>msg_tags = [\<lparr>tag_key = ''k'', tag_val = ''a;b''\<rparr>],
       msg_source = ''srv'', msg_command = ''001'', msg_args = [''me'', ''x y'']\<rparr>"
proof -
  let ?s = "''@k=a'' @ BS # '':b :srv  001  me :x y''"
  have "spec_parse ?s = Inr \<lparr>msg_tags = [\<lparr>tag_key = ''k'', tag_val = ''a;b''\<rparr>],
       msg_source = ''srv'', msg_command = ''001'', msg_args = [''me'', ''x y'']\<rparr>"
    by code_simp
  moreover have "NUL \<notin> set ?s" by simp
  ultimately show ?thesis
    using parse_irc_message_refines [of ?s "''>>''" "''<<''"] by (auto simp: Let_def)
qed

text \<open>
  a null message pointer is parsed from the class's own sentinel byte and is the error
  \<open>MISSING_COMMAND\<close>, never an access through the null pointer.
\<close>

theorem parse_null_message:
  "parse_irc_message None = Some (Inl MISSING_COMMAND, [NUL])"
  by code_simp

section \<open>The shape of parsed messages\<close>

definition wf_msg :: "string ircmsg \<Rightarrow> bool" where
  "wf_msg m \<longleftrightarrow> list_all ok_tag (msg_tags m) \<and> ok_word (msg_source m) \<and>
     ok_word (msg_command m) \<and> msg_command m \<noteq> [] \<and> list_all ok_middle (butlast (msg_args m)) \<and>
     list_all (\<lambda>a. NUL \<notin> set a) (msg_args m)"

lemma set_spec_trim: "set (spec_trim s) \<subseteq> set s"
  by (auto simp: spec_trim_def dest: set_dropWhileD)

lemma spec_word_set:
  assumes "spec_word s = (w, r)"
  shows "set w \<subseteq> set s" "SP \<notin> set w" "set r \<subseteq> set s" "r = [] \<or> hd r \<noteq> SP"
proof -
  from assms have w: "w = takeWhile (\<lambda>c. c \<noteq> SP) s" and r: "r = spec_trim (dropWhile (\<lambda>c. c \<noteq> SP) s)"
    by (auto simp: spec_word_def)
  show "set w \<subseteq> set s" "SP \<notin> set w" by (auto simp: w dest: set_takeWhileD)
  show "set r \<subseteq> set s" using set_spec_trim by (fastforce simp: r dest: set_dropWhileD)
  show "r = [] \<or> hd r \<noteq> SP"
    using hd_dropWhile [of "\<lambda>c. c = SP" "dropWhile (\<lambda>c. c \<noteq> SP) s"] by (auto simp: r spec_trim_def)
qed

lemma unescape_NUL: "NUL \<notin> set s \<Longrightarrow> NUL \<notin> set (unescape s)"
  by (induction s rule: unescape.induct) (auto simp: unescape_char.simps)

lemma spec_tag_ok:
  assumes "ok_word s" "CHR '';'' \<notin> set s" "spec_tag s = Inr t"
  shows "ok_tag t"
proof -
  obtain k v where kv: "split_at (CHR ''='') s = (k, v)" by fastforce
  show ?thesis
  proof (cases v)
    case None
    with kv split_at_None [of "CHR ''=''" s k] assms show ?thesis
      by (auto simp: spec_tag_def ok_tag_def ok_word_def split: if_splits)
  next
    case (Some x)
    with kv split_at_Some [of "CHR ''=''" s k x] assms unescape_NUL [of x] show ?thesis
      by (auto simp: spec_tag_def ok_tag_def ok_word_def split: if_splits)
  qed
qed

lemma spec_tags_ok: "ok_word s \<Longrightarrow> spec_tags s = Inr ts \<Longrightarrow> list_all ok_tag ts"
proof (induction s arbitrary: ts rule: spec_tags.induct)
  case (1 s)
  obtain t rest where sp: "split_at (CHR '';'') s = (t, rest)" by fastforce
  then have t: "ok_word t" "CHR '';'' \<notin> set t" and r: "\<And>r. rest = Some r \<Longrightarrow> ok_word r"
    using "1.prems"(1) by (cases rest; auto simp: ok_word_def dest!: split_at_None split_at_Some)+
  from "1.prems"(2) sp obtain tag where tag: "spec_tag t = Inr tag"
    by (auto simp: spec_tags.simps [of s] split: sum.splits)
  show ?case
  proof (cases rest)
    case None
    with "1.prems"(2) sp tag spec_tag_ok [OF t tag] show ?thesis by (auto simp: spec_tags.simps [of s])
  next
    case (Some x)
    with "1.prems"(2) sp tag obtain ts' where "spec_tags x = Inr ts'" "ts = tag # ts'"
      by (auto simp: spec_tags.simps [of s] split: sum.splits)
    with "1.IH" [OF sp [symmetric] tag Some r [OF Some]] spec_tag_ok [OF t tag] show ?thesis by simp
  qed
qed

lemma spec_args_ok:
  "NUL \<notin> set s \<Longrightarrow> s = [] \<or> hd s \<noteq> SP \<Longrightarrow>
   list_all ok_middle (butlast (spec_args s)) \<and> list_all (\<lambda>a. NUL \<notin> set a) (spec_args s)"
proof (induction s rule: spec_args.induct)
  case 1
  then show ?case by (simp add: spec_args.simps)
next
  case (2 c s)
  show ?case
  proof (cases "c = CHR '':''")
    case True
    with 2 show ?thesis by (simp add: spec_args.simps(2))
  next
    case False
    obtain w r where wr: "spec_word (c # s) = (w, r)" by fastforce
    note sw = spec_word_set [OF wr]
    have "w \<noteq> []" "hd w = c" using wr "2.prems"(2) by (auto simp: spec_word_def)
    then have "ok_middle w" using sw False "2.prems" by (auto simp: ok_middle_def ok_word_def)
    moreover have "NUL \<notin> set r" using sw(3) "2.prems"(1) by auto
    moreover have "NUL \<notin> set w" using sw(1) "2.prems"(1) by auto
    ultimately show ?thesis using "2.IH" [OF False wr [symmetric]] sw(4) wr False
      by (auto simp: spec_args.simps(2))
  qed
qed

lemma spec_body_wf:
  assumes "NUL \<notin> set s" "s = [] \<or> hd s \<noteq> SP" "list_all ok_tag tags" "spec_body tags s = Inr m"
  shows "wf_msg m"
proof -
  obtain source s1 where s1: "(case s of [] \<Rightarrow> ([], s)
      | c # r \<Rightarrow> if c = CHR '':'' then spec_word r else ([], s)) = (source, s1)" by fastforce
  then have src: "ok_word source" "NUL \<notin> set s1"
    using assms(1,2) by (auto simp: ok_word_def split: list.splits if_splits dest: spec_word_set)
  obtain command s2 where c: "spec_word s1 = (command, s2)" by fastforce
  note sw = spec_word_set [OF c]
  from assms(4) s1 c have m: "command \<noteq> []"
    "m = \<lparr>msg_tags = tags, msg_source = source, msg_command = command, msg_args = spec_args s2\<rparr>"
    by (auto simp: spec_body_def split: if_splits)
  have "NUL \<notin> set s2" using sw(3) src(2) by auto
  with spec_args_ok [of s2] sw src m assms(3) show ?thesis by (auto simp: wf_msg_def ok_word_def)
qed

lemma spec_parse_wf:
  assumes "NUL \<notin> set s" "spec_parse s = Inr m"
  shows "wf_msg m"
proof -
  let ?s = "spec_trim s"
  have s: "NUL \<notin> set ?s" "?s = [] \<or> hd ?s \<noteq> SP"
    using assms(1) set_spec_trim [of s] hd_dropWhile [of "\<lambda>c. c = SP" s] by (auto simp: spec_trim_def)
  show ?thesis
  proof (cases "?s \<noteq> [] \<and> hd ?s = CHR ''@''")
    case True
    then obtain r where r: "?s = CHR ''@'' # r" by (cases ?s) auto
    obtain w q where w: "spec_word r = (w, q)" by fastforce
    note sw = spec_word_set [OF w]
    from assms(2) r w obtain tags where t: "spec_tags w = Inr tags" "spec_body tags q = Inr m"
      by (auto simp: spec_parse_def Let_def split: sum.splits)
    have "ok_word w" "NUL \<notin> set q" using s(1) r sw by (auto simp: ok_word_def)
    with spec_body_wf [OF _ sw(4) spec_tags_ok t(2)] t(1) show ?thesis by blast
  next
    case False
    then have "spec_body [] ?s = Inr m" using assms(2)
      by (auto simp: spec_parse_def Let_def split: list.splits)
    from spec_body_wf [OF s _ this] show ?thesis by simp
  qed
qed

text \<open>
  The shape of a message the parser accepts, whatever the input: tag keys are not empty and hold none of
  the separators, source and command are words, the command is not empty, every argument but the last is
  a word that does not start with a colon, and no part of it holds a NUL, so that the views into the
  buffer are the whole C strings.
\<close>

theorem parsed_message_shape:
  assumes "NUL \<notin> set s" "parse_irc_message (Some (s @ [NUL], 0)) = Some (Inr v, m)"
  shows "\<exists>msg. reads_msg m v msg \<and> wf_msg msg"
proof -
  from parse_irc_message_app [OF assms(1), of "[]" "[]"] assms(2) obtain s' where
    s': "m = s' @ [NUL]"
      "case spec_parse s of Inl e \<Rightarrow> Inr v = Inl e
       | Inr msg \<Rightarrow> \<exists>w. (Inr v :: irc_error_code + sview ircmsg) = Inr w \<and> reads_msg s' w msg"
    by auto
  then obtain msg where msg: "spec_parse s = Inr msg" "reads_msg s' v msg" by (auto split: sum.splits)
  then have "reads_msg m v msg"
    by (auto simp: reads_msg_def s'(1) reads_append list_all2_reads_append elim!: list_all2_mono reads_tag_append)
  with spec_parse_wf [OF assms(1) msg(1)] show ?thesis by blast
qed

lemma parsed_message_shape_witness:
  "\<exists>v m msg. parse_irc_message (Some (''@k=v :me PING a :b c'' @ [NUL], 0)) = Some (Inr v, m) \<and>
     reads_msg m v msg \<and> wf_msg msg"
proof -
  have "isl (fst (the (parse_irc_message (Some (''@k=v :me PING a :b c'' @ [NUL], 0))))) = False \<and>
    parse_irc_message (Some (''@k=v :me PING a :b c'' @ [NUL], 0)) \<noteq> None" by code_simp
  then obtain v m where "parse_irc_message (Some (''@k=v :me PING a :b c'' @ [NUL], 0)) = Some (Inr v, m)"
    by (cases "fst (the (parse_irc_message (Some (''@k=v :me PING a :b c'' @ [NUL], 0))))") auto
  moreover from parsed_message_shape [OF _ this] obtain msg where "reads_msg m v msg \<and> wf_msg msg" by auto
  ultimately show ?thesis by blast
qed

end
