(* ===== verification/LineBuffer.thy ===== *)
theory LineBuffer
  imports Prelude "HOL-Library.Monad_Syntax"
begin

text \<open>
  \<open>client/net/linebuffer.hpp\<close> and \<open>linebuffer.cpp\<close>: the fixed-size buffer that turns the
  byte chunks of the network into null-terminated lines, in place.

  The three iterators are offsets into the vector.  \<open>lb_at lb pre s free\<close> is the class
  invariant read as a layout: the vector is the spent bytes \<open>pre\<close>, the pending bytes \<open>s\<close>
  and the unused rest \<open>free\<close>, and no newline was overlooked left of the search position.
\<close>

section \<open>State and operations\<close>

record line_buffer =
  lb_buffer :: cmem
  lb_start :: nat
  lb_search :: nat
  lb_end :: nat

definition LineBuffer_new :: "nat \<Rightarrow> line_buffer" where
  "LineBuffer_new n = \<lparr>lb_buffer = replicate n NUL, lb_start = 0, lb_search = 0, lb_end = 0\<rparr>"

text \<open>The offset and the size of the free space.\<close>

definition prepare :: "line_buffer \<Rightarrow> nat \<times> nat" where
  "prepare lb = (lb_end lb, length (lb_buffer lb) - lb_end lb)"

definition commit :: "nat \<Rightarrow> line_buffer \<Rightarrow> line_buffer" where
  "commit n lb = lb\<lparr>lb_end := lb_end lb + n\<rparr>"

text \<open>\<open>std::find\<close> and \<open>std::move\<close> on iterators of one vector.\<close>

function std_find :: "cmem \<Rightarrow> nat \<Rightarrow> nat \<Rightarrow> char \<Rightarrow> nat option" where
  "std_find m i e c =
     (if i = e then Some e
      else do { d \<leftarrow> rd m i; if d = c then Some i else std_find m (Suc i) e c })"
  by pat_completeness auto
termination
  by (relation "measure (\<lambda>(m, i, e, c). length m - i)") (auto simp: rd_def split: if_splits)

declare std_find.simps [simp del]

function std_move :: "cmem \<Rightarrow> nat \<Rightarrow> nat \<Rightarrow> nat \<Rightarrow> (nat \<times> cmem) option" where
  "std_move m i e d =
     (if i = e then Some (d, m)
      else do { c \<leftarrow> rd m i; m \<leftarrow> wr m d c; std_move m (Suc i) e (Suc d) })"
  by pat_completeness auto
termination
  by (relation "measure (\<lambda>(m, i, e, d). length m - i)") (auto simp: rd_def wr_def split: if_splits)

declare std_move.simps [simp del]

definition next_line :: "line_buffer \<Rightarrow> (nat option \<times> line_buffer) option" where
  "next_line lb = do {
     nl \<leftarrow> std_find (lb_buffer lb) (lb_search lb) (lb_end lb) LF;
     if nl = lb_end lb then Some (None, lb\<lparr>lb_search := lb_end lb\<rparr>)
     else do {
       pos \<leftarrow> (if lb_start lb < nl
               then do { c \<leftarrow> rd (lb_buffer lb) (nl - 1); Some (if c = CR then nl - 1 else nl) }
               else Some nl);
       m \<leftarrow> wr (lb_buffer lb) pos NUL;
       Some (Some (lb_start lb), lb\<lparr>lb_buffer := m, lb_start := Suc nl, lb_search := Suc nl\<rparr>)
     }
   }"

definition shift :: "line_buffer \<Rightarrow> line_buffer option" where
  "shift lb =
     (if lb_start lb \<noteq> 0 then do {
        (e, m) \<leftarrow> std_move (lb_buffer lb) (lb_start lb) (lb_end lb) 0;
        Some \<lparr>lb_buffer = m, lb_start = 0, lb_search = lb_search lb - lb_start lb, lb_end = e\<rparr>
      } else Some lb)"

text \<open>What \<open>async_read_some\<close> does with the space handed out by \<open>prepare\<close>: bytes at its front.\<close>

definition receive :: "string \<Rightarrow> line_buffer \<Rightarrow> line_buffer" where
  "receive bs lb = lb\<lparr>lb_buffer :=
     take (lb_end lb) (lb_buffer lb) @ bs @ drop (lb_end lb + length bs) (lb_buffer lb)\<rparr>"

section \<open>The invariant\<close>

definition lb_at :: "line_buffer \<Rightarrow> string \<Rightarrow> string \<Rightarrow> string \<Rightarrow> bool" where
  "lb_at lb pre s free \<longleftrightarrow>
     lb_buffer lb = pre @ s @ free \<and> lb_start lb = length pre \<and>
     lb_end lb = length pre + length s \<and>
     lb_start lb \<le> lb_search lb \<and> lb_search lb \<le> lb_end lb \<and>
     LF \<notin> set (take (lb_search lb - lb_start lb) s)"

definition pending :: "line_buffer \<Rightarrow> string" where
  "pending lb = take (lb_end lb - lb_start lb) (drop (lb_start lb) (lb_buffer lb))"

lemma lb_at_pending: "lb_at lb pre s free \<Longrightarrow> pending lb = s"
  by (simp add: lb_at_def pending_def)

lemma lb_at_new [inv_intros]: "lb_at (LineBuffer_new n) [] [] (replicate n NUL)"
  by (simp add: lb_at_def LineBuffer_new_def)

lemma lb_at_prepare: "lb_at lb pre s free \<Longrightarrow> prepare lb = (length pre + length s, length free)"
  by (simp add: lb_at_def prepare_def)

lemma lb_at_receive [inv_intros]:
  assumes "lb_at lb pre s free" "length bs \<le> length free"
  shows "lb_at (commit (length bs) (receive bs lb)) pre (s @ bs) (drop (length bs) free)"
  using assms by (auto simp: lb_at_def commit_def receive_def)

section \<open>Searching and moving\<close>

lemma std_find_none:
  "c \<notin> set xs \<Longrightarrow> std_find (pre @ xs @ post) (length pre) (length pre + length xs) c
     = Some (length pre + length xs)"
proof (induction xs arbitrary: pre)
  case Nil
  then show ?case by (subst std_find.simps) simp
next
  case (Cons x xs)
  then show ?case using Cons.IH [of "pre @ [x]"] by (subst std_find.simps) auto
qed

lemma std_find_some:
  "c \<notin> set xs \<Longrightarrow> length pre + length xs < e \<Longrightarrow>
   std_find (pre @ xs @ c # post) (length pre) e c = Some (length pre + length xs)"
proof (induction xs arbitrary: pre)
  case Nil
  then show ?case by (subst std_find.simps) simp
next
  case (Cons x xs)
  then show ?case using Cons.IH [of "pre @ [x]"] by (subst std_find.simps) auto
qed

text \<open>Moving to the front copies in ascending order, so overlapping ranges are safe.\<close>

lemma std_move_gap:
  "gap \<noteq> [] \<Longrightarrow> \<exists>gap'. std_move (pre @ gap @ s @ post) (length pre + length gap)
       (length pre + length gap + length s) (length pre)
     = Some (length pre + length s, pre @ s @ gap' @ post) \<and> length gap' = length gap"
proof (induction s arbitrary: pre gap)
  case Nil
  then show ?case by (subst std_move.simps) simp
next
  case (Cons c s)
  obtain h t where ht: "gap @ [c] = h # t" "length t = length gap" by (cases gap) auto
  have r: "rd (pre @ gap @ (c # s) @ post) (length pre + length gap) = Some c"
    using rd_append_here [of "pre @ gap" c "s @ post"] by simp
  have eq: "pre @ gap @ (c # s) @ post = pre @ h # t @ s @ post"
    using arg_cong [OF ht(1), of "\<lambda>x. pre @ x @ s @ post"] by simp
  have w: "wr (pre @ gap @ (c # s) @ post) (length pre) c = Some (pre @ c # t @ s @ post)"
    unfolding eq by simp
  have "t \<noteq> []" using ht(2) Cons.prems by auto
  from Cons.IH [OF this, of "pre @ [c]"] obtain gap' where
    "std_move (pre @ c # t @ s @ post) (Suc (length pre + length gap))
       (length pre + length gap + length (c # s)) (Suc (length pre))
     = Some (length pre + length (c # s), pre @ (c # s) @ gap' @ post)" "length gap' = length gap"
    using ht(2) by auto
  with r w show ?case by (subst std_move.simps) auto
qed

section \<open>Refinement\<close>

text \<open>The bytes of a completed line, newline included, once \<open>next_line\<close> has cut it.\<close>

definition cut_line :: "string \<Rightarrow> string" where
  "cut_line l = (if l \<noteq> [] \<and> List.last l = CR then butlast l @ [NUL, LF] else l @ [NUL])"

definition chomp :: "string \<Rightarrow> string" where
  "chomp l = (if l \<noteq> [] \<and> List.last l = CR then butlast l else l)"

lemma cut_line_chomp: "\<exists>r. cut_line l = chomp l @ NUL # r"
  by (auto simp: cut_line_def chomp_def)

lemma length_cut_line [simp]: "length (cut_line l) = Suc (length l)"
  by (auto simp: cut_line_def)

lemma next_line_none:
  assumes "lb_at lb pre s free" "LF \<notin> set s"
  shows "next_line lb = Some (None, lb\<lparr>lb_search := lb_end lb\<rparr>) \<and>
    lb_at (lb\<lparr>lb_search := lb_end lb\<rparr>) pre s free"
proof -
  define k where "k = lb_search lb - lb_start lb"
  have k: "k \<le> length s" "lb_search lb = length (pre @ take k s)"
    "lb_buffer lb = (pre @ take k s) @ drop k s @ free"
    "lb_end lb = length (pre @ take k s) + length (drop k s)"
    using assms(1) by (auto simp: lb_at_def k_def)
  have "LF \<notin> set (drop k s)" using assms(2) by (meson in_set_dropD)
  from std_find_none [OF this, of "pre @ take k s" free] k
  have "std_find (lb_buffer lb) (lb_search lb) (lb_end lb) LF = Some (lb_end lb)" by simp
  then show ?thesis using assms by (auto simp: next_line_def lb_at_def dest: in_set_takeD)
qed

lemma next_line_some:
  assumes "lb_at lb pre (l @ LF # r) free" "LF \<notin> set l"
  shows "\<exists>lb'. next_line lb = Some (Some (length pre), lb') \<and> lb_at lb' (pre @ cut_line l) r free"
proof -
  define k where "k = lb_search lb - lb_start lb"
  have st: "lb_start lb = length pre" and en: "lb_end lb = length pre + length l + Suc (length r)"
    and m: "lb_buffer lb = pre @ l @ LF # r @ free"
    using assms(1) by (auto simp: lb_at_def)
  have "LF \<notin> set (take k (l @ LF # r))" using assms(1) unfolding lb_at_def k_def by blast
  then have kl: "k \<le> length l" by (cases "k - length l") auto
  have k: "lb_search lb = length (pre @ take k l)"
    "lb_buffer lb = (pre @ take k l) @ drop k l @ LF # r @ free"
    using assms(1) kl by (auto simp: lb_at_def k_def)
  have nl: "LF \<notin> set (drop k l)" using assms(2) by (meson in_set_dropD)
  have find: "std_find (lb_buffer lb) (lb_search lb) (lb_end lb) LF = Some (length pre + length l)"
    unfolding k using std_find_some [OF nl, of "pre @ take k l" "lb_end lb" "r @ free"] kl en by simp
  let ?lb = "lb\<lparr>lb_buffer := pre @ cut_line l @ r @ free, lb_start := Suc (length pre + length l),
      lb_search := Suc (length pre + length l)\<rparr>"
  have at: "lb_at ?lb (pre @ cut_line l) r free"
    using en by (simp add: lb_at_def)
  have wl: "wr (pre @ l @ LF # r @ free) (length pre + length l) NUL = Some (pre @ l @ NUL # r @ free)"
    using wr_append_here [of "pre @ l" LF "r @ free" NUL] by simp
  show ?thesis
  proof (cases "l = []")
    case True
    with find wl at st en m show ?thesis by (simp add: next_line_def cut_line_def)
  next
    case False
    then obtain a c where l: "l = a @ [c]" by (metis rev_exhaust)
    have "rd (pre @ a @ c # LF # r @ free) (length pre + length a) = Some c"
      "wr (pre @ a @ c # LF # r @ free) (length pre + length a) NUL = Some (pre @ a @ NUL # LF # r @ free)"
      using rd_append_here [of "pre @ a" c "LF # r @ free"]
        wr_append_here [of "pre @ a" c "LF # r @ free" NUL] by simp_all
    with find wl at st en m show ?thesis
      by (cases "c = CR") (simp_all add: next_line_def cut_line_def l)
  qed
qed

lemma shift_at:
  assumes "lb_at lb pre s free"
  shows "\<exists>lb' free'. shift lb = Some lb' \<and> lb_at lb' [] s free' \<and> length free' = length pre + length free"
proof (cases "pre = []")
  case True
  with assms show ?thesis by (auto simp: shift_def lb_at_def)
next
  case False
  from std_move_gap [OF this, of "[]" s free] obtain gap' where
    "std_move (pre @ s @ free) (length pre) (length pre + length s) 0 = Some (length s, s @ gap' @ free)"
    "length gap' = length pre"
    by auto
  with assms False show ?thesis
    by (auto simp: shift_def lb_at_def intro!: exI [of _ "gap' @ free"])
qed

end
