(* ===== verification/IrcSession.thy ===== *)
theory IrcSession
  imports LineBuffer IrcRefine "HOL-Library.AList"
begin

text \<open>
  \<open>client/irc/lua.cpp\<close>: the read loop of an IRC session and the values it hands to Lua.

  The network is a list of read results: an error, or the bytes a read may deliver; a read takes
  at most the space \<open>prepare\<close> offers and leaves the rest for the next read, as a stream socket
  does.  The events are the calls of the Lua callback, in order.  The messages are parsed in
  place in the line buffer and read from it when they are pushed, which is after the next line
  has already been cut.
\<close>

section \<open>Messages as Lua values\<close>

record lua_ircmsg =
  lm_tags :: "(string \<times> string) list"
  lm_source :: "string option"
  lm_command :: "int + string"
  lm_args :: "string list"

definition is_digit :: "char \<Rightarrow> bool" where
  "is_digit c \<longleftrightarrow> 48 \<le> (of_char c :: nat) \<and> (of_char c :: nat) \<le> 57"

definition digits_val :: "string \<Rightarrow> int" where
  "digits_val ds = foldl (\<lambda>v c. v * 10 + (of_char c - 48)) 0 ds"

text \<open>\<open>std::from_chars\<close> for a \<open>lua_Integer\<close>; \<open>None\<close> is either error.\<close>

definition from_chars :: "string \<Rightarrow> (int \<times> string) option" where
  "from_chars s =
     (let (neg, d) = (case s of c # r \<Rightarrow> if c = CHR ''-'' then (True, r) else (False, s) | [] \<Rightarrow> (False, s));
          ds = takeWhile is_digit d;
          v = (if neg then - digits_val ds else digits_val ds)
      in if ds = [] \<or> v < - (2 ^ 63) \<or> 2 ^ 63 \<le> v then None else Some (v, dropWhile is_digit d))"

definition push_command :: "string \<Rightarrow> int + string" where
  "push_command cmd =
     (case from_chars cmd of
        Some (code, rest) \<Rightarrow> if rest = [] then Inl code else Inr cmd
      | None \<Rightarrow> Inr cmd)"

definition pushtags :: "string irctag list \<Rightarrow> (string \<times> string) list" where
  "pushtags tags = fold (\<lambda>tag. AList.update (tag_key tag) (tag_val tag)) tags []"

definition pushircmsg :: "string ircmsg \<Rightarrow> lua_ircmsg" where
  "pushircmsg msg =
     \<lparr>lm_tags = pushtags (msg_tags msg),
      lm_source = (if msg_source msg = [] then None else Some (msg_source msg)),
      lm_command = push_command (msg_command msg),
      lm_args = msg_args msg\<rparr>"

text \<open>Reading the views of a message out of the buffer.\<close>

definition deref :: "cmem \<Rightarrow> sview \<Rightarrow> string" where
  "deref m v = view m (fst v) (snd v)"

definition deref_tag :: "cmem \<Rightarrow> sview irctag \<Rightarrow> string irctag" where
  "deref_tag m t = \<lparr>tag_key = deref m (tag_key t), tag_val = deref m (tag_val t)\<rparr>"

definition deref_msg :: "cmem \<Rightarrow> sview ircmsg \<Rightarrow> string ircmsg" where
  "deref_msg m v =
     \<lparr>msg_tags = List.map (deref_tag m) (msg_tags v), msg_source = deref m (msg_source v),
      msg_command = deref m (msg_command v), msg_args = List.map (deref m) (msg_args v)\<rparr>"

section \<open>The read loop\<close>

datatype session_event =
    CON string
  | MSG lua_ircmsg bool
  | END "string option"

lemma std_find_bound:
  "std_find m i e c = Some nl \<Longrightarrow> nl \<noteq> e \<Longrightarrow> i \<le> nl \<and> nl < length m"
proof (induction m i e c rule: std_find.induct)
  case (1 m i e c)
  show ?case
  proof (cases "i = e")
    case True
    with 1(2,3) show ?thesis by (subst (asm) std_find.simps) simp
  next
    case False
    with 1(2) obtain d where d: "rd m i = Some d"
      by (subst (asm) std_find.simps) (auto simp: Option.bind_eq_Some_conv)
    then have "i < length m" by (auto simp: rd_def split: if_splits)
    with 1 False d show ?thesis
      by (cases "d = c") (simp_all add: std_find.simps [of m i e c])
  qed
qed

lemma next_line_bound:
  assumes "next_line lb = Some (Some p, lb')"
  shows "length (lb_buffer lb') = length (lb_buffer lb) \<and>
    length (lb_buffer lb) - lb_search lb' < length (lb_buffer lb) - lb_search lb"
proof -
  from assms obtain nl where
    nl: "std_find (lb_buffer lb) (lb_search lb) (lb_end lb) LF = Some nl" "nl \<noteq> lb_end lb"
    by (cases "std_find (lb_buffer lb) (lb_search lb) (lb_end lb) LF")
      (auto simp: next_line_def split: if_splits)
  with assms obtain pos m where
    "wr (lb_buffer lb) pos NUL = Some m"
    "lb' = lb\<lparr>lb_buffer := m, lb_start := Suc nl, lb_search := Suc nl\<rparr>"
    unfolding next_line_def by (simp add: Option.bind_eq_Some_conv) blast
  with std_find_bound [OF nl] show ?thesis by (auto dest: length_wr)
qed

function get_nonempty_line :: "line_buffer \<Rightarrow> (nat option \<times> line_buffer) option" where
  "get_nonempty_line buff =
     (case next_line buff of
        None \<Rightarrow> None
      | Some (None, buff) \<Rightarrow> Some (None, buff)
      | Some (Some line, buff) \<Rightarrow> do {
          line \<leftarrow> scan (\<lambda>c. c = SP) (lb_buffer buff) line;
          c \<leftarrow> rd (lb_buffer buff) line;
          if c \<noteq> NUL then Some (Some line, buff) else get_nonempty_line buff
        })"
  by pat_completeness auto
termination
  by (relation "measure (\<lambda>lb. length (lb_buffer lb) - lb_search lb)") (auto dest: next_line_bound)

declare get_nonempty_line.simps [simp del]

lemma get_nonempty_line_bound:
  "get_nonempty_line lb = Some (Some p, lb') \<Longrightarrow>
   length (lb_buffer lb') = length (lb_buffer lb) \<and>
   length (lb_buffer lb) - lb_search lb' < length (lb_buffer lb) - lb_search lb"
proof (induction lb rule: get_nonempty_line.induct)
  case (1 lb)
  from "1.prems" obtain q lb1 where n: "next_line lb = Some (Some q, lb1)"
    by (subst (asm) get_nonempty_line.simps) (auto split: option.splits)
  note b = next_line_bound [OF n]
 
  from "1.prems" n obtain line c where
    s: "scan (\<lambda>c. c = SP) (lb_buffer lb1) q = Some line" "rd (lb_buffer lb1) line = Some c" and
    r: "if c \<noteq> NUL then Some (Some line, lb1) = Some (Some p, lb')
        else get_nonempty_line lb1 = Some (Some p, lb')"
    by (subst (asm) get_nonempty_line.simps) (auto simp: Option.bind_eq_Some_conv split: if_splits)
  show ?case
  proof (cases "c = NUL")
    case True
    with r "1.IH" [OF n refl refl s] b show ?thesis by auto
  next
    case False
    with r b show ?thesis by auto
  qed
qed

lemma parse_irc_tags_length:
  "parse_irc_tags m str tags = Some (r, m') \<Longrightarrow> length m' = length m"
proof (induction m str tags rule: parse_irc_tags.induct)
  case (1 m str tags)
  from "1.prems" obtain x str1 m1 where p: "parse_one_tag m str = Some (x, str1, m1)"
    by (subst (asm) parse_irc_tags.simps) (auto split: option.splits)
  then have l: "length m1 = length m" by (auto dest: parse_one_tag_bound)
  show ?case
  proof (cases x)
    case (Inl e)
    with "1.prems" p l show ?thesis by (simp add: parse_irc_tags.simps [of m str])
  next
    case (Inr t)
    with "1.prems" p l "1.IH" [OF p refl] show ?thesis
      by (cases str1) (simp_all add: parse_irc_tags.simps [of m str])
  qed
qed

lemma word_length:
  assumes "word s = Some (w, s')"
  shows "length (pmem s') = length (pmem s)"
proof -
  from assms obtain q d where
    q: "scan (\<lambda>c. c \<noteq> NUL \<and> c \<noteq> SP) (pmem s) (p_msg s) = Some q" "rd (pmem s) q = Some d"
    by (auto simp: word_def Option.bind_eq_Some_conv Let_def)
  show ?thesis
  proof (cases "d = NUL")
    case True
    with q assms show ?thesis by (auto simp: word_def Let_def)
  next
    case False
    with q assms obtain m where "wr (pmem s) q NUL = Some m" "trim \<lparr>pmem = m, p_msg = Suc q\<rparr> = Some s'"
      by (auto simp: word_def Option.bind_eq_Some_conv Let_def)
    then show ?thesis by (auto dest!: trim_bound length_wr)
  qed
qed

lemma match_length: "match c s = Some (b, s') \<Longrightarrow> length (pmem s') = length (pmem s)"
  by (auto simp: match_def Option.bind_eq_Some_conv split: if_splits)

lemma parse_args_length:
  "parse_args p args = Some (r, p') \<Longrightarrow> length (pmem p') = length (pmem p)"
proof (induction p args rule: parse_args.induct)
  case (1 p args)
  from "1.prems" obtain e where e: "isempty p = Some e"
    by (subst (asm) parse_args.simps) (auto simp: Option.bind_eq_Some_conv)
  show ?case
  proof (cases e)
    case True
    with "1.prems" e show ?thesis by (simp add: parse_args.simps [of p])
  next
    case False
    with "1.prems" e obtain m p1 where m: "match (CHR '':'') p = Some (m, p1)"
      by (auto simp: parse_args.simps [of p] Option.bind_eq_Some_conv)
    show ?thesis
    proof (cases m)
      case True
      with "1.prems" e False m match_length [OF m] show ?thesis
        by (auto simp: parse_args.simps [of p] Option.bind_eq_Some_conv)
    next
      case m': False
      with "1.prems" e False m obtain w p2 v where
        w: "word p1 = Some (w, p2)" "strlen_view (pmem p2) w = Some v" "parse_args p2 (args @ [v]) = Some (r, p')"
        by (auto simp: parse_args.simps [of p] Option.bind_eq_Some_conv)
      from "1.IH" [OF e False m refl m' w(1) refl w(2,3)] word_length [OF w(1)] match_length [OF m]
      show ?thesis by simp
    qed
  qed
qed

lemma parse_body_length:
  assumes "parse_body tags p = Some (r, m)"
  shows "length m = length (pmem p)"
proof -
  from assms obtain colon p1 where c: "match (CHR '':'') p = Some (colon, p1)"
    by (auto simp: parse_body_def Option.bind_eq_Some_conv)
  from assms c obtain source p2 where
    s: "(if colon then do { (w, p) \<leftarrow> word p1; v \<leftarrow> strlen_view (pmem p) w; Some (v, p) }
        else Some ((0, 0), p1)) = Some (source, p2)"
    by (auto simp: parse_body_def Option.bind_eq_Some_conv)
  then have l2: "length (pmem p2) = length (pmem p1)"
    by (auto simp: Option.bind_eq_Some_conv split: if_splits dest: word_length)
  from assms c s obtain w p3 cmd where
    w: "word p2 = Some (w, p3)" "strlen_view (pmem p3) w = Some cmd"
    by (simp add: parse_body_def Option.bind_eq_Some_conv) blast
  from assms c s w have "length m = length (pmem p3)"
    by (auto simp: parse_body_def Option.bind_eq_Some_conv split: if_splits dest: parse_args_length)
  with match_length [OF c] l2 word_length [OF w(1)] show ?thesis by simp
qed

lemma parse_irc_message_length:
  assumes "parse_irc_message (Some (m, p)) = Some (r, m')"
  shows "length m' = length m"
proof -
  from assms obtain s where s: "parser_new (Some (m, p)) = Some s"
    by (auto simp: parse_irc_message_def Option.bind_eq_Some_conv)
  then have ls: "length (pmem s) = length m" by (auto dest: trim_bound)
  from assms s obtain at s1 where a: "match (CHR ''@'') s = Some (at, s1)"
    by (auto simp: parse_irc_message_def Option.bind_eq_Some_conv)
  from assms s a obtain tags s2 where
    t: "(if at then do { (w, p) \<leftarrow> word s1; (r, m) \<leftarrow> parse_irc_tags (pmem p) w []; Some (r, p\<lparr>pmem := m\<rparr>) }
        else Some (Inr [], s1)) = Some (tags, s2)"
    and b: "(case tags of Inl e \<Rightarrow> Some (Inl e, pmem s2) | Inr tags \<Rightarrow> parse_body tags s2) = Some (r, m')"
    unfolding parse_irc_message_def bind_pair_Some by (simp add: bind_pair_Some) blast
  from t have "length (pmem s2) = length (pmem s1)"
    by (auto simp: Option.bind_eq_Some_conv split: if_splits dest!: word_length parse_irc_tags_length)
  with b ls match_length [OF a] show ?thesis
    by (auto split: sum.splits dest: parse_body_length)
qed

text \<open>
  The inner loop of \<open>session_thread\<close>: the lines of one read, until the buffer holds no complete
  line or a message does not parse, which throws out of the coroutine.
\<close>

function process_lines ::
  "line_buffer \<Rightarrow> nat option \<Rightarrow> (session_event list \<times> irc_error_code option \<times> line_buffer) option" where
  "process_lines buff None = Some ([], None, buff)"
| "process_lines buff (Some line) =
     (case parse_irc_message (Some (lb_buffer buff, line)) of
        None \<Rightarrow> None
      | Some (Inl e, m) \<Rightarrow> Some ([], Some e, buff\<lparr>lb_buffer := m\<rparr>)
      | Some (Inr msg, m) \<Rightarrow>
          (case get_nonempty_line (buff\<lparr>lb_buffer := m\<rparr>) of
             None \<Rightarrow> None
           | Some (line, buff) \<Rightarrow> do {
               let ev = MSG (pushircmsg (deref_msg (lb_buffer buff) msg)) (line = None);
               (evs, e, buff) \<leftarrow> process_lines buff line;
               Some (ev # evs, e, buff)
             }))"
  by pat_completeness auto
termination
proof (relation "measure (\<lambda>(lb, line). case line of None \<Rightarrow> 0
    | Some _ \<Rightarrow> Suc (length (lb_buffer lb) - lb_search lb))", goal_cases)
  case (2 buff line a m r msg x1 lineo buff' ev)
  then show ?case
    by (cases lineo) (auto dest!: parse_irc_message_length get_nonempty_line_bound)
qed simp

declare process_lines.simps(2) [simp del]

text \<open>
  The outer loop.  Its result is the events so far and, when the coroutine has ended, the text
  of the exception that ended it; \<open>None\<close> is a session still waiting for its next read.
\<close>

function session_loop ::
  "line_buffer \<Rightarrow> (string + string) list \<Rightarrow> (session_event list \<times> string option) option" where
  "session_loop buff [] =
     (if snd (prepare buff) = 0 then Some ([], Some ''line buffer full'') else Some ([], None))"
| "session_loop buff (Inl e # rs) =
     (if snd (prepare buff) = 0 then Some ([], Some ''line buffer full'') else Some ([], Some e))"
| "session_loop buff (Inr bs # rs) =
     (let n = min (snd (prepare buff)) (length bs)
      in if snd (prepare buff) = 0 then Some ([], Some ''line buffer full'')
         else do {
           (line, buff) \<leftarrow> get_nonempty_line (commit n (receive (take n bs) buff));
           (evs, e, buff) \<leftarrow> process_lines buff line;
           (case e of
              Some e \<Rightarrow> Some (evs, Some (irc_parse_error_what e))
            | None \<Rightarrow> do {
                buff \<leftarrow> shift buff;
                (evs', fin) \<leftarrow> session_loop buff
                  (if n = length bs then rs else Inr (drop n bs) # rs);
                Some (evs @ evs', fin)
              })
         })"
  by pat_completeness auto
termination
proof (relation "measure (\<lambda>(lb, rs). sum_list (List.map (\<lambda>r. Suc (case r of Inl _ \<Rightarrow> 0 | Inr bs \<Rightarrow> length bs)) rs))",
    goal_cases)
  case 2
  then show ?case by (auto simp: min_def)
qed simp

definition irc_buffer_size :: nat where
  "irc_buffer_size = 131072"

text \<open>
  \<open>session_thread\<close> with the completion handler of its \<open>co_spawn\<close>: the result of
  \<open>connection::connect\<close> is an error text or the fingerprint.
\<close>

definition session_thread ::
  "string + string \<Rightarrow> (string + string) list \<Rightarrow> session_event list option" where
  "session_thread connected rs =
     (case connected of
        Inl e \<Rightarrow> Some [END (Some e)]
      | Inr fingerprint \<Rightarrow> do {
          (evs, fin) \<leftarrow> session_loop (LineBuffer_new irc_buffer_size) rs;
          Some (CON fingerprint # evs @ (case fin of None \<Rightarrow> [] | Some e \<Rightarrow> [END (Some e)]))
        })"

section \<open>What the session delivers\<close>

text \<open>The text of a line: up to the first NUL, less its line ending and leading spaces.\<close>

definition line_text :: "string \<Rightarrow> string" where
  "line_text l = spec_trim (takeWhile (\<lambda>c. c \<noteq> NUL) (chomp l))"

function next_nonempty :: "string \<Rightarrow> string + string \<times> string" where
  "next_nonempty s =
     (case split_at LF s of
        (_, None) \<Rightarrow> Inl s
      | (l, Some r) \<Rightarrow> if line_text l \<noteq> [] then Inr (line_text l, r) else next_nonempty r)"
  by pat_completeness auto
termination
  by (relation "measure length") (auto dest: sym split_at_length)

declare next_nonempty.simps [simp del]

lemma next_nonempty_length: "next_nonempty s = Inr (u, r) \<Longrightarrow> length r < length s"
proof (induction s rule: next_nonempty.induct)
  case (1 s)
  obtain l q where sp: "split_at LF s = (l, q)" by fastforce
  show ?case
  proof (cases q)
    case None
    with 1(2) sp show ?thesis by (simp add: next_nonempty.simps [of s])
  next
    case (Some x)
    then have "length x < length s" using sp split_at_length by blast
    with 1(2) 1(1) [OF sp [symmetric] Some] sp Some show ?thesis
      by (cases "line_text l = []") (auto simp: next_nonempty.simps [of s])
  qed
qed

function line_feed ::
  "string \<Rightarrow> (string ircmsg \<times> bool) list \<times> irc_error_code option \<times> string" where
  "line_feed s =
     (case next_nonempty s of
        Inl p \<Rightarrow> ([], None, p)
      | Inr (u, r) \<Rightarrow>
          (case spec_parse u of
             Inl e \<Rightarrow> ([], Some e, r)
           | Inr msg \<Rightarrow> (case line_feed r of (ms, e, p) \<Rightarrow>
               ((msg, isl (next_nonempty r)) # ms, e, p))))"
  by pat_completeness auto
termination
  by (relation "measure length") (auto dest: next_nonempty_length)

declare line_feed.simps [simp del]

lemma cut_line_text:
  "\<exists>x. cut_line l = takeWhile (\<lambda>c. c \<noteq> NUL) (chomp l) @ NUL # x"
proof -
  obtain r where r: "cut_line l = chomp l @ NUL # r" using cut_line_chomp by blast
  show ?thesis
  proof (cases "NUL \<in> set (chomp l)")
    case True
    then obtain a b where "chomp l = a @ NUL # b" "NUL \<notin> set a" by (meson split_list_first)
    with r show ?thesis by auto
  next
    case False
    with r show ?thesis by auto
  qed
qed

lemma get_nonempty_line_at:
  "lb_at lb pre s free \<Longrightarrow>
   (case next_nonempty s of
      Inl p \<Rightarrow> \<exists>lb' d. get_nonempty_line lb = Some (None, lb') \<and> lb_at lb' (pre @ d) p free \<and>
        length d + length p = length s
    | Inr (u, r) \<Rightarrow> \<exists>lb' d x. get_nonempty_line lb = Some (Some (length (pre @ d)), lb') \<and>
        lb_at lb' (pre @ d @ u @ NUL # x) r free \<and> NUL \<notin> set u \<and> u \<noteq> [] \<and>
        length (d @ u @ NUL # x) + length r = length s)"
proof (induction s arbitrary: lb pre rule: next_nonempty.induct)
  case (1 s)
  obtain l q where sp: "split_at LF s = (l, q)" by fastforce
  show ?case
  proof (cases q)
    case None
    then have "LF \<notin> set s" using sp by (auto dest: split_at_None)
    from next_line_none [OF "1.prems" this] sp None show ?thesis
      by (auto simp: next_nonempty.simps [of s] get_nonempty_line.simps [of lb] intro!: exI [of _ "[]"])
  next
    case (Some r)
    then have s: "s = l @ LF # r" "LF \<notin> set l" using sp split_at_Some by blast+
    from next_line_some [of lb pre l r free] "1.prems" s obtain lb1 where
      n: "next_line lb = Some (Some (length pre), lb1)" and at: "lb_at lb1 (pre @ cut_line l) r free"
      by auto
    define w where "w = takeWhile (\<lambda>c. c \<noteq> NUL) (chomp l)"
    obtain x where x: "cut_line l = w @ NUL # x" using cut_line_text unfolding w_def by blast
    define a where "a = takeWhile (\<lambda>c. c = SP) w"
    have w: "w = a @ line_text l" by (simp add: a_def line_text_def w_def spec_trim_def)
    have nw: "NUL \<notin> set w" by (simp add: w_def)
    have la: "list_all (\<lambda>c. c = SP) a" by (auto simp: a_def list_all_iff dest: set_takeWhileP)
    obtain c y where c: "line_text l @ NUL # x @ r @ free = c # y" "c \<noteq> SP"
      "c = NUL \<longleftrightarrow> line_text l = []"
    proof (cases "line_text l")
      case Nil
      with that show ?thesis by auto
    next
      case (Cons c cs)
      then have "c \<noteq> SP" by (auto simp: line_text_def spec_trim_def dropWhile_eq_Cons_conv)
      moreover have "c \<noteq> NUL" using nw by (auto simp: w Cons)
      ultimately show ?thesis using that Cons by auto
    qed
    have buf: "lb_buffer lb1 = pre @ a @ c # y"
      using at x by (simp add: lb_at_def w c(1))
    have scan: "scan (\<lambda>c. c = SP) (lb_buffer lb1) (length pre) = Some (length pre + length a)"
      unfolding buf using scan_app [OF la, of c pre y] c(2) by simp
    have rd: "rd (lb_buffer lb1) (length pre + length a) = Some c"
      unfolding buf using rd_append_here [of "pre @ a" c y] by simp
    have g: "get_nonempty_line lb = (if c \<noteq> NUL then Some (Some (length pre + length a), lb1) else get_nonempty_line lb1)"
      using n scan rd by (subst get_nonempty_line.simps) simp
    have len: "length (cut_line l) + length r = length s" by (simp add: s)
    show ?thesis
    proof (cases "line_text l = []")
      case True
      with c(3) have g': "get_nonempty_line lb = get_nonempty_line lb1" using g by simp
      have nn: "next_nonempty s = next_nonempty r"
        using sp Some True by (simp add: next_nonempty.simps [of s])
      show ?thesis
      proof (cases "next_nonempty r")
        case (Inl p)
        with "1.IH" [OF sp [symmetric] Some _ at] True obtain lb' d where
          "get_nonempty_line lb1 = Some (None, lb')" "lb_at lb' ((pre @ cut_line l) @ d) p free"
          "length d + length p = length r"
          by auto
        with g' nn Inl len show ?thesis by (auto intro!: exI [of _ "cut_line l @ d"])
      next
        case (Inr ur)
        obtain u r' where ur: "ur = (u, r')" by (cases ur)
        with "1.IH" [OF sp [symmetric] Some _ at] True Inr obtain lb' d x' where
          "get_nonempty_line lb1 = Some (Some (length ((pre @ cut_line l) @ d)), lb')"
          "lb_at lb' ((pre @ cut_line l) @ d @ u @ NUL # x') r' free" "NUL \<notin> set u" "u \<noteq> []"
          "length (d @ u @ NUL # x') + length r' = length r"
          by auto
        then have "get_nonempty_line lb = Some (Some (length (pre @ cut_line l @ d)), lb') \<and>
            lb_at lb' (pre @ (cut_line l @ d) @ u @ NUL # x') r' free \<and> NUL \<notin> set u \<and> u \<noteq> [] \<and>
            length ((cut_line l @ d) @ u @ NUL # x') + length r' = length s"
          using g' len by simp
        then show ?thesis unfolding nn Inr ur sum.case prod.case by blast
      qed
    next
      case False
      then have "next_nonempty s = Inr (line_text l, r)"
        using sp Some by (simp add: next_nonempty.simps [of s])
      moreover have "lb_at lb1 (pre @ a @ line_text l @ NUL # x) r free" using at x w by simp
      moreover have "NUL \<notin> set (line_text l)" using nw w by simp
      moreover have "length (a @ line_text l @ NUL # x) + length r = length s"
        using len x w by simp
      ultimately show ?thesis using g c(3) False
        by simp (rule exI [of _ a], simp, rule exI [of _ x], simp)
    qed
  qed
qed

lemma deref_reads: "reads m v s \<Longrightarrow> deref m v = s"
  by (simp add: reads_def deref_def)

lemma deref_reads_tag: "reads_tag m v t \<Longrightarrow> deref_tag m v = t"
  by (simp add: reads_tag_def deref_tag_def deref_reads)

lemma list_all2_map_eq: "list_all2 P xs ys \<Longrightarrow> (\<And>x y. P x y \<Longrightarrow> f x = y) \<Longrightarrow> List.map f xs = ys"
  by (induction rule: list_all2_induct) auto

lemma deref_reads_msg:
  assumes "reads_msg m v t"
  shows "deref_msg (m @ y) v = t"
proof -
  have "list_all2 (reads_tag (m @ y)) (msg_tags v) (msg_tags t)"
    "list_all2 (reads (m @ y)) (msg_args v) (msg_args t)"
    using assms by (auto simp: reads_msg_def intro: reads_tags_append list_all2_reads_append)
  then have "List.map (deref_tag (m @ y)) (msg_tags v) = msg_tags t"
    "List.map (deref (m @ y)) (msg_args v) = msg_args t"
    by (auto elim!: list_all2_map_eq intro: deref_reads deref_reads_tag)
  with assms show ?thesis
    by (cases t) (auto simp: deref_msg_def reads_msg_def intro: deref_reads reads_append)
qed

abbreviation msg_events :: "(string ircmsg \<times> bool) list \<Rightarrow> session_event list" where
  "msg_events ms \<equiv> List.map (\<lambda>(msg, redraw). MSG (pushircmsg msg) redraw) ms"

definition feed_from ::
  "string \<Rightarrow> string \<Rightarrow> (string ircmsg \<times> bool) list \<times> irc_error_code option \<times> string" where
  "feed_from u r =
     (case spec_parse u of
        Inl e \<Rightarrow> ([], Some e, r)
      | Inr msg \<Rightarrow> (case line_feed r of (ms, e, p) \<Rightarrow>
          ((msg, isl (next_nonempty r)) # ms, e, p)))"

lemma line_feed_from: "next_nonempty s = Inr (u, r) \<Longrightarrow> line_feed s = feed_from u r"
  by (simp add: line_feed.simps [of s] feed_from_def)

lemma process_lines_at:
  "lb_at lb (pre @ u @ NUL # x) r free \<Longrightarrow> NUL \<notin> set u \<Longrightarrow> feed_from u r = (ms, e, p) \<Longrightarrow>
   \<exists>lb' pre'. process_lines lb (Some (length pre)) = Some (msg_events ms, e, lb') \<and>
     (e = None \<longrightarrow> lb_at lb' pre' p free \<and> length pre' + length p = length (pre @ u @ NUL # x) + length r)"
proof (induction "length r" arbitrary: lb pre u x r ms rule: less_induct)
  case less
  from less.prems(1) have buf: "lb_buffer lb = pre @ u @ NUL # x @ r @ free" by (simp add: lb_at_def)
  from parse_irc_message_app [OF less.prems(2), of pre "x @ r @ free"] obtain res u' where
    parse: "parse_irc_message (Some (lb_buffer lb, length pre)) = Some (res, pre @ u' @ NUL # x @ r @ free)"
      "length u' = length u"
      "case spec_parse u of Inl e \<Rightarrow> res = Inl e | Inr msg \<Rightarrow> \<exists>v. res = Inr v \<and> reads_msg (pre @ u') v msg"
    unfolding buf by blast
  show ?case
  proof (cases "spec_parse u")
    case (Inl err)
    with parse less.prems(3) show ?thesis
      by (auto simp: process_lines.simps(2) feed_from_def)
  next
    case (Inr msg)
    with parse obtain v where v: "res = Inr v" "reads_msg (pre @ u') v msg" by auto
    let ?pre = "pre @ u' @ NUL # x"
    let ?lb = "lb\<lparr>lb_buffer := pre @ u' @ NUL # x @ r @ free\<rparr>"
    have at: "lb_at ?lb ?pre r free" using less.prems(1) parse(2) by (auto simp: lb_at_def)
    show ?thesis
    proof (cases "next_nonempty r")
      case (Inl q)
      with get_nonempty_line_at [OF at] obtain lb' d where
        g: "get_nonempty_line ?lb = Some (None, lb')" "lb_at lb' (?pre @ d) q free" "length d + length q = length r"
        by auto
      have "lb_buffer lb' = (pre @ u') @ NUL # x @ d @ q @ free" using g(2) by (simp add: lb_at_def)
      then have "deref_msg (lb_buffer lb') v = msg" using deref_reads_msg [OF v(2)] by metis
      moreover have "ms = [(msg, True)]" "e = None" "p = q"
        using less.prems(3) Inr Inl by (auto simp: feed_from_def line_feed.simps [of r])
      ultimately show ?thesis using parse(1,2) v(1) g
        by (simp add: process_lines.simps(2)) (rule exI [of _ "?pre @ d"], simp)
    next
      case (Inr ur)
      obtain u2 r2 where ur: "ur = (u2, r2)" by (cases ur)
      with Inr get_nonempty_line_at [OF at] obtain lb' d x2 where
        g: "get_nonempty_line ?lb = Some (Some (length (?pre @ d)), lb')"
          "lb_at lb' ((?pre @ d) @ u2 @ NUL # x2) r2 free" "NUL \<notin> set u2"
          "length (d @ u2 @ NUL # x2) + length r2 = length r"
        by auto
      have "lb_buffer lb' = (pre @ u') @ NUL # x @ d @ u2 @ NUL # x2 @ r2 @ free" using g(2) by (simp add: lb_at_def)
      then have d: "deref_msg (lb_buffer lb') v = msg" using deref_reads_msg [OF v(2)] by metis
      obtain ms2 where f: "feed_from u2 r2 = (ms2, e, p)" "ms = (msg, False) # ms2"
        using less.prems(3) \<open>spec_parse u = Inr msg\<close> Inr ur line_feed_from [of r u2 r2]
        by (auto simp: feed_from_def [of u r] split: prod.splits)
      have "length r2 < length r" using Inr ur next_nonempty_length by blast
      from less.hyps [OF this g(2,3) f(1)] obtain lb2 pre2 where
        ih: "process_lines lb' (Some (length (?pre @ d))) = Some (msg_events ms2, e, lb2)"
          "e = None \<longrightarrow> lb_at lb2 pre2 p free \<and>
            length pre2 + length p = length ((?pre @ d) @ u2 @ NUL # x2) + length r2"
        by blast
      have "process_lines lb (Some (length pre)) = Some (msg_events ms, e, lb2)"
        unfolding process_lines.simps(2) parse(1) v(1) using g(1) ih(1) d f(2) by simp
      moreover have "e = None \<longrightarrow> lb_at lb2 pre2 p free \<and>
          length pre2 + length p = length (pre @ u @ NUL # x) + length r"
        using ih(2) g(4) parse(2) by auto
      ultimately show ?thesis by blast
    qed
  qed
qed

text \<open>One read: the lines it completes, whatever it leaves pending.\<close>

lemma chunk_at:
  assumes "lb_at lb pre t free" "line_feed t = (ms, e, p)"
  shows "\<exists>line lb2 lb3. get_nonempty_line lb = Some (line, lb2) \<and>
    process_lines lb2 line = Some (msg_events ms, e, lb3) \<and>
    (e = None \<longrightarrow> (\<exists>pre'. lb_at lb3 pre' p free \<and> length pre' + length p = length pre + length t))"
proof (cases "next_nonempty t")
  case (Inl q)
  with get_nonempty_line_at [OF assms(1)] obtain lb' d where
    "get_nonempty_line lb = Some (None, lb')" "lb_at lb' (pre @ d) q free" "length d + length q = length t"
    by auto
  moreover have "ms = []" "e = None" "p = q"
    using Inl assms(2) by (simp_all add: line_feed.simps [of t])
  ultimately show ?thesis by simp (rule exI [of _ "pre @ d"], simp)
next
  case (Inr ur)
  obtain u r where ur: "ur = (u, r)" by (cases ur)
  with Inr get_nonempty_line_at [OF assms(1)] obtain lb' d x where
    g: "get_nonempty_line lb = Some (Some (length (pre @ d)), lb')"
      "lb_at lb' ((pre @ d) @ u @ NUL # x) r free" "NUL \<notin> set u"
      "length (d @ u @ NUL # x) + length r = length t"
    by auto
  have "feed_from u r = (ms, e, p)" using Inr ur assms(2) line_feed_from by simp
  from process_lines_at [OF g(2,3) this] obtain lb3 pre' where
    "process_lines lb' (Some (length (pre @ d))) = Some (msg_events ms, e, lb3)"
    "e = None \<longrightarrow> lb_at lb3 pre' p free \<and> length pre' + length p = length ((pre @ d) @ u @ NUL # x) + length r"
    by blast
  with g(1,4) show ?thesis by auto
qed

lemma line_feed_skip:
  "split_at LF s = (l, Some r) \<Longrightarrow> line_text l = [] \<Longrightarrow> line_feed s = line_feed r"
  by (simp add: line_feed.simps [of s] line_feed.simps [of r] next_nonempty.simps [of s])

lemma line_feed_line:
  "split_at LF s = (l, Some r) \<Longrightarrow> line_text l \<noteq> [] \<Longrightarrow> line_feed s = feed_from (line_text l) r"
  by (rule line_feed_from) (simp add: next_nonempty.simps [of s])

lemma line_feed_none: "split_at LF s = (l, None) \<Longrightarrow> line_feed s = ([], None, s)"
  by (simp add: line_feed.simps [of s] next_nonempty.simps [of s])

lemma line_feed_induct [case_names none skip line]:
  assumes "\<And>s l. split_at LF s = (l, None) \<Longrightarrow> P s"
    and "\<And>s l r. split_at LF s = (l, Some r) \<Longrightarrow> line_text l = [] \<Longrightarrow> P r \<Longrightarrow> P s"
    and "\<And>s l r. split_at LF s = (l, Some r) \<Longrightarrow> line_text l \<noteq> [] \<Longrightarrow> P r \<Longrightarrow> P s"
  shows "P s"
proof (induction "length s" arbitrary: s rule: less_induct)
  case less
  obtain l q where sp: "split_at LF s = (l, q)" by fastforce
  show ?case
  proof (cases q)
    case None
    with sp assms(1) show ?thesis by blast
  next
    case (Some r)
    with sp have "length r < length s" using split_at_length by blast
    from less [OF this] sp Some assms(2,3) show ?thesis by blast
  qed
qed

lemma line_feed_pending: "line_feed s = (ms, None, p) \<Longrightarrow> LF \<notin> set p"
proof (induction s arbitrary: ms rule: line_feed_induct)
  case (none s l)
  then show ?case using split_at_None [OF none(1)] by (simp add: line_feed_none)
next
  case (skip s l r)
  then show ?case by (simp add: line_feed_skip)
next
  case (line s l r)
  then show ?case
    by (auto simp: line_feed_line feed_from_def split: sum.splits prod.splits)
qed

text \<open>Exactly the last message of a read asks for a redraw.\<close>

lemma next_nonempty_flag: "isl (next_nonempty r) \<Longrightarrow> line_feed r = (ms, e, p) \<Longrightarrow> ms = []"
  by (auto simp: line_feed.simps [of r] isl_def)

lemma line_feed_flags:
  "line_feed s = (ms, None, p) \<Longrightarrow> ms \<noteq> [] \<Longrightarrow> List.map snd ms = replicate (length ms - 1) False @ [True]"
proof (induction s arbitrary: ms rule: line_feed_induct)
  case (none s l)
  then show ?case by (simp add: line_feed_none)
next
  case (skip s l r)
  then show ?case by (simp add: line_feed_skip)
next
  case (line s l r)
  then obtain msg ms' where
    m: "ms = (msg, isl (next_nonempty r)) # ms'" "line_feed r = (ms', None, p)"
    by (auto simp: line_feed_line feed_from_def split: sum.splits prod.splits)
  show ?case
  proof (cases "ms' = []")
    case True
    then have "isl (next_nonempty r)"
      using m(2) by (auto simp: line_feed.simps [of r] split: sum.splits prod.splits)
    with True m show ?thesis by simp
  next
    case False
    then have "\<not> (isl (next_nonempty r))" using m(2) next_nonempty_flag by blast
    with False m line(3) [OF m(2) False] show ?thesis
      by (cases ms') simp_all
  qed
qed

section \<open>The session does not depend on the chunks\<close>

text \<open>What the bytes of a whole connection mean, for a buffer of \<open>N\<close> bytes.\<close>

function spec_stream :: "nat \<Rightarrow> string \<Rightarrow> string ircmsg list \<times> string option" where
  "spec_stream N s =
     (case split_at LF s of (l, rest) \<Rightarrow>
        if N \<le> length l then ([], Some ''line buffer full'')
        else (case rest of
                None \<Rightarrow> ([], None)
              | Some r \<Rightarrow>
                  if line_text l = [] then spec_stream N r
                  else (case spec_parse (line_text l) of
                          Inl e \<Rightarrow> ([], Some (irc_parse_error_what e))
                        | Inr msg \<Rightarrow> (case spec_stream N r of (ms, fin) \<Rightarrow> (msg # ms, fin)))))"
  by pat_completeness auto
termination
  by (relation "measure (\<lambda>(N, s). length s)") (auto dest: sym split_at_length)

declare spec_stream.simps [simp del]

lemma split_at_append: "split_at d t = (l, Some r) \<Longrightarrow> split_at d (t @ s) = (l, Some (r @ s))"
proof -
  assume "split_at d t = (l, Some r)"
  then have "t = l @ d # r" "d \<notin> set l" using split_at_Some by blast+
  then show ?thesis using split_at_here [of d l "r @ s"] by simp
qed

lemma spec_stream_feed:
  "line_feed t = (ms, e, p) \<Longrightarrow> length t \<le> N \<Longrightarrow>
   spec_stream N (t @ s) =
     (case e of
        Some x \<Rightarrow> (List.map fst ms, Some (irc_parse_error_what x))
      | None \<Rightarrow> (case spec_stream N (p @ s) of (ms', fin) \<Rightarrow> (List.map fst ms @ ms', fin)))"
proof (induction t arbitrary: ms rule: line_feed_induct)
  case (none t l)
  then show ?case by (simp add: line_feed_none split: prod.splits)
next
  case (skip t l r)
  then have "length l < N" "length r \<le> N" by (auto dest!: split_at_Some)
  with skip show ?case
    by (simp add: line_feed_skip spec_stream.simps [of N "t @ s"] split_at_append)
next
  case (line t l r)
  then have "length l < N" "length r \<le> N" by (auto dest!: split_at_Some)
  with line show ?case
    by (auto simp: line_feed_line feed_from_def spec_stream.simps [of N "t @ s"] split_at_append
        split: sum.splits prod.splits option.splits)
qed

fun bytes_of :: "(string + string) list \<Rightarrow> string" where
  "bytes_of [] = []"
| "bytes_of (Inl e # rs) = []"
| "bytes_of (Inr bs # rs) = bs @ bytes_of rs"

fun first_error :: "(string + string) list \<Rightarrow> string option" where
  "first_error [] = None"
| "first_error (Inl e # rs) = Some e"
| "first_error (Inr bs # rs) = first_error rs"

lemma spec_stream_pending:
  "LF \<notin> set p \<Longrightarrow> spec_stream N p = ([], if N \<le> length p then Some ''line buffer full'' else None)"
  by (simp add: spec_stream.simps [of N p] split_at_absent)

lemma spec_stream_full:
  assumes "LF \<notin> set p" "length p = N"
  shows "spec_stream N (p @ s) = ([], Some ''line buffer full'')"
proof -
  obtain l r where sp: "split_at LF (p @ s) = (l, r)" by fastforce
  then have "l = p @ takeWhile (\<lambda>c. c \<noteq> LF) s"
    using assms(1) by (auto simp: split_at_def intro!: takeWhile_append2)
  with assms(2) sp show ?thesis by (simp add: spec_stream.simps [of N "p @ s"])
qed

lemma session_loop_at:
  "lb_at lb [] p free \<Longrightarrow> length p + length free = N \<Longrightarrow> LF \<notin> set p \<Longrightarrow>
   \<exists>ms fin. session_loop lb rs = Some (msg_events ms, fin) \<and>
     List.map fst ms = fst (spec_stream N (p @ bytes_of rs)) \<and>
     fin = (case snd (spec_stream N (p @ bytes_of rs)) of Some x \<Rightarrow> Some x | None \<Rightarrow> first_error rs)"
proof (induction lb rs arbitrary: p free rule: session_loop.induct)
  case (1 lb)
  then show ?case by (auto simp: lb_at_prepare [OF 1(1)] spec_stream_pending)
next
  case (2 lb e rs)
  then show ?case by (auto simp: lb_at_prepare [OF 2(1)] spec_stream_pending)
next
  case (3 lb bs rs)
  note prep = lb_at_prepare [OF "3.prems"(1)]
  show ?case
  proof (cases "free = []")
    case True
    with 3 prep show ?thesis by (simp add: spec_stream_full)
  next
    case False
    define n where "n = min (length free) (length bs)"
    have n': "n = min (snd (prepare lb)) (length bs)" by (simp add: n_def prep)
    have sz: "snd (prepare lb) \<noteq> 0" using False prep by simp
    let ?t = "p @ take n bs"
    let ?rest = "if n = length bs then rs else Inr (drop n bs) # rs"
    have tl: "length (take n bs) = n" "length ?t \<le> N" "n \<le> length free"
      using "3.prems"(2) by (simp_all add: n_def)
    have at: "lb_at (commit n (receive (take n bs) lb)) [] ?t (drop n free)"
      using lb_at_receive [OF "3.prems"(1), of "take n bs"] tl by simp
    obtain ms e q where feed: "line_feed ?t = (ms, e, q)" by (cases "line_feed ?t") auto
    from chunk_at [OF at feed] obtain line lb2 lb3 where
      g: "get_nonempty_line (commit n (receive (take n bs) lb)) = Some (line, lb2)" and
      pl: "process_lines lb2 line = Some (msg_events ms, e, lb3)" and
      at3: "e = None \<longrightarrow> (\<exists>pre'. lb_at lb3 pre' q (drop n free) \<and>
        length pre' + length q = length ([] :: string) + length ?t)"
      by blast
    have bytes: "p @ bytes_of (Inr bs # rs) = ?t @ bytes_of ?rest"
      "first_error (Inr bs # rs) = first_error ?rest"
      by auto
    note stream = spec_stream_feed [OF feed tl(2), of "bytes_of ?rest"]
    show ?thesis
    proof (cases e)
      case (Some x)
      have "session_loop lb (Inr bs # rs) = Some (msg_events ms, Some (irc_parse_error_what x))"
        using sz g pl Some by (simp add: n' [symmetric])
      with stream Some bytes show ?thesis
        by (intro exI [of _ ms] exI [of _ "Some (irc_parse_error_what x)"]) (simp del: session_loop.simps)
    next
      case None
      with at3 obtain pre' where
        a3: "lb_at lb3 pre' q (drop n free)" "length pre' + length q = length ?t" by auto
      from shift_at [OF a3(1)] obtain lb4 free' where
        sh: "shift lb3 = Some lb4" "lb_at lb4 [] q free'" "length free' = length pre' + length (drop n free)"
        by blast
      have N: "length q + length free' = N" using sh(3) a3(2) "3.prems"(2) tl by simp
      have "LF \<notin> set q" using feed None line_feed_pending by blast
      from "3.IH" [OF n' sz g refl pl refl refl None sh(1) sh(2) N this] obtain ms' fin where
        ih: "session_loop lb4 ?rest = Some (msg_events ms', fin)"
          "List.map fst ms' = fst (spec_stream N (q @ bytes_of ?rest))"
          "fin = (case snd (spec_stream N (q @ bytes_of ?rest)) of Some x \<Rightarrow> Some x | None \<Rightarrow> first_error ?rest)"
        by blast
      have sl: "session_loop lb (Inr bs # rs) = Some (msg_events (ms @ ms'), fin)"
        using sz g pl None sh(1) ih(1) by (simp add: n' [symmetric])
      obtain ms2 fin2 where s2: "spec_stream N (q @ bytes_of ?rest) = (ms2, fin2)" by fastforce
      have "spec_stream N (p @ bytes_of (Inr bs # rs)) = (List.map fst ms @ ms2, fin2)"
        unfolding bytes(1) stream None s2 by simp
      then show ?thesis unfolding bytes(2) using sl ih(2,3) unfolding s2
        by (intro exI [of _ "ms @ ms'"] exI [of _ fin]) (simp del: session_loop.simps first_error.simps)
    qed
  qed
qed

section \<open>Properties\<close>

text \<open>
  C2: what a session delivers.  Whatever the reads, the coroutine never leaves its buffer, returns,
  and calls the callback with \<open>CON\<close>, then one \<open>MSG\<close> per non-empty line of the concatenated bytes,
  in order and with the parsed message, then (once it has ended) \<open>END\<close> with the first of: a line
  that does not parse, a line that does not fit in the buffer, the error of the stream.  How the
  network split the bytes into reads does not show.
\<close>

theorem session_delivers_stream:
  "\<exists>ms fin. session_thread (Inr fp) rs =
      Some (CON fp # msg_events ms @ (case fin of None \<Rightarrow> [] | Some e \<Rightarrow> [END (Some e)])) \<and>
    List.map fst ms = fst (spec_stream irc_buffer_size (bytes_of rs)) \<and>
    fin = (case snd (spec_stream irc_buffer_size (bytes_of rs)) of Some x \<Rightarrow> Some x | None \<Rightarrow> first_error rs)"
proof -
  obtain ms fin where
    "session_loop (LineBuffer_new irc_buffer_size) rs = Some (msg_events ms, fin)"
    "List.map fst ms = fst (spec_stream irc_buffer_size (bytes_of rs))"
    "fin = (case snd (spec_stream irc_buffer_size (bytes_of rs)) of Some x \<Rightarrow> Some x | None \<Rightarrow> first_error rs)"
    using session_loop_at [OF lb_at_new [of irc_buffer_size], of irc_buffer_size rs]
    by (simp del: replicate.simps) blast
  then show ?thesis
    by (intro exI [of _ ms] exI [of _ fin]) (simp add: session_thread_def)
qed

text \<open>The grammar \<open>(CON MSG*)? END\<close>, with the suffix still to come for a session under way.\<close>

fun after_con :: "session_event list \<Rightarrow> bool" where
  "after_con [] = True"
| "after_con (CON _ # _) = False"
| "after_con (MSG _ _ # evs) = after_con evs"
| "after_con (END _ # evs) = (evs = [])"

fun callback_sequence :: "session_event list \<Rightarrow> bool" where
  "callback_sequence (CON _ # evs) = after_con evs"
| "callback_sequence (END _ # evs) = (evs = [])"
| "callback_sequence _ = False"

lemma after_con_msgs: "after_con (msg_events ms @ evs) = after_con evs"
  by (induction ms) auto

text \<open>
  the callback sequence documented for \<open>l_start_irc\<close>, \<open>(CON MSG*)? END\<close>: no message before the
  connection is reported, at most one \<open>CON\<close>, and nothing after \<open>END\<close>; a failed connection attempt
  is a single \<open>END\<close>.
\<close>

theorem session_callback_sequence:
  "\<exists>evs. session_thread c rs = Some evs \<and> callback_sequence evs"
proof (cases c)
  case (Inl e)
  then show ?thesis by (simp add: session_thread_def)
next
  case (Inr fp)
  obtain ms fin where
    "session_loop (LineBuffer_new irc_buffer_size) rs = Some (msg_events ms, fin)"
    using session_loop_at [OF lb_at_new [of irc_buffer_size], of irc_buffer_size rs]
    by (simp del: replicate.simps) blast
  with Inr show ?thesis by (auto simp: session_thread_def after_con_msgs split: option.splits)
qed

text \<open>
  when all lines of a read parse, exactly the last message event of the read asks for a redraw,
  although each message is pushed before the lines after it have been looked at.
\<close>

theorem redraw_on_last_message:
  assumes "lb_at lb pre t free" "get_nonempty_line lb = Some (line, lb2)"
    and "process_lines lb2 line = Some (evs, None, lb3)" "evs \<noteq> []"
  shows "\<exists>ms. evs = List.map (\<lambda>(msg, redraw). MSG (pushircmsg msg) redraw) ms \<and>
    List.map snd ms = replicate (length evs - 1) False @ [True]"
proof -
  obtain ms e p where f: "line_feed t = (ms, e, p)" by (cases "line_feed t") auto
  from chunk_at [OF assms(1) f] assms(2,3) have "evs = msg_events ms" "e = None" by auto
  with f assms(4) line_feed_flags [of t ms p] show ?thesis by auto
qed

lemma redraw_on_last_message_witness:
  "\<exists>lb line lb2 evs lb3. lb = commit 7 (receive [CHR ''A'', CR, LF, CR, LF, CHR ''B'', LF] (LineBuffer_new 9)) \<and>
     get_nonempty_line lb = Some (line, lb2) \<and> process_lines lb2 line = Some (evs, None, lb3) \<and> length evs = 2 \<and>
     (\<exists>ms. evs = List.map (\<lambda>(msg, redraw). MSG (pushircmsg msg) redraw) ms \<and>
       List.map snd ms = replicate (length evs - 1) False @ [True])"
proof -
  let ?t = "[CHR ''A'', CR, LF, CR, LF, CHR ''B'', LF]"
  let ?lb = "commit 7 (receive ?t (LineBuffer_new 9))"
  have at: "lb_at ?lb [] ?t (drop 7 (replicate 9 NUL))"
    using lb_at_receive [OF lb_at_new [of 9], of ?t] by (simp add: numeral_eq_Suc)
  obtain ms e p where f: "line_feed ?t = (ms, e, p)" by (cases "line_feed ?t") auto
  have "fst (snd (line_feed ?t)) = None \<and> length (fst (line_feed ?t)) = 2" by code_simp
  with f have "e = None \<and> length ms = 2" by simp
  moreover from chunk_at [OF at f] obtain line lb2 lb3 where
    c: "get_nonempty_line ?lb = Some (line, lb2)" "process_lines lb2 line = Some (msg_events ms, e, lb3)"
    by blast
  ultimately have "process_lines lb2 line = Some (msg_events ms, None, lb3)" "msg_events ms \<noteq> []"
    "length (msg_events ms) = 2"
    by auto
  with c(1) redraw_on_last_message [OF at c(1) this(1,2)] show ?thesis by blast
qed

text \<open>
  a repeated tag key keeps the value of its last occurrence, every other key its only value, and
  a key that was not sent is absent.
\<close>

theorem pushtags_last_wins:
  "map_of (pushtags tags) k = map_of (rev (List.map (\<lambda>t. (tag_key t, tag_val t)) tags)) k"
proof -
  have "map_of (fold (\<lambda>tag. AList.update (tag_key tag) (tag_val tag)) ts al) =
      map_of al ++ map_of (rev (List.map (\<lambda>t. (tag_key t, tag_val t)) ts))" for ts al
    by (induction ts arbitrary: al) (auto simp: update_conv' map_add_def fun_eq_iff split: option.splits)
  from this [of tags "[]"] show ?thesis by (simp add: pushtags_def)
qed

text \<open>
  the command of a message becomes a Lua integer exactly when it is an optional minus sign and
  decimal digits, nothing else, with a value a \<open>lua_Integer\<close> can hold; any other command, such as an
  out-of-range number, is pushed as the string it is.
\<close>

theorem push_command_iff:
  "push_command cmd =
     (let neg = (\<exists>r. cmd = CHR ''-'' # r);
          ds = (if neg then tl cmd else cmd);
          v = (if neg then - digits_val ds else digits_val ds)
      in if ds \<noteq> [] \<and> list_all is_digit ds \<and> - (2 ^ 63) \<le> v \<and> v < 2 ^ 63 then Inl v else Inr cmd)"
proof -
  define neg where "neg = (\<exists>r. cmd = CHR ''-'' # r)"
  define ds where "ds = (if neg then tl cmd else cmd)"
  have c: "(case cmd of c # r \<Rightarrow> if c = CHR ''-'' then (True, r) else (False, cmd) | [] \<Rightarrow> (False, cmd)) = (neg, ds)"
    by (auto simp: neg_def ds_def split: list.splits)
  have all: "dropWhile is_digit ds = [] \<longleftrightarrow> list_all is_digit ds"
    by (auto simp: dropWhile_eq_Nil_conv list_all_iff)
  have tw: "list_all is_digit ds \<Longrightarrow> takeWhile is_digit ds = ds"
    by (auto simp: list_all_iff)
  have "push_command cmd =
     (if ds \<noteq> [] \<and> list_all is_digit ds \<and> - (2 ^ 63) \<le> (if neg then - digits_val ds else digits_val ds) \<and>
        (if neg then - digits_val ds else digits_val ds) < 2 ^ 63
      then Inl (if neg then - digits_val ds else digits_val ds) else Inr cmd)"
  proof (cases "list_all is_digit ds")
    case True
    with all show ?thesis
      unfolding push_command_def from_chars_def c Let_def prod.case tw [OF True] by simp
  next
    case False
    with all show ?thesis
      unfolding push_command_def from_chars_def c by (auto simp: Let_def)
  qed
  then show ?thesis unfolding Let_def neg_def [symmetric] ds_def [symmetric] .
qed

end
