(* ===== verification/Socks5.thy ===== *)
theory Socks5
  imports Prelude
begin

unbundle bit_operations_syntax

text \<open>
  \<open>mysocks5/include/socks5.hpp\<close> and \<open>socks5.cpp\<close>: the client side of the SOCKS5 handshake.

  A protocol state is a constructor of \<open>pstate\<close> (the tag types of \<open>SocksImplementation\<close>), an
  overload of \<open>step\<close> is a case of the function \<open>step\<close>.  A step ends by starting one asynchronous
  operation or by completing; these are the values of \<open>action\<close>.  \<open>socks_run\<close> composes the steps
  over a connection: the bytes the server sends before it closes, and a fault for each operation
  that fails.
\<close>

section \<open>Errors\<close>

datatype SocksErrc =
    Succeeded | GeneralFailure | NotAllowed | NetworkUnreachable | HostUnreachable
  | ConnectionRefused | TtlExpired | CommandNotSupported | AddressNotSupported
  | WrongVersion | NoAcceptableMethods | AuthenticationFailed | UnsupportedEndpointAddress
  | DomainTooLong | UsernameTooLong | PasswordTooLong
  | OtherErrc int

fun errc_int :: "SocksErrc \<Rightarrow> int" where
  "errc_int Succeeded = 0"
| "errc_int GeneralFailure = 1"
| "errc_int NotAllowed = 2"
| "errc_int NetworkUnreachable = 3"
| "errc_int HostUnreachable = 4"
| "errc_int ConnectionRefused = 5"
| "errc_int TtlExpired = 6"
| "errc_int CommandNotSupported = 7"
| "errc_int AddressNotSupported = 8"
| "errc_int WrongVersion = 256"
| "errc_int NoAcceptableMethods = 257"
| "errc_int AuthenticationFailed = 258"
| "errc_int UnsupportedEndpointAddress = 259"
| "errc_int DomainTooLong = 260"
| "errc_int UsernameTooLong = 261"
| "errc_int PasswordTooLong = 262"
| "errc_int (OtherErrc i) = i"

text \<open>\<open>static_cast<SocksErrc>\<close>: values without an enumerator stay what they are.\<close>

definition errc_of_int :: "int \<Rightarrow> SocksErrc" where
  "errc_of_int i =
     (if i = 0 then Succeeded else if i = 1 then GeneralFailure else if i = 2 then NotAllowed
      else if i = 3 then NetworkUnreachable else if i = 4 then HostUnreachable
      else if i = 5 then ConnectionRefused else if i = 6 then TtlExpired
      else if i = 7 then CommandNotSupported else if i = 8 then AddressNotSupported
      else if i = 256 then WrongVersion else if i = 257 then NoAcceptableMethods
      else if i = 258 then AuthenticationFailed else if i = 259 then UnsupportedEndpointAddress
      else if i = 260 then DomainTooLong else if i = 261 then UsernameTooLong
      else if i = 262 then PasswordTooLong else OtherErrc i)"

definition SocksErrCategory_message :: "int \<Rightarrow> string" where
  "SocksErrCategory_message ev =
     (case errc_of_int ev of
        Succeeded \<Rightarrow> ''succeeded''
      | GeneralFailure \<Rightarrow> ''general SOCKS server failure''
      | NotAllowed \<Rightarrow> ''connection not allowed by ruleset''
      | NetworkUnreachable \<Rightarrow> ''network unreachable''
      | HostUnreachable \<Rightarrow> ''host unreachable''
      | ConnectionRefused \<Rightarrow> ''connection refused''
      | TtlExpired \<Rightarrow> ''TTL expired''
      | CommandNotSupported \<Rightarrow> ''command not supported''
      | AddressNotSupported \<Rightarrow> ''address type not supported''
      | WrongVersion \<Rightarrow> ''bad server protocol version''
      | NoAcceptableMethods \<Rightarrow> ''server rejected authentication methods''
      | AuthenticationFailed \<Rightarrow> ''server rejected authentication''
      | UnsupportedEndpointAddress \<Rightarrow> ''server sent unknown endpoint address''
      | DomainTooLong \<Rightarrow> ''domain name too long''
      | UsernameTooLong \<Rightarrow> ''username too long''
      | PasswordTooLong \<Rightarrow> ''password too long''
      | OtherErrc _ \<Rightarrow> ''(unrecognized error)'')"

text \<open>An error code: its category and value.\<close>

datatype error_code = SocksError int | SystemError int

definition make_socks_error :: "SocksErrc \<Rightarrow> error_code" where
  "make_socks_error err = SocksError (errc_int err)"

section \<open>Configuration\<close>

text \<open>\<open>Host\<close> is a variant of a name and an address; an address is a v4 or a v6 address.\<close>

datatype Host = HostName string | HostV4 "u8 list" | HostV6 "u8 list"

datatype Auth = NoCredential | UsernamePasswordCredential string string

datatype endpoint = EndpointV4 "u8 list" u16 | EndpointV6 "u8 list" u16

record socks_config =
  sc_host :: Host
  sc_port :: u16
  sc_auth :: Auth

definition socks_version_tag :: u8 where "socks_version_tag = 5"
definition auth_version_tag :: u8 where "auth_version_tag = 1"

datatype AuthMethod = NoAuth | Gssapi | UsernamePassword | NoMethods

fun method_byte :: "AuthMethod \<Rightarrow> u8" where
  "method_byte NoAuth = 0"
| "method_byte Gssapi = 1"
| "method_byte UsernamePassword = 2"
| "method_byte NoMethods = 255"

fun method_wanted :: "Auth \<Rightarrow> AuthMethod" where
  "method_wanted NoCredential = NoAuth"
| "method_wanted (UsernamePasswordCredential u p) = UsernamePassword"

section \<open>States and messages\<close>

datatype rstate = HelloRecvd | AuthRecvd | ReplyRecvd | FinishIpv4 | FinishIpv6

datatype pstate = Start | Sent rstate | Received rstate

fun READ :: "rstate \<Rightarrow> nat" where
  "READ HelloRecvd = 2"
| "READ AuthRecvd = 2"
| "READ ReplyRecvd = 4"
| "READ FinishIpv4 = 6"
| "READ FinishIpv6 = 18"

text \<open>
  \<open>Transact\<close> writes the buffer and continues in \<open>Sent\<close>, \<open>Recv\<close> fills a buffer of \<open>READ\<close> bytes,
  \<open>Complete\<close> calls the completion handler.
\<close>

datatype action = Transact "u8 list" rstate | Recv rstate | Complete "error_code + endpoint"

definition failure :: "SocksErrc \<Rightarrow> action" where
  "failure err = Complete (Inl (make_socks_error err))"

definition bytes :: "string \<Rightarrow> u8 list" where
  "bytes s = List.map uint8 s"

definition push_size_prefixed :: "u8 list \<Rightarrow> u8 list \<Rightarrow> u8 list" where
  "push_size_prefixed thing buffer = buffer @ [word_of_nat (length thing)] @ thing"

fun push_host :: "Host \<Rightarrow> u8 list \<Rightarrow> u8 list" where
  "push_host (HostName hostname) buffer = push_size_prefixed (bytes hostname) (buffer @ [3])"
| "push_host (HostV4 address) buffer = push_size_prefixed address (buffer @ [1])"
| "push_host (HostV6 address) buffer = push_size_prefixed address (buffer @ [4])"

text \<open>\<open>big_uint16_t\<close> keeps its bytes most significant first.\<close>

definition push_port :: "u16 \<Rightarrow> u8 list \<Rightarrow> u8 list" where
  "push_port port buffer = buffer @ [ucast (drop_bit 8 port), ucast port]"

definition load_port :: "u8 \<Rightarrow> u8 \<Rightarrow> u16" where
  "load_port hi lo = push_bit 8 (ucast hi) OR ucast lo"

definition send_connect :: "socks_config \<Rightarrow> action" where
  "send_connect cfg = Transact
     (push_port (sc_port cfg) (push_host (sc_host cfg) [socks_version_tag, 1, 0])) ReplyRecvd"

fun send_usernamepassword :: "socks_config \<Rightarrow> action" where
  "send_usernamepassword cfg =
     (case sc_auth cfg of
        UsernamePasswordCredential username password \<Rightarrow>
          Transact (push_size_prefixed (bytes password)
            (push_size_prefixed (bytes username) [auth_version_tag])) AuthRecvd
      | NoCredential \<Rightarrow> failure GeneralFailure)"

definition step_start :: "socks_config \<Rightarrow> action" where
  "step_start cfg =
     (let domain_too_long = (case sc_host cfg of HostName h \<Rightarrow> 256 \<le> length h | _ \<Rightarrow> False);
          username_too_long = (case sc_auth cfg of UsernamePasswordCredential u p \<Rightarrow> 256 \<le> length u | _ \<Rightarrow> False);
          password_too_long = (case sc_auth cfg of UsernamePasswordCredential u p \<Rightarrow> 256 \<le> length p | _ \<Rightarrow> False)
      in if domain_too_long then failure DomainTooLong
         else if username_too_long then failure UsernameTooLong
         else if password_too_long then failure PasswordTooLong
         else Transact [socks_version_tag, 1, method_byte (method_wanted (sc_auth cfg))] HelloRecvd)"

definition step_hello :: "socks_config \<Rightarrow> u8 list \<Rightarrow> action" where
  "step_hello cfg buffer =
     (if socks_version_tag \<noteq> buffer ! 0 then failure WrongVersion
      else
        (let wanted = method_wanted (sc_auth cfg); selected = buffer ! 1
         in if NoAuth = wanted \<and> method_byte wanted = selected then send_connect cfg
            else if UsernamePassword = wanted \<and> method_byte wanted = selected
            then send_usernamepassword cfg
            else failure NoAcceptableMethods))"

definition step_auth :: "socks_config \<Rightarrow> u8 list \<Rightarrow> action" where
  "step_auth cfg buffer =
     (if auth_version_tag \<noteq> buffer ! 0 then failure WrongVersion
      else if 0 \<noteq> buffer ! 1 then failure AuthenticationFailed
      else send_connect cfg)"

definition step_reply :: "u8 list \<Rightarrow> action" where
  "step_reply buffer =
     (if socks_version_tag \<noteq> buffer ! 0 then failure WrongVersion
      else
        (let reply = errc_of_int (uint (buffer ! 1))
         in if Succeeded \<noteq> reply then failure reply
            else if 0 \<noteq> buffer ! 2 then failure GeneralFailure
            else if buffer ! 3 = 1 then Recv FinishIpv4
            else if buffer ! 3 = 4 then Recv FinishIpv6
            else failure UnsupportedEndpointAddress))"

definition finish_ipv4 :: "u8 list \<Rightarrow> action" where
  "finish_ipv4 buffer =
     Complete (Inr (EndpointV4 (take 4 buffer) (load_port (buffer ! 4) (buffer ! 5))))"

definition finish_ipv6 :: "u8 list \<Rightarrow> action" where
  "finish_ipv6 buffer =
     Complete (Inr (EndpointV6 (take 16 buffer) (load_port (buffer ! 16) (buffer ! 17))))"

fun step :: "socks_config \<Rightarrow> pstate \<Rightarrow> u8 list \<Rightarrow> action" where
  "step cfg Start buffer = step_start cfg"
| "step cfg (Sent next) buffer = Recv next"
| "step cfg (Received HelloRecvd) buffer = step_hello cfg buffer"
| "step cfg (Received AuthRecvd) buffer = step_auth cfg buffer"
| "step cfg (Received ReplyRecvd) buffer = step_reply buffer"
| "step cfg (Received FinishIpv4) buffer = finish_ipv4 buffer"
| "step cfg (Received FinishIpv6) buffer = finish_ipv6 buffer"

text \<open>The intermediate completion handler \<open>operator()\<close>.\<close>

fun resume :: "socks_config \<Rightarrow> pstate \<Rightarrow> int option \<Rightarrow> u8 list \<Rightarrow> action" where
  "resume cfg state (Some e) buffer = Complete (Inl (SystemError e))"
| "resume cfg state None buffer = step cfg state buffer"

section \<open>The composed operation\<close>

text \<open>\<open>boost::asio::error::eof\<close> is the error of a read that meets the end of the stream.\<close>

definition eof :: int where "eof = 2"

fun rank :: "pstate \<Rightarrow> nat" where
  "rank Start = 10"
| "rank (Sent HelloRecvd) = 9"
| "rank (Received HelloRecvd) = 8"
| "rank (Sent AuthRecvd) = 7"
| "rank (Received AuthRecvd) = 6"
| "rank (Sent ReplyRecvd) = 5"
| "rank (Received ReplyRecvd) = 4"
| "rank (Sent _) = 3"
| "rank (Received _) = 1"

lemmas step_defs = step_start_def step_hello_def step_auth_def step_reply_def finish_ipv4_def
  finish_ipv6_def send_connect_def failure_def

lemma step_rank:
  "step cfg st buf = Transact msg nxt \<Longrightarrow> rank (Sent nxt) < rank st"
  "step cfg st buf = Recv nxt \<Longrightarrow> rank (Received nxt) < rank st"
proof -
  have start: "step_start cfg = Transact msg nxt \<Longrightarrow> nxt = HelloRecvd" "step_start cfg \<noteq> Recv nxt"
    by (auto simp: step_start_def failure_def Let_def split: if_splits)
  have connect: "send_connect cfg = Transact msg nxt \<Longrightarrow> nxt = ReplyRecvd" "send_connect cfg \<noteq> Recv nxt"
    by (auto simp: send_connect_def)
  have user: "send_usernamepassword cfg = Transact msg nxt \<Longrightarrow> nxt = AuthRecvd" "send_usernamepassword cfg \<noteq> Recv nxt"
    by (auto simp: failure_def split: Auth.splits)
  have hello: "step_hello cfg buf = Transact msg nxt \<Longrightarrow> nxt = ReplyRecvd \<or> nxt = AuthRecvd" "step_hello cfg buf \<noteq> Recv nxt"
    using connect user by (auto simp: step_hello_def failure_def Let_def simp del: send_usernamepassword.simps split: if_splits)
  have auth: "step_auth cfg buf = Transact msg nxt \<Longrightarrow> nxt = ReplyRecvd" "step_auth cfg buf \<noteq> Recv nxt"
    using connect by (auto simp: step_auth_def failure_def split: if_splits)
  have reply: "step_reply buf = Recv nxt \<Longrightarrow> nxt = FinishIpv4 \<or> nxt = FinishIpv6" "step_reply buf \<noteq> Transact msg nxt"
    by (auto simp: step_reply_def failure_def Let_def split: if_splits)
  show "step cfg st buf = Transact msg nxt \<Longrightarrow> rank (Sent nxt) < rank st"
    using start(1) hello(1) auth(1) reply(2)
    by (cases "(cfg, st, buf)" rule: step.cases) (auto simp: finish_ipv4_def finish_ipv6_def)
  show "step cfg st buf = Recv nxt \<Longrightarrow> rank (Received nxt) < rank st"
    using start(2) hello(2) auth(2) reply(1)
    by (cases "(cfg, st, buf)" rule: step.cases; cases nxt) (auto simp: finish_ipv4_def finish_ipv6_def)
qed

lemma resume_rank:
  "resume cfg st e buf = Transact msg nxt \<Longrightarrow> rank (Sent nxt) < rank st"
  "resume cfg st e buf = Recv nxt \<Longrightarrow> rank (Received nxt) < rank st"
  by (cases e; simp add: step_rank)+

text \<open>
  \<open>faults\<close> has the outcome of each operation, in order; an operation past its end succeeds.  The
  result is the messages written, each whole or not at all, and what the handler is called with.
\<close>

function socks_run ::
  "socks_config \<Rightarrow> pstate \<Rightarrow> int option \<Rightarrow> u8 list \<Rightarrow> u8 list \<Rightarrow> int option list \<Rightarrow>
   u8 list list \<times> (error_code + endpoint)" where
  "socks_run cfg st e buf input faults =
     (let fault = (case faults of [] \<Rightarrow> None | f # _ \<Rightarrow> f)
      in case resume cfg st e buf of
           Complete r \<Rightarrow> ([], r)
         | Transact msg next \<Rightarrow>
             (case socks_run cfg (Sent next) fault msg input (tl faults) of
                (sent, r) \<Rightarrow> (if fault = None then msg # sent else sent, r))
         | Recv next \<Rightarrow>
             socks_run cfg (Received next)
               (if fault = None \<and> length input < READ next then Some eof else fault)
               (take (READ next) input) (drop (READ next) input) (tl faults))"
  by pat_completeness auto
termination
  by (relation "measure (\<lambda>(cfg, st, _). rank st)") (auto dest: resume_rank)

declare socks_run.simps [simp del]

definition async_connect ::
  "socks_config \<Rightarrow> u8 list \<Rightarrow> int option list \<Rightarrow> u8 list list \<times> (error_code + endpoint)" where
  "async_connect cfg input faults = socks_run cfg Start None [] input faults"

section \<open>Running the steps\<close>

definition fault1 :: "int option list \<Rightarrow> int option" where
  "fault1 faults = (case faults of [] \<Rightarrow> None | f # _ \<Rightarrow> f)"

lemma run_error: "socks_run cfg st (Some e) buf input faults = ([], Inl (SystemError e))"
  by (simp add: socks_run.simps [of cfg st])

lemma run_complete: "step cfg st buf = Complete r \<Longrightarrow> socks_run cfg st None buf input faults = ([], r)"
  by (simp add: socks_run.simps [of cfg st])

lemma run_recv:
  "step cfg st buf = Recv n \<Longrightarrow> socks_run cfg st None buf input faults =
     (case fault1 faults of
        Some e \<Rightarrow> ([], Inl (SystemError e))
      | None \<Rightarrow> if length input < READ n then ([], Inl (SystemError eof))
          else socks_run cfg (Received n) None (take (READ n) input) (drop (READ n) input) (tl faults))"
  by (simp add: socks_run.simps [of cfg st] fault1_def [symmetric] Let_def run_error split: option.splits)

lemma run_transact:
  "step cfg st buf = Transact msg n \<Longrightarrow> socks_run cfg st None buf input faults =
     (case fault1 faults of
        Some e \<Rightarrow> ([], Inl (SystemError e))
      | None \<Rightarrow> (case socks_run cfg (Sent n) None msg input (tl faults) of (sent, r) \<Rightarrow> (msg # sent, r)))"
  by (simp add: socks_run.simps [of cfg st] fault1_def [symmetric] Let_def run_error split: option.splits)

lemmas run_simps = run_error run_complete run_recv run_transact

section \<open>The messages\<close>

definition hello_msg :: "socks_config \<Rightarrow> u8 list" where
  "hello_msg cfg = [5, 1, method_byte (method_wanted (sc_auth cfg))]"

fun auth_msgs :: "Auth \<Rightarrow> u8 list list" where
  "auth_msgs NoCredential = []"
| "auth_msgs (UsernamePasswordCredential u p) =
     [push_size_prefixed (bytes p) (push_size_prefixed (bytes u) [1])]"

definition connect_msg :: "socks_config \<Rightarrow> u8 list" where
  "connect_msg cfg = push_port (sc_port cfg) (push_host (sc_host cfg) [5, 1, 0])"

definition transcript :: "socks_config \<Rightarrow> u8 list list" where
  "transcript cfg = hello_msg cfg # auth_msgs (sc_auth cfg) @ [connect_msg cfg]"

text \<open>The limits \<open>step_start\<close> checks.\<close>

definition within_limits :: "socks_config \<Rightarrow> bool" where
  "within_limits cfg \<longleftrightarrow>
     (case sc_host cfg of HostName h \<Rightarrow> length h < 256 | _ \<Rightarrow> True) \<and>
     (case sc_auth cfg of UsernamePasswordCredential u p \<Rightarrow> length u < 256 \<and> length p < 256 | _ \<Rightarrow> True)"

lemma start_ok: "within_limits cfg \<Longrightarrow> step_start cfg = Transact (hello_msg cfg) HelloRecvd"
  by (auto simp: step_start_def within_limits_def hello_msg_def socks_version_tag_def Let_def
      split: Host.splits Auth.splits)

lemma send_connect_msg: "send_connect cfg = Transact (connect_msg cfg) ReplyRecvd"
  by (simp add: send_connect_def connect_msg_def socks_version_tag_def)

lemma run_reply_sent: "fst (socks_run cfg (Sent ReplyRecvd) None buf input faults) = []"
proof -
  have finish: "fst (socks_run cfg (Received n) None b i f) = []" if "n = FinishIpv4 \<or> n = FinishIpv6" for n b i f
    using that by (auto simp: run_complete finish_ipv4_def finish_ipv6_def)
  have "fst (socks_run cfg (Received ReplyRecvd) None b i f) = []" for b i f
  proof (cases "step_reply b")
    case (Complete r)
    then show ?thesis by (simp add: run_complete)
  next
    case (Transact msg n)
    then show ?thesis by (auto simp: step_reply_def failure_def Let_def split: if_splits)
  next
    case (Recv n)
    then have "n = FinishIpv4 \<or> n = FinishIpv6"
      by (auto simp: step_reply_def failure_def Let_def split: if_splits)
    with Recv finish show ?thesis by (simp add: run_recv split: option.splits)
  qed
  then show ?thesis by (simp add: run_recv split: option.splits)
qed

lemma run_connect_sent:
  "step cfg st buf = send_connect cfg \<Longrightarrow>
   fst (socks_run cfg st None buf input faults) = [] \<or>
   fst (socks_run cfg st None buf input faults) = [connect_msg cfg]"
  using run_reply_sent [of cfg "connect_msg cfg" input "tl faults"]
  by (auto simp: send_connect_msg run_transact split: option.splits prod.splits)

text \<open>What the two replies that let the client go on look like.\<close>

definition greeting :: "Auth \<Rightarrow> u8 list" where
  "greeting auth = [5, method_byte (method_wanted auth)]"

fun accepted :: "Auth \<Rightarrow> u8 list" where
  "accepted NoCredential = []"
| "accepted (UsernamePasswordCredential u p) = [1, 0]"

lemma take2: "2 \<le> length xs \<Longrightarrow> take 2 xs = [xs ! 0, xs ! 1]"
  by (cases xs; cases "tl xs") (auto simp: numeral_2_eq_2)

lemma sent_prefix:
  assumes "within_limits cfg" "fst (async_connect cfg input faults) = sent"
  shows "\<exists>k. sent = take k (transcript cfg) \<and> k \<le> length (transcript cfg) \<and>
    (1 < k \<longrightarrow> take 2 input = greeting (sc_auth cfg)) \<and>
    (1 + length (auth_msgs (sc_auth cfg)) < k \<longrightarrow>
      take (2 + length (accepted (sc_auth cfg))) input = greeting (sc_auth cfg) @ accepted (sc_auth cfg))"
proof (cases "fault1 faults")
  case (Some e)
  with assms show ?thesis
    by (auto simp: async_connect_def run_transact start_ok intro: exI [of _ 0])
next
  case None
  let ?s1 = "fst (socks_run cfg (Sent HelloRecvd) None (hello_msg cfg) input (tl faults))"
  have sent: "sent = hello_msg cfg # ?s1"
    using assms None by (auto simp: async_connect_def run_transact start_ok split: prod.splits)
  let ?b = "take 2 input" and ?i = "drop 2 input" and ?f = "tl (tl faults)"
  show ?thesis
  proof (cases "?s1 = []")
    case True
    with sent show ?thesis by (auto simp: transcript_def intro: exI [of _ 1])
  next
    case False
    then have len: "2 \<le> length input" and
      s1: "?s1 = fst (socks_run cfg (Received HelloRecvd) None ?b ?i ?f)"
      by (auto simp: run_recv split: option.splits if_splits)
    from False have go: "\<not> (\<exists>r. step_hello cfg ?b = Complete r)"
      unfolding s1 by (auto simp: run_complete)
    then have b0: "?b ! 0 = 5" by (auto simp: step_hello_def failure_def socks_version_tag_def split: if_splits)
    from go have b1: "?b ! 1 = method_byte (method_wanted (sc_auth cfg))"
      by (auto simp: step_hello_def failure_def Let_def split: if_splits)
    have greet: "?b = greeting (sc_auth cfg)"
      using take2 [OF len] b0 b1 len by (simp add: greeting_def)
    show ?thesis
    proof (cases "sc_auth cfg")
      case NoCredential
      then have "step cfg (Received HelloRecvd) ?b = send_connect cfg"
        using b0 b1 by (simp add: step_hello_def socks_version_tag_def)
      from run_connect_sent [OF this] False have "?s1 = [connect_msg cfg]" unfolding s1 by auto
      with sent greet NoCredential show ?thesis
        by (auto simp: transcript_def intro!: exI [of _ 2])
    next
      case (UsernamePasswordCredential u p)
      then have h: "step cfg (Received HelloRecvd) ?b = send_usernamepassword cfg"
        using b0 b1 by (simp add: step_hello_def socks_version_tag_def del: send_usernamepassword.simps)
      define am where "am = push_size_prefixed (bytes p) (push_size_prefixed (bytes u) [1])"
      have su: "send_usernamepassword cfg = Transact am AuthRecvd"
        by (simp add: UsernamePasswordCredential am_def auth_version_tag_def)
      let ?s2 = "fst (socks_run cfg (Sent AuthRecvd) None am ?i (tl ?f))"
      have s1': "?s1 = am # ?s2"
        using False h su unfolding s1 by (auto simp: run_transact split: option.splits prod.splits)
      show ?thesis
      proof (cases "?s2 = []")
        case True
        with sent s1' greet UsernamePasswordCredential show ?thesis
          by (auto simp: transcript_def am_def intro!: exI [of _ 2])
      next
        case False
        then have len2: "2 \<le> length ?i" and
          s2: "?s2 = fst (socks_run cfg (Received AuthRecvd) None (take 2 ?i) (drop 2 ?i) (tl (tl ?f)))"
          by (auto simp: run_recv split: option.splits if_splits)
        from False have go2: "\<not> (\<exists>r. step_auth cfg (take 2 ?i) = Complete r)"
          unfolding s2 by (auto simp: run_complete)
        then have a: "take 2 ?i ! 0 = 1" "take 2 ?i ! 1 = 0"
          by (auto simp: step_auth_def failure_def auth_version_tag_def split: if_splits)
        then have acc: "take 2 ?i = [1, 0]" using take2 [OF len2] len2 by simp
        have "step cfg (Received AuthRecvd) (take 2 ?i) = send_connect cfg"
          using a by (simp add: step_auth_def auth_version_tag_def)
        from run_connect_sent [OF this] False have "?s2 = [connect_msg cfg]" unfolding s2 by auto
        moreover have "take 4 input = take 2 input @ take 2 ?i" by (simp add: take_add [of 2 2, simplified])
        ultimately show ?thesis using sent s1' greet acc UsernamePasswordCredential
          by (auto simp: transcript_def am_def intro!: exI [of _ 3])
      qed
    qed
  qed
qed

section \<open>What the server's bytes mean\<close>

definition port_of :: "u8 \<Rightarrow> u8 \<Rightarrow> u16" where
  "port_of hi lo = word_of_nat (256 * unat hi + unat lo)"

lemma load_port: "load_port hi lo = port_of hi lo"
proof -
  have lt: "unat hi < 256" "unat lo < 256" using unsigned_less [of hi] unsigned_less [of lo] by simp_all
  have u: "unat (ucast hi :: u16) = unat hi" "unat (ucast lo :: u16) = unat lo"
    using lt by (simp_all add: unsigned_ucast_eq take_bit_nat_eq_self)
  have "unat (push_bit 8 (ucast hi) OR ucast lo :: u16) = unat hi * 2 ^ 8 + unat lo"
    by (subst unat_shift_or) (use lt u in simp_all)
  moreover have "unat (port_of hi lo) = 256 * unat hi + unat lo"
    unfolding port_of_def unsigned_of_nat using lt by (simp add: take_bit_nat_eq_self)
  ultimately show ?thesis by (simp add: load_port_def word_unat_eq_iff)
qed

text \<open>The reply of RFC 1928, with the address types the client understands.\<close>

definition parse_reply :: "u8 list \<Rightarrow> endpoint option" where
  "parse_reply i =
     (if 4 \<le> length i \<and> take 3 i = [5, 0, 0] then
        if i ! 3 = 1 \<and> 10 \<le> length i then Some (EndpointV4 (take 4 (drop 4 i)) (port_of (i ! 8) (i ! 9)))
        else if i ! 3 = 4 \<and> 22 \<le> length i then Some (EndpointV6 (take 16 (drop 4 i)) (port_of (i ! 20) (i ! 21)))
        else None
      else None)"

lemma snd_run_transact:
  "step cfg st buf = Transact msg n \<Longrightarrow>
   snd (socks_run cfg st None buf input []) = snd (socks_run cfg (Sent n) None msg input [])"
  by (simp add: run_transact fault1_def split: prod.splits)

lemma run_recv_ok:
  "step cfg st buf = Recv n \<Longrightarrow> socks_run cfg st None buf input [] =
     (if length input < READ n then ([], Inl (SystemError eof))
      else socks_run cfg (Received n) None (take (READ n) input) (drop (READ n) input) [])"
  by (simp add: run_recv fault1_def)

lemma errc_of_int_Succeeded: "errc_of_int i = Succeeded \<longleftrightarrow> i = 0" "Succeeded = errc_of_int i \<longleftrightarrow> i = 0"
  by (auto simp: errc_of_int_def)

lemma take3: "3 \<le> length xs \<Longrightarrow> take 3 xs = [xs ! 0, xs ! 1, xs ! 2]"
  by (cases xs; cases "tl xs"; cases "tl (tl xs)") (auto simp: numeral_3_eq_3 numeral_2_eq_2)

lemma reply_result:
  "snd (socks_run cfg (Sent ReplyRecvd) None buf input []) = Inr ep \<longleftrightarrow> parse_reply input = Some ep"
proof (cases "length input < 4")
  case True
  then show ?thesis by (simp add: run_recv_ok parse_reply_def)
next
  case False
  let ?b = "take 4 input" and ?i = "drop 4 input"
  have run: "socks_run cfg (Sent ReplyRecvd) None buf input [] = socks_run cfg (Received ReplyRecvd) None ?b ?i []"
    using False by (simp add: run_recv_ok)
  have t3: "take 3 input = [input ! 0, input ! 1, input ! 2]" using False by (intro take3) simp
  have u: "errc_of_int (uint (input ! 1)) = Succeeded \<longleftrightarrow> input ! 1 = 0"
    by (simp add: errc_of_int_Succeeded unsigned_eq_0_iff)
  show ?thesis
  proof (cases "take 3 input = [5, 0, 0] \<and> (input ! 3 = 1 \<or> input ! 3 = 4)")
    case True
    then have b: "?b ! 0 = 5" "?b ! 1 = 0" "?b ! 2 = 0" "?b ! 3 = input ! 3"
      using t3 False by auto
    then have st: "step_reply ?b = Recv (if input ! 3 = 1 then FinishIpv4 else FinishIpv6)"
      using True by (auto simp: step_reply_def socks_version_tag_def errc_of_int_Succeeded Let_def)
    show ?thesis
    proof (cases "input ! 3 = 1")
      case True
      have "snd (socks_run cfg (Received ReplyRecvd) None ?b ?i []) = Inr ep \<longleftrightarrow>
          10 \<le> length input \<and> EndpointV4 (take 4 ?i) (port_of (input ! 8) (input ! 9)) = ep"
        using st True False by (auto simp: run_recv_ok run_complete finish_ipv4_def load_port)
      with run b t3 False True show ?thesis by (auto simp: parse_reply_def)
    next
      case F: False
      with True have four: "input ! 3 = 4" by simp
      have "snd (socks_run cfg (Received ReplyRecvd) None ?b ?i []) = Inr ep \<longleftrightarrow>
          22 \<le> length input \<and> EndpointV6 (take 16 ?i) (port_of (input ! 20) (input ! 21)) = ep"
        using st F False by (auto simp: run_recv_ok run_complete finish_ipv6_def load_port)
      with run b t3 False four show ?thesis by (auto simp: parse_reply_def)
    qed
  next
    case no: False
    then have "\<exists>e. step_reply ?b = Complete (Inl e)"
      using t3 False u by (auto simp: step_reply_def failure_def socks_version_tag_def Let_def)
    then have "\<exists>e. snd (socks_run cfg (Received ReplyRecvd) None ?b ?i []) = Inl e"
      by (auto simp: run_complete)
    with run no show ?thesis by (auto simp: parse_reply_def)
  qed
qed

lemma take_eq_append: "take (length xs) i = xs \<longleftrightarrow> (\<exists>r. i = xs @ r)"
  by (metis append_eq_conv_conj)

lemma connect_result:
  assumes "step cfg st buf = send_connect cfg"
  shows "snd (socks_run cfg st None buf input []) = Inr ep \<longleftrightarrow> parse_reply input = Some ep"
  using assms by (simp add: send_connect_msg snd_run_transact reply_result)

lemma auth_result:
  "snd (socks_run cfg (Sent AuthRecvd) None buf input []) = Inr ep \<longleftrightarrow>
   (\<exists>r. input = [1, 0] @ r \<and> parse_reply r = Some ep)"
proof (cases "take 2 input = [1, 0]")
  case True
  then obtain r where r: "input = 1 # 0 # r" using take_eq_append [of "[1, 0]" input] by (auto simp: numeral_2_eq_2)
  then have "step cfg (Received AuthRecvd) [1, 0] = send_connect cfg"
    by (simp add: step_auth_def auth_version_tag_def)
  from connect_result [OF this] r show ?thesis by (simp add: run_recv_ok)
next
  case False
  then have no: "\<nexists>r. input = [1, 0] @ r" by auto
  show ?thesis
  proof (cases "length input < 2")
    case True
    with no show ?thesis by (auto simp: run_recv_ok)
  next
    case len: False
    then have "\<exists>e. step_auth cfg (take 2 input) = Complete (Inl e)"
      using False take2 [of input] by (auto simp: step_auth_def failure_def auth_version_tag_def)
    with len no show ?thesis by (auto simp: run_recv_ok run_complete)
  qed
qed

lemma hello_result:
  "snd (socks_run cfg (Sent HelloRecvd) None buf input []) = Inr ep \<longleftrightarrow>
   (\<exists>r. input = greeting (sc_auth cfg) @ accepted (sc_auth cfg) @ r \<and> parse_reply r = Some ep)"
proof (cases "take 2 input = greeting (sc_auth cfg)")
  case True
  then obtain r where r: "input = greeting (sc_auth cfg) @ r"
    using take_eq_append [of "greeting (sc_auth cfg)" input] by (auto simp: greeting_def numeral_2_eq_2)
  show ?thesis
  proof (cases "sc_auth cfg")
    case NoCredential
    then have "step cfg (Received HelloRecvd) (greeting (sc_auth cfg)) = send_connect cfg"
      by (simp add: step_hello_def greeting_def socks_version_tag_def)
    from connect_result [OF this] r NoCredential show ?thesis by (simp add: run_recv_ok greeting_def)
  next
    case (UsernamePasswordCredential u p)
    then have "step cfg (Received HelloRecvd) (greeting (sc_auth cfg)) = send_usernamepassword cfg"
      by (simp add: step_hello_def greeting_def socks_version_tag_def del: send_usernamepassword.simps)
    then obtain msg where "step cfg (Received HelloRecvd) (greeting (sc_auth cfg)) = Transact msg AuthRecvd"
      using UsernamePasswordCredential by simp
    from snd_run_transact [OF this] auth_result [of cfg msg r ep] r UsernamePasswordCredential
    show ?thesis by (simp add: run_recv_ok greeting_def)
  qed
next
  case False
  then have no: "\<nexists>r. input = greeting (sc_auth cfg) @ r" by (auto simp: greeting_def)
  show ?thesis
  proof (cases "length input < 2")
    case True
    with no show ?thesis by (auto simp: run_recv_ok greeting_def)
  next
    case len: False
    then have "\<exists>e. step_hello cfg (take 2 input) = Complete (Inl e)"
      using False take2 [of input]
      by (auto simp: step_hello_def failure_def greeting_def socks_version_tag_def Let_def)
    with len no show ?thesis by (auto simp: run_recv_ok run_complete)
  qed
qed

text \<open>A handshake that succeeds has written every message.\<close>

lemma fst_run_transact:
  "step cfg st buf = Transact msg n \<Longrightarrow>
   fst (socks_run cfg st None buf input []) = msg # fst (socks_run cfg (Sent n) None msg input [])"
  by (simp add: run_transact fault1_def split_beta)

lemma connect_sent_all:
  "step cfg st buf = send_connect cfg \<Longrightarrow> fst (socks_run cfg st None buf input []) = [connect_msg cfg]"
  by (simp add: send_connect_msg fst_run_transact run_reply_sent)

lemma auth_sent_all:
  assumes "snd (socks_run cfg (Sent AuthRecvd) None buf input []) = Inr ep"
  shows "fst (socks_run cfg (Sent AuthRecvd) None buf input []) = [connect_msg cfg]"
proof -
  from assms obtain r where "input = [1, 0] @ r" unfolding auth_result by blast
  moreover have "step cfg (Received AuthRecvd) [1, 0] = send_connect cfg"
    by (simp add: step_auth_def auth_version_tag_def)
  ultimately show ?thesis using connect_sent_all [of cfg "Received AuthRecvd" "[1, 0]" r] by (simp add: run_recv_ok)
qed

lemma success_sent_all:
  assumes "within_limits cfg" "snd (async_connect cfg input []) = Inr ep"
  shows "fst (async_connect cfg input []) = transcript cfg"
proof -
  let ?run = "socks_run cfg (Sent HelloRecvd) None (hello_msg cfg) input []"
  have start: "fst (async_connect cfg input []) = hello_msg cfg # fst ?run" "snd ?run = Inr ep"
    using assms start_ok [OF assms(1)] by (simp_all add: async_connect_def fst_run_transact snd_run_transact)
  from start(2) obtain r where r: "input = greeting (sc_auth cfg) @ accepted (sc_auth cfg) @ r"
    unfolding hello_result by blast
  have "fst ?run = auth_msgs (sc_auth cfg) @ [connect_msg cfg]"
  proof (cases "sc_auth cfg")
    case NoCredential
    then have "step cfg (Received HelloRecvd) (greeting (sc_auth cfg)) = send_connect cfg"
      by (simp add: step_hello_def greeting_def socks_version_tag_def)
    from connect_sent_all [OF this, of r] r NoCredential show ?thesis by (simp add: run_recv_ok greeting_def)
  next
    case (UsernamePasswordCredential u p)
    let ?am = "push_size_prefixed (bytes p) (push_size_prefixed (bytes u) [1])"
    have st: "step cfg (Received HelloRecvd) (greeting (sc_auth cfg)) = Transact ?am AuthRecvd"
      using UsernamePasswordCredential by (simp add: step_hello_def greeting_def socks_version_tag_def auth_version_tag_def)
    with start(2) r UsernamePasswordCredential
    have "snd (socks_run cfg (Sent AuthRecvd) None ?am ([1, 0] @ r) []) = Inr ep"
      by (simp add: run_recv_ok greeting_def snd_run_transact)
    from auth_sent_all [OF this] st r UsernamePasswordCredential show ?thesis
      by (simp add: run_recv_ok greeting_def fst_run_transact)
  qed
  with start(1) show ?thesis by (simp add: transcript_def)
qed

lemma success_within_limits: "snd (async_connect cfg input faults) = Inr ep \<Longrightarrow> within_limits cfg"
proof (rule ccontr)
  assume success: "snd (async_connect cfg input faults) = Inr ep" and "\<not> within_limits cfg"
  then have "\<exists>e. step cfg Start [] = Complete (Inl e)"
    by (auto simp: within_limits_def step_start_def failure_def split: Host.splits Auth.splits)
  with success show False by (auto simp: async_connect_def run_complete)
qed

lemma success_grant:
  assumes "snd (async_connect cfg input []) = Inr ep"
  shows "\<exists>rest. input = greeting (sc_auth cfg) @ accepted (sc_auth cfg) @ rest \<and> parse_reply rest = Some ep"
proof -
  have "snd (socks_run cfg (Sent HelloRecvd) None (hello_msg cfg) input []) = Inr ep"
    using assms start_ok [OF success_within_limits [OF assms]]
    by (simp add: async_connect_def snd_run_transact)
  then show ?thesis by (simp add: hello_result)
qed

section \<open>Properties\<close>

text \<open>
  C4: the handshake succeeds, with the endpoint the server names, exactly when the server selects the
  method the client wants, accepts the credentials if there are any, and sends a complete successful
  reply with an IPv4 or IPv6 address, its port in network byte order; trailing bytes are left alone.
\<close>

theorem connect_succeeds_iff:
  assumes "within_limits cfg"
  shows "snd (async_connect cfg input []) = Inr ep \<longleftrightarrow>
    (\<exists>rest. input = greeting (sc_auth cfg) @ accepted (sc_auth cfg) @ rest \<and> parse_reply rest = Some ep)"
  unfolding async_connect_def
  using snd_run_transact [of cfg Start "[]" "hello_msg cfg" HelloRecvd input] start_ok [OF assms]
    hello_result [of cfg "hello_msg cfg" input ep]
  by simp

lemma connect_succeeds_iff_witness:
  "snd (async_connect \<lparr>sc_host = HostName ''irc.example'', sc_port = 6697,
      sc_auth = UsernamePasswordCredential ''u'' ''pw''\<rparr>
     [5, 2, 1, 0, 5, 0, 0, 1, 10, 0, 0, 1, 0x1A, 0x29] [])
   = Inr (EndpointV4 [10, 0, 0, 1] 6697)"
proof -
  let ?cfg = "\<lparr>sc_host = HostName ''irc.example'', sc_port = 6697,
      sc_auth = UsernamePasswordCredential ''u'' ''pw''\<rparr>"
  have "within_limits ?cfg" by (simp add: within_limits_def)
  moreover have "parse_reply [5, 0, 0, 1, 10, 0, 0, 1, 0x1A, 0x29] = Some (EndpointV4 [10, 0, 0, 1] 6697)"
    by (simp add: parse_reply_def port_of_def)
  ultimately show ?thesis
    using connect_succeeds_iff [of ?cfg "[5, 2, 1, 0, 5, 0, 0, 1, 10, 0, 0, 1, 0x1A, 0x29]"]
    by (simp add: greeting_def)
qed

text \<open>
  C18: whatever the server sends and whichever operations fail, the client writes a prefix of hello,
  credentials (if configured), connect request, each once and in that order; the second message needs
  the server's choice of exactly the wanted method, so credentials never go to a server that did not
  ask for them, and the connect request after credentials needs the server to have accepted them.
\<close>

theorem messages_in_protocol_order:
  assumes "within_limits cfg"
  shows "\<exists>k. fst (async_connect cfg input faults) = take k (transcript cfg) \<and> k \<le> length (transcript cfg) \<and>
    (1 < k \<longrightarrow> take 2 input = greeting (sc_auth cfg)) \<and>
    (1 + length (auth_msgs (sc_auth cfg)) < k \<longrightarrow>
      take (2 + length (accepted (sc_auth cfg))) input = greeting (sc_auth cfg) @ accepted (sc_auth cfg))"
  by (rule sent_prefix [OF assms refl])

lemma messages_in_protocol_order_witness:
  "\<exists>k. fst (async_connect \<lparr>sc_host = HostName ''h'', sc_port = 1, sc_auth = UsernamePasswordCredential ''u'' ''p''\<rparr>
       [5, 0] []) = take k (transcript \<lparr>sc_host = HostName ''h'', sc_port = 1,
         sc_auth = UsernamePasswordCredential ''u'' ''p''\<rparr>) \<and> k \<le> 1"
proof -
  let ?cfg = "\<lparr>sc_host = HostName ''h'', sc_port = 1, sc_auth = UsernamePasswordCredential ''u'' ''p''\<rparr>"
  have "within_limits ?cfg" by (simp add: within_limits_def)
  from messages_in_protocol_order [OF this, of "[5, 0]" "[]"] show ?thesis
    by (force simp: greeting_def)
qed

text \<open>
  a host name, user name or password of 256 bytes or more does not fit its length byte: nothing
  at all is written and the handler gets the error of the first of these that applies.
\<close>

theorem over_limits_writes_nothing:
  assumes "\<not> within_limits cfg"
  shows "\<exists>err. async_connect cfg input faults = ([], Inl (make_socks_error err)) \<and>
    err = (case sc_host cfg of HostName h \<Rightarrow> if 256 \<le> length h then DomainTooLong else
              (case sc_auth cfg of UsernamePasswordCredential u p \<Rightarrow>
                 if 256 \<le> length u then UsernameTooLong else PasswordTooLong | _ \<Rightarrow> Succeeded)
            | _ \<Rightarrow> (case sc_auth cfg of UsernamePasswordCredential u p \<Rightarrow>
                 if 256 \<le> length u then UsernameTooLong else PasswordTooLong | _ \<Rightarrow> Succeeded))"
  using assms
  by (auto simp: async_connect_def within_limits_def run_complete step_start_def failure_def
      split: Host.splits Auth.splits)

lemma over_limits_writes_nothing_witness:
  "async_connect \<lparr>sc_host = HostName (replicate 256 (CHR ''a'')), sc_port = 1, sc_auth = NoCredential\<rparr> [5, 0] []
   = ([], Inl (SocksError 260))"
proof -
  let ?cfg = "\<lparr>sc_host = HostName (replicate 256 (CHR ''a'')), sc_port = 1, sc_auth = NoCredential\<rparr>"
  have "\<not> within_limits ?cfg" by (simp add: within_limits_def)
  from over_limits_writes_nothing [OF this, of "[5, 0]" "[]"] show ?thesis
    by (simp add: make_socks_error_def)
qed

text \<open>The receiver of RFC 1928: a request of the connect command, and nothing after it.\<close>

definition decode_request :: "u8 list \<Rightarrow> (Host \<times> u16) option" where
  "decode_request i =
     (if length i < 5 \<or> take 3 i \<noteq> [5, 1, 0] then None
      else
        (let atyp = i ! 3; body = drop 4 i;
             (host, rest) =
               (if atyp = 3 then (Some (HostName (List.map to_char (take (unat (hd body)) (tl body)))),
                  drop (unat (hd body)) (tl body))
                else if atyp = 1 then (Some (HostV4 (take 4 body)), drop 4 body)
                else if atyp = 4 then (Some (HostV6 (take 16 body)), drop 16 body)
                else (None, []))
         in if length rest = 2 then map_option (\<lambda>h. (h, port_of (rest ! 0) (rest ! 1))) host else None))"

lemma length_bytes [simp]: "length (bytes s) = length s"
  by (simp add: bytes_def)

lemma map_to_char_bytes [simp]: "List.map to_char (bytes s) = s"
  by (simp add: bytes_def comp_def)

lemma push_port_of: "push_port p buf = buf @ [ucast (drop_bit 8 p), ucast p] \<and>
  port_of (ucast (drop_bit 8 p)) (ucast p) = p"
proof -
  have lt: "unat p < 65536" using unsigned_less [of p] by simp
  have "unat (ucast (drop_bit 8 p) :: u8) = unat p div 256"
    unfolding unsigned_ucast_eq unat_drop_bit_eq using lt
    by (simp add: drop_bit_eq_div take_bit_nat_eq_self)
  moreover have "unat (ucast p :: u8) = unat p mod 256"
    unfolding unsigned_ucast_eq by (simp add: take_bit_eq_mod)
  ultimately show ?thesis by (simp add: push_port_def port_of_def)
qed

text \<open>
  the connect request for a host name within the limits is read back by an RFC 1928 server as
  exactly that name and port.
\<close>

theorem connect_request_decodes:
  assumes "sc_host cfg = HostName h" "length h < 256"
  shows "\<exists>msg. send_connect cfg = Transact msg ReplyRecvd \<and> decode_request msg = Some (HostName h, sc_port cfg)"
proof -
  have "unat (word_of_nat (length h) :: u8) = length h"
    unfolding unsigned_of_nat using assms(2) by (simp add: take_bit_nat_eq_self)
  then show ?thesis
    using push_port_of [of "sc_port cfg"] assms(1)
    by (simp add: send_connect_msg connect_msg_def push_size_prefixed_def decode_request_def Let_def
        numeral_3_eq_3)
qed

lemma connect_request_decodes_witness:
  "\<exists>msg. send_connect \<lparr>sc_host = HostName ''irc.libera.chat'', sc_port = 6697, sc_auth = NoCredential\<rparr>
     = Transact msg ReplyRecvd \<and> decode_request msg = Some (HostName ''irc.libera.chat'', 6697)"
  using connect_request_decodes [of "\<lparr>sc_host = HostName ''irc.libera.chat'', sc_port = 6697, sc_auth = NoCredential\<rparr>"]
  by simp

text \<open>
  The same receiver on a stream: it takes the bytes it needs and leaves the rest to be read later.
\<close>

definition read_request :: "u8 list \<Rightarrow> (Host \<times> u16 \<times> u8 list) option" where
  "read_request i =
     (if length i < 5 \<or> take 3 i \<noteq> [5, 1, 0] then None
      else
        (let atyp = i ! 3; body = drop 4 i;
             (host, rest) =
               (if atyp = 3 then (Some (HostName (List.map to_char (take (unat (hd body)) (tl body)))),
                  drop (unat (hd body)) (tl body))
                else if atyp = 1 then (Some (HostV4 (take 4 body)), drop 4 body)
                else if atyp = 4 then (Some (HostV6 (take 16 body)), drop 16 body)
                else (None, []))
         in if length rest < 2 then None
            else map_option (\<lambda>h. (h, port_of (rest ! 0) (rest ! 1), drop 2 rest)) host))"

lemma decode_read:
  "decode_request i = (case read_request i of Some (h, p, []) \<Rightarrow> Some (h, p) | _ \<Rightarrow> None)"
proof -
  have d: "length rest = 2 \<longleftrightarrow> \<not> length rest < 2 \<and> drop 2 rest = []" for rest :: "u8 list" by auto
  show ?thesis
    by (auto simp: decode_request_def read_request_def Let_def d split: if_splits list.splits)
qed

lemma read_address:
  assumes "atyp = 1 \<and> n = 4 \<or> atyp = 4 \<and> n = 16" "length xs = n"
  shows "read_request (5 # 1 # 0 # atyp # xs @ hi # lo # rest) =
    Some ((if atyp = 1 then HostV4 else HostV6) xs, port_of hi lo, rest)"
  using assms by (auto simp: read_request_def Let_def nth_append numeral_3_eq_3)

lemma shift_fixed: "x # butlast xs = xs \<longleftrightarrow> xs \<noteq> [] \<and> set xs = {x}"
proof (induction xs arbitrary: x)
  case (Cons y ys)
  then show ?case by (cases ys) auto
qed simp

text \<open>
  C33: for an address instead of a name the request is not what RFC 1928 asks for.  The size that
  \<open>push_host\<close> puts in front of the address shifts everything by a byte, whatever the address and port:
  a server reads the size and all but the last byte of the address for the address, the last byte of
  the address and the high byte of the port for the port, and finds the low byte of the port in the
  stream as the first byte of what follows the request.  So the message is no request, and the address
  is the right one only when all of its bytes are equal to its size.
\<close>

theorem connect_request_address_malformed:
  assumes "length a = 4 \<and> mk = HostV4 \<or> length a = 16 \<and> mk = HostV6" "sc_host cfg = mk a"
  shows "\<exists>msg. send_connect cfg = Transact msg ReplyRecvd \<and> decode_request msg = None \<and>
    (\<forall>rest. read_request (msg @ rest) =
       Some (mk (word_of_nat (length a) # butlast a), port_of (last a) (ucast (drop_bit 8 (sc_port cfg))),
             ucast (sc_port cfg) # rest)) \<and>
    (mk (word_of_nat (length a) # butlast a) = sc_host cfg \<longleftrightarrow> set a = {word_of_nat (length a)})"
proof -
  define atyp :: u8 where "atyp = (if length a = 4 then 1 else 4)"
  define hi :: u8 where "hi = ucast (drop_bit 8 (sc_port cfg))"
  define lo :: u8 where "lo = ucast (sc_port cfg)"
  define n :: u8 where "n = word_of_nat (length a)"
  let ?msg = "5 # 1 # 0 # atyp # n # a @ [hi, lo]"
  have a: "a \<noteq> []" "atyp = 1 \<and> length a = 4 \<and> mk = HostV4 \<or> atyp = 4 \<and> length a = 16 \<and> mk = HostV6"
    using assms(1) by (auto simp: atyp_def)
  have send: "send_connect cfg = Transact ?msg ReplyRecvd"
    using a(2) by (elim disjE conjE) (simp_all add: assms(2) send_connect_msg connect_msg_def push_size_prefixed_def
        push_port_def hi_def lo_def n_def)
  have "a = butlast a @ [last a]" using a(1) by simp
  then have "a @ xs = butlast a @ last a # xs" for xs by (metis append.assoc append_Cons append_Nil)
  then have split: "?msg @ rest = 5 # 1 # 0 # atyp # (n # butlast a) @ last a # hi # lo # rest" for rest by simp
  have "(if atyp = 1 then HostV4 else HostV6) = mk" using a(2) by auto
  then have read: "read_request (?msg @ rest) = Some (mk (n # butlast a), port_of (last a) hi, lo # rest)" for rest
    using read_address [of atyp "length a" "n # butlast a" "last a" hi "lo # rest"] a unfolding split by auto
  have "decode_request ?msg = None"
    using read [of "[]"] by (simp add: decode_read)
  moreover have "mk (n # butlast a) = sc_host cfg \<longleftrightarrow> set a = {n}"
    unfolding assms(2) using assms(1) shift_fixed [of n a] a(1) by auto
  ultimately show ?thesis using send read unfolding hi_def lo_def n_def by blast
qed

lemma connect_request_address_malformed_witness:
  "\<exists>msg. send_connect \<lparr>sc_host = HostV4 [127, 0, 0, 1], sc_port = 80, sc_auth = NoCredential\<rparr> = Transact msg ReplyRecvd \<and>
     read_request (msg @ [71]) = Some (HostV4 [4, 127, 0, 0], port_of 1 0, [80, 71])"
  using connect_request_address_malformed [of "[127, 0, 0, 1]" HostV4
    "\<lparr>sc_host = HostV4 [127, 0, 0, 1], sc_port = 80, sc_auth = NoCredential\<rparr>"]
  by auto

lemma errc_int_of_int: "errc_int (errc_of_int i) = i"
  unfolding errc_of_int_def by (simp split: if_split)

lemma errc_unknown:
  assumes "\<not> (0 \<le> i \<and> i \<le> 8 \<or> 256 \<le> i \<and> i \<le> 262)"
  shows "errc_of_int i = OtherErrc i"
proof -
  have "i \<notin> {0, 1, 2, 3, 4, 5, 6, 7, 8, 256, 257, 258, 259, 260, 261, 262}"
    using assms by (simp only: insert_iff empty_iff) presburger
  then show ?thesis by (simp add: errc_of_int_def)
qed

lemma errc_known:
  assumes "0 \<le> i \<and> i \<le> 8 \<or> 256 \<le> i \<and> i \<le> 262"
  shows "SocksErrCategory_message i \<noteq> ''(unrecognized error)''"
proof -
  from assms have "i \<in> {0, 1, 2, 3, 4, 5, 6, 7, 8, 256, 257, 258, 259, 260, 261, 262}"
    by (simp only: insert_iff empty_iff) presburger
  then show ?thesis
    by (elim insertE) (simp_all add: SocksErrCategory_message_def errc_of_int_def)
qed

text \<open>
  the error values of the server's reply byte and of the client itself are distinct, survive the
  conversion to an error code and back, and exactly a value without an enumerator is reported as an
  unrecognized error.
\<close>

theorem errc_roundtrip:
  "errc_int (errc_of_int i) = i \<and>
   (SocksErrCategory_message i = ''(unrecognized error)'' \<longleftrightarrow> \<not> (0 \<le> i \<and> i \<le> 8 \<or> 256 \<le> i \<and> i \<le> 262))"
proof (cases "0 \<le> i \<and> i \<le> 8 \<or> 256 \<le> i \<and> i \<le> 262")
  case True
  then show ?thesis using errc_known [OF True] errc_int_of_int by simp
next
  case False
  then show ?thesis using errc_unknown [OF False] errc_int_of_int by (simp add: SocksErrCategory_message_def)
qed

end
