(* ===== verification/OutputQueue.thy ===== *)
theory OutputQueue
  imports Main
begin

text \<open>
  The contract of a component that accepts data at any time and writes it to a stream with at most
  one asynchronous write outstanding.  \<open>client/net/connection.cpp\<close> and the websockets of
  \<open>client/httpd.cpp\<close> are two providers; what their users rely on is proved here once.

  \<open>inflight\<close> are the writes started and not completed, \<open>waiting\<close> is all that was accepted and not
  yet written, the writes in flight included.
\<close>

datatype 'm qevent = Enq 'm | Ack

text \<open>A schedule: acceptances and completions of the oldest write; the output is what was written.\<close>

fun qrun ::
  "('m \<Rightarrow> 's \<Rightarrow> 's) \<Rightarrow> ('s \<Rightarrow> 's) \<Rightarrow> ('s \<Rightarrow> 'b list list) \<Rightarrow> 'm qevent list \<Rightarrow> 's \<Rightarrow> 'b list \<times> 's" where
  "qrun enq ack inflight [] s = ([], s)"
| "qrun enq ack inflight (Enq m # evs) s = qrun enq ack inflight evs (enq m s)"
| "qrun enq ack inflight (Ack # evs) s =
     (case inflight s of
        [] \<Rightarrow> qrun enq ack inflight evs s
      | b # _ \<Rightarrow> (case qrun enq ack inflight evs (ack s) of (out, s) \<Rightarrow> (b @ out, s)))"

fun enqueued :: "'m qevent list \<Rightarrow> 'm list" where
  "enqueued [] = []"
| "enqueued (Enq m # evs) = m # enqueued evs"
| "enqueued (Ack # evs) = enqueued evs"

locale output_queue =
  fixes enq :: "'m \<Rightarrow> 's \<Rightarrow> 's"
    and ack :: "'s \<Rightarrow> 's"
    and inflight :: "'s \<Rightarrow> 'b list list"
    and waiting :: "'s \<Rightarrow> 'b list"
    and payload :: "'m \<Rightarrow> 'b list"
    and inv :: "'s \<Rightarrow> bool"
  assumes enq_inv: "inv s \<Longrightarrow> inv (enq m s)"
    and ack_inv: "inv s \<Longrightarrow> inflight s \<noteq> [] \<Longrightarrow> inv (ack s)"
    and one_inflight: "inv s \<Longrightarrow> length (inflight s) \<le> 1"
    and enq_waiting: "inv s \<Longrightarrow> waiting (enq m s) = waiting s @ payload m"
    and ack_waiting: "inv s \<Longrightarrow> inflight s = [b] \<Longrightarrow> waiting s = b @ waiting (ack s)"
    and idle_waiting: "inv s \<Longrightarrow> inflight s = [] \<Longrightarrow> waiting s = []"
begin

lemma inflight_cases:
  assumes "inv s"
  obtains "inflight s = []" | b where "inflight s = [b]"
proof (cases "inflight s")
  case (Cons b bs)
  with one_inflight [OF assms] that(2) show ?thesis by simp
qed (use that in simp)

lemma run_fifo:
  "inv s \<Longrightarrow> qrun enq ack inflight evs s = (out, s') \<Longrightarrow>
   inv s' \<and> out @ waiting s' = waiting s @ concat (List.map payload (enqueued evs))"
proof (induction evs arbitrary: s out)
  case Nil
  then show ?case by simp
next
  case (Cons e evs)
  show ?case
  proof (cases e)
    case (Enq m)
    with Cons.IH [OF enq_inv [OF Cons.prems(1)]] Cons.prems show ?thesis
      by (simp add: enq_waiting)
  next
    case Ack
    show ?thesis
    proof (cases rule: inflight_cases [OF Cons.prems(1)])
      case 1
      with Ack Cons show ?thesis by simp
    next
      case (2 b)
      from Cons.prems(2) Ack 2 obtain o1 where
        r: "qrun enq ack inflight evs (ack s) = (o1, s')" "out = b @ o1"
        by (auto split: prod.splits)
      have "inv (ack s)" using ack_inv [OF Cons.prems(1)] 2 by simp
      from Cons.IH [OF this r(1)] r(2) Ack ack_waiting [OF Cons.prems(1) 2] show ?thesis
        by simp
    qed
  qed
qed

text \<open>Once no write is outstanding, everything accepted has been written, in order, once.\<close>

lemma run_drained:
  "inv s \<Longrightarrow> waiting s = [] \<Longrightarrow> qrun enq ack inflight evs s = (out, s') \<Longrightarrow> inflight s' = [] \<Longrightarrow>
   out = concat (List.map payload (enqueued evs))"
  using run_fifo [of s evs out s'] idle_waiting [of s'] by simp

lemma run_prefix:
  "inv s \<Longrightarrow> waiting s = [] \<Longrightarrow> qrun enq ack inflight evs s = (out, s') \<Longrightarrow>
   \<exists>rest. concat (List.map payload (enqueued evs)) = out @ rest \<and> rest = waiting s' \<and>
     length (inflight s') \<le> 1"
  using run_fifo [of s evs out s'] one_inflight [of s'] by auto

end

end
