(* ===== verification/Machine.thy ===== *)
theory Machine
  imports Main
begin

text \<open>
  The contract of the state machines of the host: a partial step (\<open>None\<close> is undefined behaviour), what
  the environment may do next, and an invariant.  What follows for every run is proved here once;
  websockets, HTTP sessions, the server, the
  connection, child processes, registry references and userdata are its providers.
\<close>

fun run_steps :: "('e \<Rightarrow> 's \<Rightarrow> 's option) \<Rightarrow> 'e list \<Rightarrow> 's \<Rightarrow> 's option" where
  "run_steps step [] s = Some s"
| "run_steps step (e # es) s = Option.bind (step e s) (run_steps step es)"

text \<open>Every event of the run is one the environment may send in the state it is sent in.\<close>

fun permitted :: "('e \<Rightarrow> 's \<Rightarrow> 's option) \<Rightarrow> ('e \<Rightarrow> 's \<Rightarrow> bool) \<Rightarrow> 'e list \<Rightarrow> 's \<Rightarrow> bool" where
  "permitted step ok [] s = True"
| "permitted step ok (e # es) s =
     (ok e s \<and> (case step e s of None \<Rightarrow> True | Some s \<Rightarrow> permitted step ok es s))"

lemma run_steps_append:
  "run_steps step (xs @ ys) s = Option.bind (run_steps step xs s) (run_steps step ys)"
  by (induction xs arbitrary: s) (auto simp: bind_eq_None_conv split: Option.bind_split)

lemma permitted_always: "(\<And>s. list_all (\<lambda>e. ok e s) es) \<Longrightarrow> permitted step ok es s"
  by (induction es arbitrary: s) (auto split: option.splits)

text \<open>A machine whose every successful step preserves the invariant.\<close>

locale invariant_machine =
  fixes step :: "'e \<Rightarrow> 's \<Rightarrow> 's option"
    and inv :: "'s \<Rightarrow> bool"
  assumes preserved: "inv s \<Longrightarrow> step e s = Some s' \<Longrightarrow> inv s'"
begin

lemma run_preserves: "inv s \<Longrightarrow> run_steps step es s = Some s' \<Longrightarrow> inv s'"
proof (induction es arbitrary: s)
  case (Cons e es)
  then obtain s1 where "step e s = Some s1" "run_steps step es s1 = Some s'"
    by (auto simp: bind_eq_Some_conv)
  with Cons.IH preserved [OF Cons.prems(1)] show ?case by blast
qed simp

end

text \<open>A machine whose permitted steps succeed, too.\<close>

locale machine =
  fixes step :: "'e \<Rightarrow> 's \<Rightarrow> 's option"
    and ok :: "'e \<Rightarrow> 's \<Rightarrow> bool"
    and inv :: "'s \<Rightarrow> bool"
  assumes progress: "inv s \<Longrightarrow> ok e s \<Longrightarrow> \<exists>s'. step e s = Some s' \<and> inv s'"
begin

lemma run_safe: "inv s \<Longrightarrow> permitted step ok es s \<Longrightarrow> \<exists>s'. run_steps step es s = Some s' \<and> inv s'"
proof (induction es arbitrary: s)
  case (Cons e es)
  with progress [of s e] obtain s1 where "step e s = Some s1" "inv s1" "permitted step ok es s1" by auto
  with Cons.IH show ?case by auto
qed simp

end

text \<open>Refusing what is not permitted turns the second contract into the first.\<close>

sublocale machine \<subseteq> guarded: invariant_machine "\<lambda>e s. if ok e s then step e s else None" inv
  by unfold_locales (use progress in \<open>fastforce split: if_splits\<close>)

text \<open>A machine whose steps are total: the events are folded over the state.\<close>

lemma run_steps_total: "run_steps (\<lambda>e s. Some (step e s)) es s = Some (fold step es s)"
  by (induction es arbitrary: s) simp_all

locale total_machine =
  fixes step :: "'e \<Rightarrow> 's \<Rightarrow> 's"
    and allowed :: "'e \<Rightarrow> bool"
    and inv :: "'s \<Rightarrow> bool"
  assumes kept: "inv s \<Longrightarrow> allowed e \<Longrightarrow> inv (step e s)"

sublocale total_machine \<subseteq> partial: machine "\<lambda>e s. Some (step e s)" "\<lambda>e s. allowed e" inv
  by unfold_locales (simp add: kept)

context total_machine
begin

lemma fold_inv: "inv s \<Longrightarrow> list_all allowed es \<Longrightarrow> inv (fold step es s)"
  using partial.run_safe [of s es] permitted_always [of "\<lambda>e s. allowed e" es "\<lambda>e s. Some (step e s)" s]
  by (simp add: run_steps_total)

end

end
