(* ===== verification/LuaApi.thy ===== *)
theory LuaApi
  imports Prelude "HOL-Library.AList"
begin

text \<open>
  Arguments and results of the functions registered with Lua.

  Lua is not part of the sources.  Its values appear with the constructors the bindings can tell
  apart (a float is its bits); functions, threads and userdata the sources only pass on are opaque references.
  A table is the list of its
  entries, set with \<open>AList.update\<close>.  How Lua coerces a value to a string or an integer (\<open>lua_tolstring\<close>, \<open>lua_tointegerx\<close>) is a
  parameter \<open>lua_conv\<close>.  The macros of \<open>lauxlib.h\<close> the bindings use (\<open>luaL_opt\<close>,
  \<open>luaL_argcheck\<close>) and the helpers of \<open>client/strings.hpp\<close> are spelled out.  A Lua error
  raised by a binding is the left side of a sum; \<open>Terminates\<close> is a call of \<open>std::terminate\<close> or \<open>abort\<close>.
\<close>

datatype lua_value =
    LNil
  | LBool bool
  | LInt int
  | LFloat u64
  | LStr string
  | LTable "(lua_value \<times> lua_value) list"
  | LRef nat

record lua_conv =
  lua_tostr :: "lua_value \<Rightarrow> string option"
  lua_toint :: "lua_value \<Rightarrow> int option"

datatype lua_error = BadArg nat string | LuaErr lua_value | Terminates string

fun sbind :: "'e + 'a \<Rightarrow> ('a \<Rightarrow> 'e + 'b) \<Rightarrow> 'e + 'b" where
  "sbind (Inl e) f = Inl e"
| "sbind (Inr x) f = f x"

lemma sbind_Inr: "sbind x f = Inr y \<longleftrightarrow> (\<exists>z. x = Inr z \<and> f z = Inr y)"
  by (cases x) auto

definition lua_arg :: "lua_value list \<Rightarrow> nat \<Rightarrow> lua_value option" where
  "lua_arg args n = (if 1 \<le> n \<and> n \<le> length args then Some (args ! (n - 1)) else None)"

fun lua_toboolean :: "lua_value option \<Rightarrow> bool" where
  "lua_toboolean None = False"
| "lua_toboolean (Some v) = (v \<noteq> LNil \<and> v \<noteq> LBool False)"

definition noneornil :: "lua_value list \<Rightarrow> nat \<Rightarrow> bool" where
  "noneornil args n = (lua_arg args n = None \<or> lua_arg args n = Some LNil)"

definition checkany :: "lua_value list \<Rightarrow> nat \<Rightarrow> lua_error + unit" where
  "checkany args n = (if lua_arg args n = None then Inl (BadArg n ''value expected'') else Inr ())"

definition argcheck :: "bool \<Rightarrow> nat \<Rightarrow> string \<Rightarrow> lua_error + unit" where
  "argcheck ok n msg = (if ok then Inr () else Inl (BadArg n msg))"

definition check_string_view :: "lua_conv \<Rightarrow> lua_value list \<Rightarrow> nat \<Rightarrow> lua_error + string" where
  "check_string_view conv args n =
     (case Option.bind (lua_arg args n) (lua_tostr conv) of
        None \<Rightarrow> Inl (BadArg n ''string expected'') | Some s \<Rightarrow> Inr s)"

definition checkinteger :: "lua_conv \<Rightarrow> lua_value list \<Rightarrow> nat \<Rightarrow> lua_error + int" where
  "checkinteger conv args n =
     (case Option.bind (lua_arg args n) (lua_toint conv) of
        None \<Rightarrow> Inl (BadArg n ''number expected'') | Some i \<Rightarrow> Inr i)"

definition luaL_opt ::
  "(lua_value list \<Rightarrow> nat \<Rightarrow> lua_error + 'a) \<Rightarrow> lua_value list \<Rightarrow> nat \<Rightarrow> 'a \<Rightarrow> lua_error + 'a" where
  "luaL_opt f args n d = (if noneornil args n then Inr d else f args n)"

text \<open>An \<open>int\<close> parameter takes the low 32 bits of a \<open>lua_Integer\<close>.\<close>

definition to_int :: "int \<Rightarrow> int" where
  "to_int i = sint (word_of_int i :: 32 word)"

text \<open>A \<open>char const*\<close> read as a C string: up to the first NUL.\<close>

definition c_str :: "string \<Rightarrow> string" where
  "c_str s = takeWhile (\<lambda>c. c \<noteq> NUL) s"

text \<open>An instance of the coercions for concrete inputs: strings and integers as they are.\<close>

fun plain_tostr :: "lua_value \<Rightarrow> string option" where
  "plain_tostr (LStr s) = Some s"
| "plain_tostr _ = None"

fun plain_toint :: "lua_value \<Rightarrow> int option" where
  "plain_toint (LInt i) = Some i"
| "plain_toint _ = None"

definition plain_conv :: lua_conv where
  "plain_conv = \<lparr>lua_tostr = plain_tostr, lua_toint = plain_toint\<rparr>"

end
