(* ===== verification/Connection.thy ===== *)
theory Connection
  imports Socks5 OutputQueue Machine LuaApi IrcSession
begin

text \<open>
  \<open>client/net/connection.hpp\<close>, \<open>connection.cpp\<close>, \<open>stream.hpp\<close> and the functions of
  \<open>client/irc/lua.cpp\<close> that start, feed and close a connection.

  The write queue is a state record; the ghost field \<open>c_ops\<close> lists the asynchronous writes started
  and not completed, each with the bytes it was given.  Establishing a connection is a sequence of
  library calls, each of which may fail: \<open>connect\<close> returns the calls made, in order, and the
  fingerprint text or the error that ended it, for any outcome \<open>env\<close> of the calls.
\<close>

section \<open>The stream\<close>

datatype stream_kind = TcpSocket | TlsStream

text \<open>The layers in the order in which they are put on top of each other.\<close>

instantiation stream_kind :: linorder
begin

definition less_eq_stream_kind :: "stream_kind \<Rightarrow> stream_kind \<Rightarrow> bool" where
  "less_eq_stream_kind a b \<longleftrightarrow> (a = TlsStream \<longrightarrow> b = TlsStream)"

definition less_stream_kind :: "stream_kind \<Rightarrow> stream_kind \<Rightarrow> bool" where
  "less_stream_kind a b \<longleftrightarrow> a = TcpSocket \<and> b = TlsStream"

instance
proof
  fix a b c :: stream_kind
  show "a < b \<longleftrightarrow> a \<le> b \<and> \<not> b \<le> a" "a \<le> b \<Longrightarrow> b \<le> a \<Longrightarrow> a = b"
    by (cases a; cases b; simp add: less_eq_stream_kind_def less_stream_kind_def)+
qed (auto simp: less_eq_stream_kind_def)

end

lemma tls_is_top: "TlsStream \<le> k \<longleftrightarrow> k = TlsStream"
  by (simp add: less_eq_stream_kind_def)

record stream =
  s_base :: stream_kind
  s_open :: bool

definition Stream_new :: stream where
  "Stream_new = \<lparr>s_base = TcpSocket, s_open = False\<rparr>"

definition Stream_reset :: "stream \<Rightarrow> stream" where
  "Stream_reset s = \<lparr>s_base = TcpSocket, s_open = False\<rparr>"

text \<open>\<open>std::get<tcp_socket>\<close> throws when the stream is a TLS stream already.\<close>

definition Stream_upgrade :: "stream \<Rightarrow> stream option" where
  "Stream_upgrade s = (if s_base s = TcpSocket then Some (s\<lparr>s_base := TlsStream\<rparr>) else None)"

text \<open>
  \<open>close\<close> shuts down and closes the socket at the bottom, whatever is on top of it; reads and writes go
  to the layer that is there at the time: the operation with the layer it is started on.
\<close>

definition Stream_close :: "stream \<Rightarrow> stream" where
  "Stream_close s = s\<lparr>s_open := False\<rparr>"

datatype layer_op = ReadSome stream_kind nat | WriteSome stream_kind string

definition async_read_some :: "stream \<Rightarrow> nat \<Rightarrow> layer_op" where
  "async_read_some s n = (case s_base s of TcpSocket \<Rightarrow> ReadSome TcpSocket n | TlsStream \<Rightarrow> ReadSome TlsStream n)"

definition async_write_some :: "stream \<Rightarrow> string \<Rightarrow> layer_op" where
  "async_write_some s buf = (case s_base s of TcpSocket \<Rightarrow> WriteSome TcpSocket buf | TlsStream \<Rightarrow> WriteSome TlsStream buf)"

section \<open>The write queue\<close>

record connection =
  c_stream :: stream
  c_resolving :: bool
  c_sending :: string
  c_send :: string
  c_ops :: "string list"

definition connection_new :: connection where
  "connection_new = \<lparr>c_stream = Stream_new, c_resolving = False, c_sending = [], c_send = [], c_ops = []\<rparr>"

definition write_actual :: "connection \<Rightarrow> connection" where
  "write_actual c =
     c\<lparr>c_send := c_sending c, c_sending := c_send c, c_ops := c_ops c @ [c_send c]\<rparr>"

definition connection_write :: "string \<Rightarrow> connection \<Rightarrow> connection" where
  "connection_write cmd c =
     (if cmd \<noteq> [] then
        (let c = c\<lparr>c_send := c_send c @ cmd\<rparr>
         in if c_sending c = [] then write_actual c else c)
      else c)"

text \<open>The completion handler of \<open>write_actual\<close>, for the oldest write.\<close>

definition write_done :: "bool \<Rightarrow> connection \<Rightarrow> connection" where
  "write_done error c =
     (let c = c\<lparr>c_ops := tl (c_ops c), c_sending := []\<rparr>
      in if \<not> error \<and> c_send c \<noteq> [] then write_actual c else c)"

definition connection_close :: "connection \<Rightarrow> connection" where
  "connection_close c = c\<lparr>c_resolving := False, c_stream := Stream_close (c_stream c)\<rparr>"

text \<open>
  A write in flight reads the vector \<open>sending_\<close> itself, so the queue is only right if that vector
  still has the bytes the write was started with: \<open>conn_ok\<close>.
\<close>

definition conn_ok :: "connection \<Rightarrow> bool" where
  "conn_ok c \<longleftrightarrow> c_ops c = (if c_sending c = [] then [] else [c_sending c])"

definition conn_live :: "connection \<Rightarrow> bool" where
  "conn_live c \<longleftrightarrow> conn_ok c \<and> (c_sending c = [] \<longrightarrow> c_send c = [])"

lemma conn_ok_new [inv_intros]: "conn_ok connection_new"
  by (simp add: conn_ok_def connection_new_def)

lemma conn_ok_write [inv_intros]: "conn_ok c \<Longrightarrow> conn_ok (connection_write cmd c)"
  by (auto simp: conn_ok_def connection_write_def write_actual_def Let_def)

lemma conn_ok_done [inv_intros]: "conn_ok c \<Longrightarrow> conn_ok (write_done e c)"
  by (auto simp: conn_ok_def write_done_def write_actual_def Let_def)

lemma conn_ok_close [inv_intros]: "conn_ok c \<Longrightarrow> conn_ok (connection_close c)"
  by (simp add: conn_ok_def connection_close_def)

definition conn_waiting :: "connection \<Rightarrow> string" where
  "conn_waiting c = c_sending c @ c_send c"

interpretation conn: output_queue connection_write "write_done False" c_ops conn_waiting "\<lambda>s. s" conn_live
proof (unfold_locales, goal_cases)
  case (1 s m)
  then show ?case
    by (auto simp: conn_live_def conn_ok_def connection_write_def write_actual_def Let_def)
next
  case (2 s)
  then show ?case by (auto simp: conn_live_def conn_ok_def write_done_def write_actual_def Let_def)
next
  case (3 s)
  then show ?case by (simp add: conn_live_def conn_ok_def)
next
  case (4 s m)
  then show ?case
    by (auto simp: conn_live_def conn_waiting_def connection_write_def write_actual_def Let_def)
next
  case (5 s b)
  then show ?case
    by (auto simp: conn_live_def conn_ok_def conn_waiting_def write_done_def write_actual_def Let_def
        split: if_splits)
next
  case (6 s)
  then show ?case by (auto simp: conn_live_def conn_ok_def conn_waiting_def split: if_splits)
qed

text \<open>The events a connection sees in any order: Lua calls and completions, which may fail.\<close>

datatype conn_event = CWrite string | CDone bool | CClose

fun conn_step :: "conn_event \<Rightarrow> connection \<Rightarrow> connection" where
  "conn_step (CWrite s) c = connection_write s c"
| "conn_step (CDone e) c = (if c_ops c = [] then c else write_done e c)"
| "conn_step CClose c = connection_close c"

interpretation conn_machine: total_machine conn_step "\<lambda>_. True" conn_ok
proof unfold_locales
  fix c e
  assume "conn_ok c"
  then show "conn_ok (conn_step e c)" by (cases e) (auto intro: inv_intros)
qed

text \<open>
  C5: whatever the order of writes, completions, failures and closing, at most one asynchronous write
  is outstanding, and the vector it reads still has exactly the bytes it was started with.
\<close>

theorem one_write_in_flight:
  "let c = fold conn_step evs connection_new
   in length (c_ops c) \<le> 1 \<and> (\<forall>b \<in> set (c_ops c). b = c_sending c \<and> b \<noteq> [])"
proof -
  have "conn_ok (fold conn_step evs connection_new)"
    by (rule conn_machine.fold_inv [OF conn_ok_new]) (simp add: list_all_iff)
  then show ?thesis by (auto simp: conn_ok_def Let_def split: if_splits)
qed

lemma one_write_in_flight_witness:
  "c_sending (fold conn_step [CWrite ''ab'', CWrite ''c''] connection_new) = ''ab''"
proof -
  let ?c = "fold conn_step [CWrite ''ab'', CWrite ''c''] connection_new"
  have "''ab'' \<in> set (c_ops ?c)"
    by (simp add: connection_write_def write_actual_def connection_new_def Let_def)
  with one_write_in_flight [of "[CWrite ''ab'', CWrite ''c'']"] show ?thesis by (simp add: Let_def)
qed

text \<open>
  C6: as long as no write fails, what has been written is a prefix of the concatenation of everything
  passed to \<open>write\<close>, in order and without loss or duplication, and it is all of it whenever no write
  is outstanding.
\<close>

theorem writes_delivered_in_order:
  "case qrun connection_write (write_done False) c_ops evs connection_new of (out, c) \<Rightarrow>
     out @ c_sending c @ c_send c = concat (enqueued evs) \<and>
     (c_ops c = [] \<longrightarrow> out = concat (enqueued evs))"
proof -
  have new: "conn_live connection_new" "conn_waiting connection_new = []"
    by (simp_all add: conn_live_def conn_ok_def connection_new_def conn_waiting_def)
  obtain out c where r: "qrun connection_write (write_done False) c_ops evs connection_new = (out, c)"
    by fastforce
  from conn.run_fifo [OF new(1) r] conn.run_drained [OF new r] new(2) show ?thesis
    by (simp add: r conn_waiting_def)
qed

lemma writes_delivered_in_order_witness:
  "fst (qrun connection_write (write_done False) c_ops [Enq ''ab'', Enq ''c'', Ack, Enq ''d'', Ack, Ack] connection_new)
     = ''abcd''"
proof -
  let ?evs = "[Enq ''ab'', Enq ''c'', Ack, Enq ''d'', Ack, Ack]"
  have "c_ops (snd (qrun connection_write (write_done False) c_ops ?evs connection_new)) = []"
    by (simp add: connection_write_def write_actual_def write_done_def connection_new_def Let_def)
  with writes_delivered_in_order [of ?evs] show ?thesis by (simp add: case_prod_beta)
qed

section \<open>Settings\<close>

record settings =
  st_tls :: bool
  st_host :: string
  st_port :: u16
  st_client_cert :: "nat option"
  st_client_key :: "nat option"
  st_verify :: string
  st_sni :: string
  st_socks_host :: string
  st_socks_port :: u16
  st_socks_auth :: Auth

text \<open>
  \<open>l_start_irc\<close> up to the point where the session is spawned.  \<open>check_x509\<close> and \<open>check_pkey\<close> give
  the handle of an argument that is such an object.
\<close>

definition check_handle :: "(lua_value \<Rightarrow> nat option) \<Rightarrow> lua_value list \<Rightarrow> nat \<Rightarrow> lua_error + nat option" where
  "check_handle h args n =
     (case Option.bind (lua_arg args n) h of None \<Rightarrow> Inl (BadArg n ''object expected'') | Some p \<Rightarrow> Inr (Some p))"

definition l_start_irc ::
  "lua_conv \<Rightarrow> (lua_value \<Rightarrow> nat option) \<Rightarrow> (lua_value \<Rightarrow> nat option) \<Rightarrow> lua_value list \<Rightarrow> lua_error + settings" where
  "l_start_irc conv check_x509 check_pkey args =
     (let tls = lua_toboolean (lua_arg args 1)
      in sbind (check_string_view conv args 2) (\<lambda>host.
         sbind (checkinteger conv args 3) (\<lambda>port.
         sbind (luaL_opt (check_handle check_x509) args 4 None) (\<lambda>client_cert.
         sbind (luaL_opt (check_handle check_pkey) args 5 None) (\<lambda>client_key.
         sbind (luaL_opt (check_string_view conv) args 6 host) (\<lambda>verify.
         sbind (luaL_opt (check_string_view conv) args 7 host) (\<lambda>sni.
         sbind (luaL_opt (check_string_view conv) args 8 []) (\<lambda>socks_host.
         sbind (luaL_opt (checkinteger conv) args 9 0) (\<lambda>socks_port.
         sbind (luaL_opt (check_string_view conv) args 10 []) (\<lambda>socks_user.
         sbind (luaL_opt (check_string_view conv) args 11 []) (\<lambda>socks_pass.
         sbind (checkany args 12) (\<lambda>_.
         sbind (argcheck (1 \<le> port \<and> port \<le> 0xffff) 3 ''port out of range'') (\<lambda>_.
         sbind (argcheck (0 \<le> socks_port \<and> socks_port \<le> 0xffff) 9 ''port out of range'') (\<lambda>_.
         let socks_auth =
               (if c_str socks_user \<noteq> [] \<or> c_str socks_pass \<noteq> []
                then UsernamePasswordCredential (c_str socks_user) (c_str socks_pass)
                else NoCredential)
         in Inr \<lparr>st_tls = tls, st_host = c_str host, st_port = word_of_int port,
              st_client_cert = client_cert, st_client_key = client_key,
              st_verify = c_str verify, st_sni = c_str sni,
              st_socks_host = c_str socks_host, st_socks_port = word_of_int socks_port,
              st_socks_auth = socks_auth\<rparr>))))))))))))))"

lemma uint_u16: "0 \<le> p \<Longrightarrow> p \<le> 65535 \<Longrightarrow> uint (word_of_int p :: u16) = p"
  by (simp add: uint_word_of_int)

text \<open>
  the settings of an accepted call hold the port numbers that were passed, never a truncated one;
  without an explicit name the certificate is verified against, and SNI sends, the server's own host
  name (verification is only off when an empty string is passed); a proxy is only used when one was
  named; and a callback was passed.
\<close>

theorem start_irc_settings:
  assumes "l_start_irc conv check_x509 check_pkey args = Inr st"
  shows "checkinteger conv args 3 = Inr (uint (st_port st)) \<and> 1 \<le> uint (st_port st) \<and>
    luaL_opt (checkinteger conv) args 9 0 = Inr (uint (st_socks_port st)) \<and>
    (noneornil args 6 \<longrightarrow> st_verify st = st_host st) \<and>
    (noneornil args 7 \<longrightarrow> st_sni st = st_host st) \<and>
    (noneornil args 8 \<longrightarrow> st_socks_host st = []) \<and>
    lua_arg args 12 \<noteq> None"
proof -
  from assms obtain host port cert key verify sni socks_host socks_port user pass u1 u2 u3 where
    a: "checkinteger conv args 3 = Inr port" "luaL_opt (check_string_view conv) args 6 host = Inr verify"
      "luaL_opt (check_string_view conv) args 7 host = Inr sni"
      "luaL_opt (check_string_view conv) args 8 [] = Inr socks_host"
      "luaL_opt (checkinteger conv) args 9 0 = Inr socks_port"
      "checkany args 12 = Inr u1"
      "argcheck (1 \<le> port \<and> port \<le> 0xffff) 3 ''port out of range'' = Inr u2"
      "argcheck (0 \<le> socks_port \<and> socks_port \<le> 0xffff) 9 ''port out of range'' = Inr u3" and
    st: "Inr \<lparr>st_tls = lua_toboolean (lua_arg args 1), st_host = c_str host, st_port = word_of_int port,
              st_client_cert = cert, st_client_key = key,
              st_verify = c_str verify, st_sni = c_str sni,
              st_socks_host = c_str socks_host, st_socks_port = word_of_int socks_port,
              st_socks_auth = (if c_str user \<noteq> [] \<or> c_str pass \<noteq> []
                then UsernamePasswordCredential (c_str user) (c_str pass)
                else NoCredential)\<rparr> = (Inr st :: lua_error + settings)"
    unfolding l_start_irc_def Let_def sbind_Inr by blast
  from a(7,8) have ports: "1 \<le> port" "port \<le> 65535" "0 \<le> socks_port" "socks_port \<le> 65535"
    by (simp_all add: argcheck_def split: if_splits)
  have "uint (st_port st) = port" "uint (st_socks_port st) = socks_port"
    using st ports by (auto simp: uint_u16)
  moreover have "noneornil args 6 \<longrightarrow> st_verify st = st_host st" "noneornil args 7 \<longrightarrow> st_sni st = st_host st"
    "noneornil args 8 \<longrightarrow> st_socks_host st = []"
    using st a(2,3,4) by (auto simp: luaL_opt_def c_str_def)
  moreover have "lua_arg args 12 \<noteq> None" using a(6) by (auto simp: checkany_def split: if_splits)
  ultimately show ?thesis using a(1,5) ports by simp
qed

lemma start_irc_tls:
  assumes "l_start_irc conv check_x509 check_pkey args = Inr st"
  shows "st_tls st = lua_toboolean (lua_arg args 1)"
proof -
  from assms obtain host port cert key verify sni socks_host socks_port auth where
    "Inr \<lparr>st_tls = lua_toboolean (lua_arg args 1), st_host = host, st_port = port,
       st_client_cert = cert, st_client_key = key, st_verify = verify, st_sni = sni,
       st_socks_host = socks_host, st_socks_port = socks_port, st_socks_auth = auth\<rparr> =
     (Inr st :: lua_error + settings)"
    unfolding l_start_irc_def Let_def sbind_Inr by blast
  then show ?thesis by auto
qed

lemma start_irc_settings_witness:
  "\<exists>st. l_start_irc plain_conv (\<lambda>_. None) (\<lambda>_. None)
      [LBool True, LStr ''irc.libera.chat'', LInt 6697, LNil, LNil, LNil, LNil, LNil, LNil, LNil, LNil, LRef 1] = Inr st \<and>
    uint (st_port st) = 6697 \<and> st_verify st = ''irc.libera.chat'' \<and> st_socks_auth st = NoCredential"
proof -
  let ?args = "[LBool True, LStr ''irc.libera.chat'', LInt 6697, LNil, LNil, LNil, LNil, LNil, LNil, LNil, LNil, LRef 1]"
  define st where "st = \<lparr>st_tls = True, st_host = ''irc.libera.chat'', st_port = 6697,
    st_client_cert = None, st_client_key = None, st_verify = ''irc.libera.chat'',
    st_sni = ''irc.libera.chat'', st_socks_host = [], st_socks_port = 0, st_socks_auth = NoCredential\<rparr>"
  have ok: "l_start_irc plain_conv (\<lambda>_. None) (\<lambda>_. None) ?args = Inr st"
    by (simp add: l_start_irc_def st_def plain_conv_def check_string_view_def checkinteger_def lua_arg_def
        luaL_opt_def noneornil_def checkany_def argcheck_def c_str_def Let_def)
  from start_irc_settings [OF ok] have "checkinteger plain_conv ?args 3 = Inr (uint (st_port st))"
    "st_verify st = st_host st"
    by (simp_all add: noneornil_def lua_arg_def)
  moreover have "checkinteger plain_conv ?args 3 = Inr 6697"
    by (simp add: checkinteger_def plain_conv_def lua_arg_def)
  moreover have "st_host st = ''irc.libera.chat''" "st_socks_auth st = NoCredential"
    by (simp_all add: st_def)
  ultimately show ?thesis using ok by auto
qed

section \<open>Establishing a connection\<close>

datatype conn_op =
    StreamReset
  | Resolve string string
  | TcpConnect
  | SetNoDelay
  | SetSendBuffer int
  | SetReceiveBuffer int
  | SetCloexec
  | SocksConnect socks_config
  | TlsContext
  | StreamUpgrade
  | UseCertificate nat
  | UsePrivateKey nat
  | SetReadBio nat
  | SetWriteBio nat
  | SetAlpnProtos string
  | VerifyPeer string
  | SetSni string
  | Handshake
  | PeerDigest

text \<open>The outcome of a library call: the text of its error, or what it returns.\<close>

type_synonym conn_env = "conn_op \<Rightarrow> string + string"

text \<open>
  The exceptions the sources throw themselves when a call of OpenSSL fails.  \<open>openssl_error\<close> takes the
  oldest entry of OpenSSL's error queue, as an \<open>int\<close>, clears the queue and throws; \<open>message\<close> is the text of a
  code.  The result is the text of the exception and the queue that is left.
\<close>

definition openssl_error :: "(int \<Rightarrow> string) \<Rightarrow> u64 list \<Rightarrow> string \<Rightarrow> string \<times> u64 list" where
  "openssl_error message errors prefix =
     (let code = (case errors of [] \<Rightarrow> 0 | e # _ \<Rightarrow> e)
      in (prefix @ '': '' @ message (to_int (uint code)), []))"

fun op_error :: "conn_op \<Rightarrow> string \<Rightarrow> string" where
  "op_error (UseCertificate _) e = fst (openssl_error (\<lambda>_. e) [] ''SSL_use_certificate'')"
| "op_error (UsePrivateKey _) e = fst (openssl_error (\<lambda>_. e) [] ''SSL_use_PrivateKey'')"
| "op_error (SetAlpnProtos _) e = ''SSL_set_alpn_protos''"
| "op_error (SetSni _) e = ''SSL_set_tlsext_host_name''"
| "op_error _ e = e"

type_synonym 'a conn_io = "conn_op list \<times> (string + 'a)"

definition perform :: "conn_env \<Rightarrow> conn_op \<Rightarrow> string conn_io" where
  "perform env op = ([op], case env op of Inl e \<Rightarrow> Inl (op_error op e) | Inr s \<Rightarrow> Inr s)"

definition done_io :: "'a \<Rightarrow> 'a conn_io" where
  "done_io x = ([], Inr x)"

fun cbind :: "'a conn_io \<Rightarrow> ('a \<Rightarrow> 'b conn_io) \<Rightarrow> 'b conn_io" where
  "cbind (tr, Inl e) f = (tr, Inl e)"
| "cbind (tr, Inr x) f = (case f x of (tr', r) \<Rightarrow> (tr @ tr', r))"

definition optionally :: "bool \<Rightarrow> string conn_io \<Rightarrow> string conn_io" where
  "optionally b m = (if b then m else done_io [])"

fun alpn_encode :: "string list \<Rightarrow> string" where
  "alpn_encode [] = []"
| "alpn_encode (protocol # protocols) = char_of (length protocol) # protocol @ alpn_encode protocols"

definition hex_digit :: "nat \<Rightarrow> char" where
  "hex_digit d = (if d < 10 then char_of (48 + d) else char_of (87 + d))"

definition hex_byte :: "char \<Rightarrow> string" where
  "hex_byte c = [hex_digit (of_char c div 16), hex_digit (of_char c mod 16)]"

definition hex_bytes :: "string \<Rightarrow> string" where
  "hex_bytes md = concat (List.map hex_byte md)"

text \<open>A digest that fails leaves the length 0.\<close>

definition peer_fingerprint :: "conn_env \<Rightarrow> string conn_io" where
  "peer_fingerprint env =
     ([PeerDigest], Inr (hex_bytes (case env PeerDigest of Inl e \<Rightarrow> [] | Inr md \<Rightarrow> md)))"

text \<open>\<open>set_cloexec\<close> on the results of the two \<open>fcntl\<close> calls; \<open>-1\<close> is failure.\<close>

definition FD_CLOEXEC :: "32 word" where "FD_CLOEXEC = 1"

definition set_cloexec :: "32 word \<Rightarrow> (32 word \<Rightarrow> 32 word) \<Rightarrow> string + 32 word" where
  "set_cloexec getfd setfd =
     (let flags = getfd
      in if flags = - 1 then Inl ''failed to get file descriptor flags''
         else if setfd (flags OR FD_CLOEXEC) = - 1 then Inl ''failed to set file descriptor flags''
         else Inr (flags OR FD_CLOEXEC))"

text \<open>The two overloads of \<open>set_buffer_size\<close>; the results of \<open>BIO_set_buffer_size\<close> are not looked at.\<close>

definition set_buffer_size_tls :: "nat \<Rightarrow> string conn_io" where
  "set_buffer_size_tls n = ([SetReadBio n, SetWriteBio n], Inr [])"

definition set_buffer_size_tcp :: "conn_env \<Rightarrow> nat \<Rightarrow> string conn_io" where
  "set_buffer_size_tcp env n =
     cbind (perform env (SetSendBuffer (to_int (int n)))) (\<lambda>_. perform env (SetReceiveBuffer (to_int (int n))))"

definition connect_tls :: "conn_env \<Rightarrow> settings \<Rightarrow> string conn_io" where
  "connect_tls env st =
     cbind (perform env TlsContext) (\<lambda>_.
     cbind (perform env StreamUpgrade) (\<lambda>_.
     cbind (case st_client_cert st of None \<Rightarrow> done_io [] | Some c \<Rightarrow> perform env (UseCertificate c)) (\<lambda>_.
     cbind (case st_client_key st of None \<Rightarrow> done_io [] | Some k \<Rightarrow> perform env (UsePrivateKey k)) (\<lambda>_.
     cbind (set_buffer_size_tls irc_buffer_size) (\<lambda>_.
     cbind (perform env (SetAlpnProtos (alpn_encode [''irc'']))) (\<lambda>_.
     cbind (optionally (st_verify st \<noteq> []) (perform env (VerifyPeer (st_verify st)))) (\<lambda>_.
     cbind (optionally (st_sni st \<noteq> []) (perform env (SetSni (st_sni st)))) (\<lambda>_.
     cbind (perform env Handshake) (\<lambda>_.
     cbind (peer_fingerprint env) (\<lambda>hex. done_io ('' tls='' @ hex)))))))))))"

definition connect :: "conn_env \<Rightarrow> settings \<Rightarrow> string conn_io" where
  "connect env st =
     cbind (perform env StreamReset) (\<lambda>_.
     let use_socks = st_socks_host st \<noteq> [] \<and> st_socks_port st \<noteq> 0;
         host = (if use_socks then st_socks_host st else st_host st);
         port = (if use_socks then st_socks_port st else st_port st);
         socks_host = (if use_socks then st_host st else st_socks_host st);
         socks_port = (if use_socks then st_port st else st_socks_port st)
     in cbind (perform env (Resolve host (show_nat (unat port)))) (\<lambda>_.
        cbind (perform env TcpConnect) (\<lambda>tcp.
        cbind (perform env SetNoDelay) (\<lambda>_.
        cbind (set_buffer_size_tcp env irc_buffer_size) (\<lambda>_.
        cbind (perform env SetCloexec) (\<lambda>_.
        cbind (if use_socks
               then cbind (perform env (SocksConnect \<lparr>sc_host = HostName socks_host, sc_port = socks_port,
                      sc_auth = st_socks_auth st\<rparr>)) (\<lambda>ep. done_io ('' socks='' @ ep))
               else done_io []) (\<lambda>socks.
        cbind (if st_tls st then connect_tls env st else done_io []) (\<lambda>tls.
        done_io (''tcp='' @ tcp @ socks @ tls)))))))))"

text \<open>The calls of a connection attempt that meets no error.\<close>

definition plan_tls :: "settings \<Rightarrow> conn_op list" where
  "plan_tls st =
     [TlsContext, StreamUpgrade] @
     (case st_client_cert st of None \<Rightarrow> [] | Some c \<Rightarrow> [UseCertificate c]) @
     (case st_client_key st of None \<Rightarrow> [] | Some k \<Rightarrow> [UsePrivateKey k]) @
     [SetReadBio 131072, SetWriteBio 131072, SetAlpnProtos [CHR 0x03, CHR ''i'', CHR ''r'', CHR ''c'']] @
     (if st_verify st \<noteq> [] then [VerifyPeer (st_verify st)] else []) @
     (if st_sni st \<noteq> [] then [SetSni (st_sni st)] else []) @
     [Handshake, PeerDigest]"

definition uses_proxy :: "settings \<Rightarrow> bool" where
  "uses_proxy st \<longleftrightarrow> st_socks_host st \<noteq> [] \<and> st_socks_port st \<noteq> 0"

definition plan :: "settings \<Rightarrow> conn_op list" where
  "plan st =
     [StreamReset,
      (if uses_proxy st then Resolve (st_socks_host st) (show_nat (unat (st_socks_port st)))
       else Resolve (st_host st) (show_nat (unat (st_port st)))),
      TcpConnect, SetNoDelay, SetSendBuffer 131072, SetReceiveBuffer 131072, SetCloexec] @
     (if uses_proxy st then [SocksConnect \<lparr>sc_host = HostName (st_host st), sc_port = st_port st,
        sc_auth = st_socks_auth st\<rparr>] else []) @
     (if st_tls st then plan_tls st else [])"

definition follows :: "'a conn_io \<Rightarrow> conn_op list \<Rightarrow> bool" where
  "follows m p \<longleftrightarrow> (\<exists>k. fst m = take k p) \<and> (\<forall>x. snd m = Inr x \<longrightarrow> fst m = p)"

lemma follows_perform: "follows (perform env op) [op]"
  by (auto simp: follows_def perform_def intro: exI [of _ 1])

lemma follows_done: "follows (done_io x) []"
  by (simp add: follows_def done_io_def)

lemma follows_bind:
  assumes "follows m p" "\<And>x. follows (f x) q"
  shows "follows (cbind m f) (p @ q)"
proof (cases m)
  case (Pair tr r)
  show ?thesis
  proof (cases r)
    case (Inl e)
    with assms(1) Pair obtain k where "tr = take k p" by (auto simp: follows_def)
    then have "fst (cbind m f) = take (min k (length p)) (p @ q)" "snd (cbind m f) = Inl e"
      using Pair Inl by (simp_all add: min_def)
    then show ?thesis unfolding follows_def by (metis sum.distinct(1))
  next
    case (Inr x)
    with assms(1) Pair have "tr = p" by (auto simp: follows_def)
    moreover obtain k where "fst (f x) = take k q" using assms(2) [of x] by (auto simp: follows_def)
    then have "p @ fst (f x) = take (length p + k) (p @ q)" by simp
    moreover have "\<forall>y. snd (f x) = Inr y \<longrightarrow> fst (f x) = q" using assms(2) [of x] by (simp add: follows_def)
    ultimately have "fst (cbind m f) = take (length p + k) (p @ q)"
      "\<forall>y. snd (cbind m f) = Inr y \<longrightarrow> fst (cbind m f) = p @ q"
      using Pair Inr by (auto split: prod.splits)
    then show ?thesis unfolding follows_def by blast
  qed
qed

lemma follows_bind_done:
  assumes "follows m p"
  shows "follows (cbind m (\<lambda>x. done_io (f x))) p"
proof -
  have "follows (cbind m (\<lambda>x. done_io (f x))) (p @ [])"
    by (intro follows_bind follows_done assms)
  then show ?thesis by simp
qed

lemma follows_buffers_tls: "follows (set_buffer_size_tls n) [SetReadBio n, SetWriteBio n]"
  by (auto simp: follows_def set_buffer_size_tls_def intro: exI [of _ 2])

lemma follows_buffers_tcp:
  "follows (set_buffer_size_tcp env n) [SetSendBuffer (to_int (int n)), SetReceiveBuffer (to_int (int n))]"
proof -
  have "follows (set_buffer_size_tcp env n) ([SetSendBuffer (to_int (int n))] @ [SetReceiveBuffer (to_int (int n))])"
    unfolding set_buffer_size_tcp_def by (intro follows_bind follows_perform)
  then show ?thesis by simp
qed

lemma to_int_buffer: "to_int (int irc_buffer_size) = 131072"
  by (simp add: to_int_def irc_buffer_size_def)

lemma alpn_irc: "alpn_encode [''irc''] = [CHR 0x03, CHR ''i'', CHR ''r'', CHR ''c'']"
  by code_simp

lemma follows_tls: "follows (connect_tls env st) (plan_tls st)"
proof -
  have digest: "follows (peer_fingerprint env) [PeerDigest]"
    by (auto simp: follows_def peer_fingerprint_def intro: exI [of _ 1])
  have cert: "follows (case c of None \<Rightarrow> done_io [] | Some c \<Rightarrow> perform env (op c))
      (case c of None \<Rightarrow> [] | Some c \<Rightarrow> [op c])" for c and op :: "nat \<Rightarrow> conn_op"
    by (cases c) (simp_all add: follows_perform follows_done)
  have opt: "follows (optionally b (perform env op)) (if b then [op] else [])" for b op
    by (simp add: optionally_def follows_perform follows_done)
  have "plan_tls st = [TlsContext] @ [StreamUpgrade] @
     (case st_client_cert st of None \<Rightarrow> [] | Some c \<Rightarrow> [UseCertificate c]) @
     (case st_client_key st of None \<Rightarrow> [] | Some k \<Rightarrow> [UsePrivateKey k]) @
     [SetReadBio irc_buffer_size, SetWriteBio irc_buffer_size] @ [SetAlpnProtos (alpn_encode [''irc''])] @
     (if st_verify st \<noteq> [] then [VerifyPeer (st_verify st)] else []) @
     (if st_sni st \<noteq> [] then [SetSni (st_sni st)] else []) @ [Handshake] @ [PeerDigest]"
    by (simp add: plan_tls_def irc_buffer_size_def alpn_irc del: alpn_encode.simps)
  then show ?thesis
    unfolding connect_tls_def
    by (simp only:) (intro follows_bind follows_perform follows_buffers_tls cert opt follows_bind_done digest)
qed

lemma follows_connect: "follows (connect env st) (plan st)"
proof -
  let ?sk = "SocksConnect \<lparr>sc_host = HostName (st_host st), sc_port = st_port st, sc_auth = st_socks_auth st\<rparr>"
  have socks: "follows (if uses_proxy st then cbind (perform env ?sk) (\<lambda>ep. done_io ('' socks='' @ ep)) else done_io [])
      (if uses_proxy st then [?sk] else [])"
    by (simp add: follows_bind_done follows_perform follows_done)
  have tls: "follows (if st_tls st then connect_tls env st else done_io []) (if st_tls st then plan_tls st else [])"
    by (simp add: follows_tls follows_done)
  let ?rs = "if uses_proxy st then Resolve (st_socks_host st) (show_nat (unat (st_socks_port st)))
       else Resolve (st_host st) (show_nat (unat (st_port st)))"
  have p: "plan st = [StreamReset] @ [?rs] @ [TcpConnect] @ [SetNoDelay] @ [SetSendBuffer (to_int (int irc_buffer_size)), SetReceiveBuffer (to_int (int irc_buffer_size))] @
      [SetCloexec] @ (if uses_proxy st then [?sk] else []) @ (if st_tls st then plan_tls st else [])"
    by (simp add: plan_def to_int_buffer)
  have c: "connect env st = cbind (perform env StreamReset) (\<lambda>_. cbind (perform env ?rs) (\<lambda>_.
        cbind (perform env TcpConnect) (\<lambda>tcp.
        cbind (perform env SetNoDelay) (\<lambda>_.
        cbind (set_buffer_size_tcp env irc_buffer_size) (\<lambda>_.
        cbind (perform env SetCloexec) (\<lambda>_.
        cbind (if uses_proxy st then cbind (perform env ?sk) (\<lambda>ep. done_io ('' socks='' @ ep)) else done_io []) (\<lambda>socks.
        cbind (if st_tls st then connect_tls env st else done_io []) (\<lambda>tls.
        done_io (''tcp='' @ tcp @ socks @ tls)))))))))"
    by (simp add: connect_def uses_proxy_def Let_def)
  show ?thesis unfolding p c
    by (intro follows_bind follows_perform follows_buffers_tcp socks follows_bind_done tls)
qed

lemma follows_success: "follows m p \<Longrightarrow> snd m = Inr x \<Longrightarrow> fst m = p"
  by (simp add: follows_def)

lemma follows_subset: "follows m p \<Longrightarrow> set (fst m) \<subseteq> set p"
  by (auto simp: follows_def dest: in_set_takeD)

text \<open>Replaying the calls on the stream object: \<open>None\<close> is \<open>std::bad_variant_access\<close>.\<close>

fun stream_op :: "conn_op \<Rightarrow> stream option \<Rightarrow> stream option" where
  "stream_op StreamReset s = map_option Stream_reset s"
| "stream_op TcpConnect s = map_option (\<lambda>s. s\<lparr>s_open := True\<rparr>) s"
| "stream_op StreamUpgrade s = Option.bind s Stream_upgrade"
| "stream_op _ s = s"

lemma stream_op_socket:
  "op \<noteq> StreamUpgrade \<Longrightarrow> \<exists>s'. stream_op op (Some s) = Some s' \<and> (s_base s = TcpSocket \<longrightarrow> s_base s' = TcpSocket)"
  by (cases op) (auto simp: Stream_reset_def)

text \<open>Between two resets the stream is never downgraded.\<close>

lemma stream_op_None: "fold stream_op ops None = None"
proof (induction ops)
  case (Cons op ops)
  then show ?case by (cases op) simp_all
qed simp

lemma no_downgrade:
  "StreamReset \<notin> set ops \<Longrightarrow> fold stream_op ops (Some s) = Some s' \<Longrightarrow> s_base s \<le> s_base s'"
proof (induction ops arbitrary: s)
  case (Cons op ops)
  from Cons.prems(2) obtain s1 where s1: "stream_op op (Some s) = Some s1" "fold stream_op ops (Some s1) = Some s'"
    by (cases "stream_op op (Some s)") (auto simp: stream_op_None)
  from Cons.prems(1) s1(1) have "s_base s \<le> s_base s1"
    by (cases op) (auto simp: Stream_upgrade_def less_eq_stream_kind_def split: if_splits)
  with Cons.IH [OF _ s1(2)] Cons.prems(1) show ?case by auto
qed simp

lemma no_upgrade: "StreamUpgrade \<notin> set ops \<Longrightarrow> fold stream_op ops (Some s) \<noteq> None"
proof (induction ops arbitrary: s)
  case (Cons op ops)
  then show ?case using stream_op_socket [of op s] by auto
qed simp

lemma one_upgrade:
  "length (filter (\<lambda>op. op = StreamUpgrade) ops) \<le> 1 \<Longrightarrow> s_base s = TcpSocket \<Longrightarrow>
   fold stream_op ops (Some s) \<noteq> None"
proof (induction ops arbitrary: s)
  case (Cons op ops)
  show ?case
  proof (cases "op = StreamUpgrade")
    case True
    with Cons.prems(1) have "filter (\<lambda>op. op = StreamUpgrade) ops = []" by simp
    then have "StreamUpgrade \<notin> set ops" by (auto simp: filter_empty_conv)
    from no_upgrade [OF this] True Cons.prems(2) show ?thesis by (simp add: Stream_upgrade_def)
  next
    case False
    with stream_op_socket [OF False, of s] Cons show ?thesis by auto
  qed
qed simp

lemma upgrades_plan: "length (filter (\<lambda>op. op = StreamUpgrade) (take k (tl (plan st)))) \<le> 1"
proof -
  have "length (filter (\<lambda>op. op = StreamUpgrade) (tl (plan st))) \<le> 1"
    by (auto simp: plan_def plan_tls_def split: option.splits)
  moreover have "filter P xs = filter P (take k xs) @ filter P (drop k xs)" for P and xs :: "conn_op list"
    by (metis append_take_drop_id filter_append)
  ultimately show ?thesis by (metis add_leE length_append)
qed

lemma follows_stream:
  "s_base s = TcpSocket \<Longrightarrow> StreamUpgrade \<notin> set ops \<Longrightarrow> \<exists>s'. fold stream_op ops (Some s) = Some s' \<and> s_base s' = TcpSocket"
proof (induction ops arbitrary: s)
  case (Cons op ops)
  then show ?case using stream_op_socket [of op s] by auto
qed simp

text \<open>A complete attempt leaves a TLS stream if that was asked for, and a plain one otherwise.\<close>

lemma replay_plan:
  "\<exists>s'. fold stream_op (plan st) (Some s) = Some s' \<and> s_base s' = (if st_tls st then TlsStream else TcpSocket)"
proof -
  let ?mid = "tl (plan (st\<lparr>st_tls := False\<rparr>))" and ?fin = "tl (tl (plan_tls st))"
  have p: "plan st = StreamReset # ?mid @ (if st_tls st then TlsContext # StreamUpgrade # ?fin else [])"
    by (simp add: plan_def plan_tls_def uses_proxy_def)
  have "StreamUpgrade \<notin> set ?mid" by (simp add: plan_def)
  from follows_stream [OF _ this, of "Stream_reset s"] obtain s1 where
    s1: "fold stream_op ?mid (Some (Stream_reset s)) = Some s1" "s_base s1 = TcpSocket"
    by (auto simp: Stream_reset_def)
  have "StreamUpgrade \<notin> set ?fin" and reset: "StreamReset \<notin> set ?fin"
    by (auto simp: plan_tls_def split: option.splits)
  then obtain s2 where s2: "fold stream_op ?fin (Some (s1\<lparr>s_base := TlsStream\<rparr>)) = Some s2"
    using no_upgrade by blast
  from no_downgrade [OF reset s2] have "s_base s2 = TlsStream" by (simp add: tls_is_top)
  with s1 s2 show ?thesis by (subst p) (auto simp: Stream_upgrade_def)
qed

text \<open>What a successful TLS attempt has done before the handshake.\<close>

lemma tls_success_ops:
  assumes "snd (connect env st) = Inr fp" "st_tls st"
  shows "\<exists>before. fst (connect env st) = before @ [Handshake, PeerDigest] \<and> Handshake \<notin> set before \<and>
    (st_verify st \<noteq> [] \<longrightarrow> VerifyPeer (st_verify st) \<in> set before) \<and>
    (st_sni st \<noteq> [] \<longrightarrow> SetSni (st_sni st) \<in> set before) \<and>
    (\<forall>c. st_client_cert st = Some c \<longrightarrow> UseCertificate c \<in> set before) \<and>
    (\<forall>k. st_client_key st = Some k \<longrightarrow> UsePrivateKey k \<in> set before)"
proof -
  have "fst (connect env st) = plan st" by (rule follows_success [OF follows_connect assms(1)])
  then show ?thesis using assms(2)
    by (intro exI [of _ "butlast (butlast (plan st))"])
      (auto simp: plan_def plan_tls_def butlast_append split: option.splits)
qed

text \<open>
  C7: a TLS connection is only reported after a handshake that the configured checks precede: with a
  name to verify, verification of the peer against it was switched on first, the client certificate
  and key and the SNI name were set first, and nothing but reading the peer's digest came after it.
  Whatever the stream was before, its reads and writes then go through TLS.
\<close>

theorem tls_checks_before_handshake:
  assumes "snd (connect env st) = Inr fp" "st_tls st"
  shows "\<exists>before. fst (connect env st) = before @ [Handshake, PeerDigest] \<and> Handshake \<notin> set before \<and>
    (st_verify st \<noteq> [] \<longrightarrow> VerifyPeer (st_verify st) \<in> set before) \<and>
    (st_sni st \<noteq> [] \<longrightarrow> SetSni (st_sni st) \<in> set before) \<and>
    (\<forall>c. st_client_cert st = Some c \<longrightarrow> UseCertificate c \<in> set before) \<and>
    (\<forall>k. st_client_key st = Some k \<longrightarrow> UsePrivateKey k \<in> set before) \<and>
    (\<exists>s'. fold stream_op (fst (connect env st)) (Some s) = Some s' \<and>
       async_write_some s' buf = WriteSome TlsStream buf \<and> async_read_some s' n = ReadSome TlsStream n)"
proof -
  have ops: "fst (connect env st) = plan st" by (rule follows_success [OF follows_connect assms(1)])
  obtain s' where s': "fold stream_op (plan st) (Some s) = Some s'" "s_base s' = TlsStream"
    using replay_plan [of st s] assms(2) by auto
  have "async_write_some s' buf = WriteSome TlsStream buf \<and> async_read_some s' n = ReadSome TlsStream n"
    by (simp add: async_write_some_def async_read_some_def s'(2))
  with s'(1) ops have "\<exists>s'. fold stream_op (fst (connect env st)) (Some s) = Some s' \<and>
      async_write_some s' buf = WriteSome TlsStream buf \<and> async_read_some s' n = ReadSome TlsStream n"
    by auto
  with tls_success_ops [OF assms] show ?thesis by blast
qed

lemma tls_checks_before_handshake_witness:
  "let st = \<lparr>st_tls = True, st_host = ''h'', st_port = 6697, st_client_cert = Some 1, st_client_key = Some 2,
      st_verify = ''h'', st_sni = ''h'', st_socks_host = [], st_socks_port = 0, st_socks_auth = NoCredential\<rparr>
   in \<exists>before s'. fst (connect (\<lambda>_. Inr ''x'') st) = before @ [Handshake, PeerDigest] \<and>
     VerifyPeer ''h'' \<in> set before \<and> UseCertificate 1 \<in> set before \<and>
     fold stream_op (fst (connect (\<lambda>_. Inr ''x'') st)) (Some Stream_new) = Some s' \<and>
     async_write_some s' ''NICK me'' = WriteSome TlsStream ''NICK me''"
proof -
  let ?st = "\<lparr>st_tls = True, st_host = ''h'', st_port = 6697, st_client_cert = Some 1, st_client_key = Some 2,
      st_verify = ''h'', st_sni = ''h'', st_socks_host = [], st_socks_port = 0, st_socks_auth = NoCredential\<rparr>"
  have "\<exists>fp. snd (connect (\<lambda>_. Inr ''x'') ?st) = Inr fp"
    by (simp add: connect_def connect_tls_def perform_def done_io_def optionally_def peer_fingerprint_def
        set_buffer_size_tcp_def set_buffer_size_tls_def)
  then obtain fp where "snd (connect (\<lambda>_. Inr ''x'') ?st) = Inr fp" ..
  from tls_checks_before_handshake [OF this, of Stream_new "''NICK me''" 0] show ?thesis by (auto simp: Let_def)
qed

section \<open>Through a proxy\<close>

text \<open>
  The outcome of the SOCKS call is that of the handshake of \<open>Socks5\<close> with the bytes \<open>input\<close> of the proxy;
  \<open>show_ep\<close> and \<open>show_error\<close> are the texts of an endpoint and of an error.
\<close>

fun via_proxy ::
  "(endpoint \<Rightarrow> string) \<Rightarrow> (error_code \<Rightarrow> string) \<Rightarrow> u8 list \<Rightarrow> conn_env \<Rightarrow> conn_env" where
  "via_proxy show_ep show_error input env (SocksConnect cfg) =
     (case snd (async_connect cfg input []) of Inl e \<Rightarrow> Inl (show_error e) | Inr ep \<Rightarrow> Inr (show_ep ep))"
| "via_proxy show_ep show_error input env op = env op"

definition proxy_config :: "settings \<Rightarrow> socks_config" where
  "proxy_config st = \<lparr>sc_host = HostName (st_host st), sc_port = st_port st, sc_auth = st_socks_auth st\<rparr>"

text \<open>What the operations of a successful attempt have returned.\<close>

lemma cbind_Inr: "snd (cbind m f) = Inr y \<longleftrightarrow> (\<exists>x. snd m = Inr x \<and> snd (f x) = Inr y)"
  by (cases "(m, f)" rule: cbind.cases) (auto split: prod.splits)

lemma perform_Inr: "snd (perform env op) = Inr s \<longleftrightarrow> env op = Inr s"
  by (simp add: perform_def split: sum.splits)

lemma connect_socks_Inr:
  assumes "uses_proxy st" "snd (connect env st) = Inr fp"
  shows "\<exists>ep. env (SocksConnect (proxy_config st)) = Inr ep"
  using assms by (auto simp: connect_def uses_proxy_def proxy_config_def cbind_Inr perform_Inr Let_def)

lemma connect_handshake_Inr:
  assumes "st_tls st" "snd (connect env st) = Inr fp"
  shows "\<exists>r. env Handshake = Inr r"
  using assms by (auto simp: connect_def connect_tls_def cbind_Inr perform_Inr Let_def)

lemma verify_ops:
  assumes "snd (connect env st) = Inr fp" "st_tls st" "fst (connect env st) = before @ [Handshake, PeerDigest]"
  shows "VerifyPeer v \<in> set before \<longleftrightarrow> st_verify st \<noteq> [] \<and> v = st_verify st"
proof -
  have "fst (connect env st) = plan st" by (rule follows_success [OF follows_connect assms(1)])
  with assms(3) have "VerifyPeer v \<in> set before \<longleftrightarrow> VerifyPeer v \<in> set (plan st)" by simp
  then show ?thesis using assms(2) by (auto simp: plan_def plan_tls_def split: option.splits)
qed

lemma proxy_ops:
  assumes "uses_proxy st" "op \<in> set (plan st)"
  shows "(\<forall>h p. op = Resolve h p \<longrightarrow> h = st_socks_host st \<and> p = show_nat (unat (st_socks_port st))) \<and>
    (\<forall>cfg. op = SocksConnect cfg \<longrightarrow> cfg = proxy_config st)"
  using assms by (auto simp: plan_def plan_tls_def proxy_config_def split: if_splits option.splits)

text \<open>
  C22: a connection through a proxy is only reported when the proxy has granted it: after its hello, the
  credentials it asked for and the request, which a SOCKS server reads as the name and port of the IRC
  server, have been written, each once and in that order, it answered with the method that was wanted, the credentials accepted and a successful
  reply; TLS is negotiated after that, with the IRC server.  Whether or not the attempt succeeds, the
  only name the local resolver is given is the proxy's.
\<close>

theorem proxied_connection:
  assumes "uses_proxy st"
  shows "(\<forall>h p. Resolve h p \<in> set (fst (connect (via_proxy show_ep show_error input env) st)) \<longrightarrow>
      h = st_socks_host st \<and> p = show_nat (unat (st_socks_port st))) \<and>
    (\<forall>fp. snd (connect (via_proxy show_ep show_error input env) st) = Inr fp \<longrightarrow>
      (\<exists>before after rest ep.
         fst (connect (via_proxy show_ep show_error input env) st) = before @ SocksConnect (proxy_config st) # after \<and>
         Handshake \<notin> set before \<and> (st_tls st \<longrightarrow> Handshake \<in> set after) \<and>
         fst (async_connect (proxy_config st) input []) = transcript (proxy_config st) \<and>
         decode_request (last (transcript (proxy_config st))) = Some (HostName (st_host st), st_port st) \<and>
         input = greeting (st_socks_auth st) @ accepted (st_socks_auth st) @ rest \<and> parse_reply rest = Some ep))"
proof (intro conjI allI impI)
  let ?env = "via_proxy show_ep show_error input env"
  fix h p assume "Resolve h p \<in> set (fst (connect ?env st))"
  then have "Resolve h p \<in> set (plan st)" using follows_subset [OF follows_connect] by blast
  from proxy_ops [OF assms this] show "h = st_socks_host st" "p = show_nat (unat (st_socks_port st))" by simp_all
next
  let ?env = "via_proxy show_ep show_error input env" and ?cfg = "proxy_config st"
  fix fp assume fp: "snd (connect ?env st) = Inr fp"
  obtain ep where ep: "snd (async_connect ?cfg input []) = Inr ep"
    using connect_socks_Inr [OF assms fp] by (auto split: sum.splits)
  obtain rest where rest: "input = greeting (sc_auth ?cfg) @ accepted (sc_auth ?cfg) @ rest" "parse_reply rest = Some ep"
    using success_grant [OF ep] by blast
  have sent: "fst (async_connect ?cfg input []) = transcript ?cfg"
    by (rule success_sent_all [OF success_within_limits [OF ep] ep])
  define before where "before = [StreamReset, Resolve (st_socks_host st) (show_nat (unat (st_socks_port st))), TcpConnect,
      SetNoDelay, SetSendBuffer 131072, SetReceiveBuffer 131072, SetCloexec]"
  define after where "after = (if st_tls st then plan_tls st else [])"
  have "fst (connect ?env st) = plan st" by (rule follows_success [OF follows_connect fp])
  also have "plan st = before @ SocksConnect ?cfg # after"
    using assms by (simp add: plan_def proxy_config_def before_def after_def)
  finally have ops: "fst (connect ?env st) = before @ SocksConnect ?cfg # after" .
  have "length (st_host st) < 256"
    using success_within_limits [OF ep] by (simp add: within_limits_def proxy_config_def)
  with connect_request_decodes [of ?cfg "st_host st"]
  have request: "decode_request (last (transcript ?cfg)) = Some (HostName (st_host st), st_port st)"
    by (simp add: proxy_config_def transcript_def send_connect_msg)
  have "Handshake \<notin> set before" "st_tls st \<longrightarrow> Handshake \<in> set after"
    by (simp_all add: before_def after_def plan_tls_def)
  moreover have "input = greeting (st_socks_auth st) @ accepted (st_socks_auth st) @ rest"
    using rest(1) by (simp add: proxy_config_def)
  ultimately show "\<exists>before after rest ep. fst (connect ?env st) = before @ SocksConnect ?cfg # after \<and>
      Handshake \<notin> set before \<and> (st_tls st \<longrightarrow> Handshake \<in> set after) \<and>
      fst (async_connect ?cfg input []) = transcript ?cfg \<and>
      decode_request (last (transcript ?cfg)) = Some (HostName (st_host st), st_port st) \<and>
      input = greeting (st_socks_auth st) @ accepted (st_socks_auth st) @ rest \<and> parse_reply rest = Some ep"
    using ops sent rest(2) request by blast
qed

lemma proxied_connection_witness:
  "\<exists>before after rest ep. fst (connect (via_proxy (\<lambda>_. ''ep'') (\<lambda>_. ''e'') [5, 0, 5, 0, 0, 1, 10, 0, 0, 1, 4, 56] (\<lambda>_. Inr []))
      \<lparr>st_tls = True, st_host = ''irc'', st_port = 6667, st_client_cert = None, st_client_key = None,
       st_verify = [], st_sni = [], st_socks_host = ''proxy'', st_socks_port = 1080, st_socks_auth = NoCredential\<rparr>)
    = before @ SocksConnect \<lparr>sc_host = HostName ''irc'', sc_port = 6667, sc_auth = NoCredential\<rparr> # after \<and>
    Handshake \<in> set after \<and> parse_reply rest = Some ep"
proof -
  let ?st = "\<lparr>st_tls = True, st_host = ''irc'', st_port = 6667, st_client_cert = None, st_client_key = None,
       st_verify = [], st_sni = [], st_socks_host = ''proxy'', st_socks_port = 1080, st_socks_auth = NoCredential\<rparr>"
  let ?input = "[5, 0, 5, 0, 0, 1, 10, 0, 0, 1, 4, 56]"
  let ?env = "via_proxy (\<lambda>_. ''ep'') (\<lambda>_. ''e'') ?input (\<lambda>_. Inr [])"
  have "snd (async_connect (proxy_config ?st) ?input []) = Inr (EndpointV4 [10, 0, 0, 1] 1080)"
    by (simp add: proxy_config_def) code_simp
  then have "\<exists>fp. snd (connect ?env ?st) = Inr fp"
    by (simp add: connect_def connect_tls_def perform_def done_io_def optionally_def peer_fingerprint_def
        set_buffer_size_tcp_def set_buffer_size_tls_def proxy_config_def)
  moreover have "uses_proxy ?st" by (simp add: uses_proxy_def)
  ultimately show ?thesis
    using proxied_connection [of ?st "\<lambda>_. ''ep''" "\<lambda>_. ''e''" ?input "\<lambda>_. Inr []"]
    by (auto simp: proxy_config_def)
qed

text \<open>
  connecting again is safe from any state the stream was left in, a TLS stream included: the reset
  at the start means the upgrade finds a plain socket, however far the attempt gets.
\<close>

theorem upgrade_finds_socket:
  "fold stream_op (fst (connect env st)) (Some s) \<noteq> None"
proof -
  obtain k where k: "fst (connect env st) = take k (plan st)"
    using follows_connect [of env st] by (auto simp: follows_def)
  have p: "plan st = StreamReset # tl (plan st)" by (simp add: plan_def)
  show ?thesis
  proof (cases k)
    case 0
    with k show ?thesis by simp
  next
    case (Suc j)
    have "fold stream_op (take j (tl (plan st))) (Some (Stream_reset s)) \<noteq> None"
      by (rule one_upgrade [OF upgrades_plan]) (simp add: Stream_reset_def)
    with k Suc show ?thesis by (subst k, subst p) simp
  qed
qed

fun alpn_decode :: "string \<Rightarrow> string list" where
  "alpn_decode [] = []"
| "alpn_decode (c # s) = take (of_char c) s # alpn_decode (drop (of_char c) s)"

text \<open>
  the list of protocol names that OpenSSL reads back from the ALPN bytes is the list that was
  encoded, for names of at most 255 bytes.
\<close>

theorem alpn_roundtrip:
  "list_all (\<lambda>p. length p < 256) protocols \<Longrightarrow> alpn_decode (alpn_encode protocols) = protocols"
  by (induction protocols) simp_all

lemma alpn_roundtrip_witness: "alpn_decode [CHR 0x03, CHR ''i'', CHR ''r'', CHR ''c''] = [''irc'']"
  using alpn_roundtrip [of "[''irc'']"] alpn_irc by (simp del: alpn_decode.simps alpn_encode.simps)

lemma hex_digit_inj: "d < 16 \<Longrightarrow> e < 16 \<Longrightarrow> hex_digit d = hex_digit e \<Longrightarrow> d = e"
proof -
  assume d: "d < 16" "e < 16" "hex_digit d = hex_digit e"
  have h: "(of_char (hex_digit x) :: nat) = (if x < 10 then 48 + x else 87 + x)" if "x < 16" for x
    using that by (simp add: hex_digit_def)
  have "(if d < 10 then 48 + d else 87 + d) = (if e < 10 then 48 + e else 87 + e :: nat)"
    using h [OF d(1)] h [OF d(2)] d(3) by metis
  then show "d = e" by (simp split: if_splits)
qed

lemma hex_byte_inj: "hex_byte a = hex_byte b \<Longrightarrow> a = b"
proof -
  assume h: "hex_byte a = hex_byte b"
  have "of_char a div 16 < (16::nat)" "of_char b div 16 < (16::nat)"
    by (rule less_mult_imp_div_less, simp)+
  with h have "of_char a div 16 = (of_char b div 16 :: nat)" "of_char a mod 16 = (of_char b mod 16 :: nat)"
    by (auto simp: hex_byte_def intro: hex_digit_inj)
  then have "(of_char a :: nat) = of_char b" by (metis div_mult_mod_eq)
  then show ?thesis by simp
qed

text \<open>
  the fingerprint text has two digits per byte of the digest, and two peers have the same text
  only if their digests are the same: no leading zero is lost.
\<close>

theorem fingerprint_faithful:
  "(hex_bytes a = hex_bytes b \<longleftrightarrow> a = b) \<and> length (hex_bytes a) = 2 * length a"
proof
  show "hex_bytes a = hex_bytes b \<longleftrightarrow> a = b"
  proof (induction a arbitrary: b)
    case Nil
    then show ?case by (cases b) (auto simp: hex_bytes_def hex_byte_def)
  next
    case (Cons x a)
    show ?case
    proof (cases b)
      case Nil
      then show ?thesis by (simp add: hex_bytes_def hex_byte_def)
    next
      case b: (Cons y b')
      have "hex_bytes (x # a) = hex_byte x @ hex_bytes a" "hex_bytes b = hex_byte y @ hex_bytes b'"
        by (simp_all add: hex_bytes_def b)
      moreover have "length (hex_byte x) = length (hex_byte y)" by (simp add: hex_byte_def)
      ultimately have "hex_bytes (x # a) = hex_bytes b \<longleftrightarrow> hex_byte x = hex_byte y \<and> hex_bytes a = hex_bytes b'"
        by simp
      then show ?thesis using Cons [of b'] hex_byte_inj by (auto simp: b)
    qed
  qed
  show "length (hex_bytes a) = 2 * length a" by (induction a) (simp_all add: hex_bytes_def hex_byte_def)
qed

text \<open>
  \<open>set_cloexec\<close> sets \<open>FD_CLOEXEC\<close> and keeps every other descriptor flag, and it reports which of
  the two system calls failed.
\<close>

theorem set_cloexec_flags:
  "case set_cloexec getfd setfd of
     Inr new \<Rightarrow> bit new 0 \<and> (\<forall>i > 0. bit new i = bit getfd i) \<and> setfd new \<noteq> - 1
   | Inl e \<Rightarrow> (getfd = - 1 \<and> e = ''failed to get file descriptor flags'') \<or>
       (getfd \<noteq> - 1 \<and> setfd (getfd OR FD_CLOEXEC) = - 1 \<and> e = ''failed to set file descriptor flags'')"
  by (auto simp: set_cloexec_def FD_CLOEXEC_def Let_def bit_simps)

section \<open>The handle of a connection\<close>

text \<open>
  What Lua holds of a connection (\<open>pushirc\<close>, \<open>l_send_irc\<close>, \<open>l_close_irc\<close> of \<open>client/irc/lua.cpp\<close>) is a
  weak pointer: \<open>ih_ptr\<close> while it has not been reset, \<open>ih_conn\<close> while the session still keeps the
  connection alive.
\<close>

record irc_handle =
  ih_ptr :: bool
  ih_conn :: "connection option"

definition pushirc :: "connection \<Rightarrow> irc_handle" where
  "pushirc c = \<lparr>ih_ptr = True, ih_conn = Some c\<rparr>"

definition lock :: "irc_handle \<Rightarrow> connection option" where
  "lock h = (if ih_ptr h then ih_conn h else None)"

definition l_close_irc :: "irc_handle \<Rightarrow> lua_value list \<times> irc_handle" where
  "l_close_irc h =
     (case lock h of
        Some irc \<Rightarrow> ([LBool True], h\<lparr>ih_conn := Some (connection_close irc), ih_ptr := False\<rparr>)
      | None \<Rightarrow> ([LNil, LStr ''irc handle destructed''], h))"

definition l_send_irc :: "lua_conv \<Rightarrow> lua_value list \<Rightarrow> irc_handle \<Rightarrow> lua_error + lua_value list \<times> irc_handle" where
  "l_send_irc conv args h =
     sbind (check_string_view conv args 2) (\<lambda>cmd.
       Inr (case lock h of
          Some irc \<Rightarrow> ([LBool True], h\<lparr>ih_conn := Some (connection_write cmd irc)\<rparr>)
        | None \<Rightarrow> ([LNil, LStr ''irc handle destructed''], h)))"

text \<open>
  a handle sends to its connection until it is closed or the connection is gone; from then on sending
  and closing report the failure and leave the connection alone.
\<close>

theorem handle_after_close:
  assumes "check_string_view conv args 2 = Inr cmd"
  shows "(case lock h of
      Some irc \<Rightarrow> l_send_irc conv args h = Inr ([LBool True], h\<lparr>ih_conn := Some (connection_write cmd irc)\<rparr>)
    | None \<Rightarrow> l_send_irc conv args h = Inr ([LNil, LStr ''irc handle destructed''], h)) \<and>
    (let h' = snd (l_close_irc h)
     in l_send_irc conv args h' = Inr ([LNil, LStr ''irc handle destructed''], h') \<and>
        l_close_irc h' = ([LNil, LStr ''irc handle destructed''], h'))"
  using assms by (auto simp: l_send_irc_def l_close_irc_def lock_def Let_def split: option.split)

lemma handle_after_close_witness:
  "l_send_irc plain_conv [LNil, LStr ''QUIT''] (snd (l_close_irc (pushirc connection_new))) =
     Inr ([LNil, LStr ''irc handle destructed''], snd (l_close_irc (pushirc connection_new)))"
  using handle_after_close [of plain_conv "[LNil, LStr ''QUIT'']" "''QUIT''" "pushirc connection_new"]
  by (simp add: check_string_view_def lua_arg_def plain_conv_def Let_def)

end
