(* ===== verification/Httpd.thy ===== *)
theory Httpd
  imports OutputQueue LuaApi Machine
begin

text \<open>
  \<open>client/httpd.cpp\<close>: websockets, requests and HTTP sessions; the listener and the server as a whole
  are in \<open>HttpServer\<close>.

  Each class is a record of its fields plus the asynchronous operations it has outstanding and the
  calls it has made into Lua, oldest first.  A handler is a function of the state and the result
  it is called with.  Popping an empty \<open>std::queue\<close> is undefined behaviour: \<open>None\<close>.
\<close>

text \<open>A protected call of the registered callback: the location passed to \<open>safecall\<close>, the arguments.\<close>

datatype lua_call = LuaCall string "lua_value list"

section \<open>Websockets\<close>

record websocket =
  ws_messages :: "string list"
  ws_cb :: bool
  ws_closed :: bool
  ws_accepting :: bool
  ws_writes :: "string list"
  ws_reads :: nat
  ws_closes :: nat
  ws_calls :: "lua_call list"

definition Websocket_new :: websocket where
  "Websocket_new = \<lparr>ws_messages = [], ws_cb = False, ws_closed = False, ws_accepting = False, ws_writes = [], ws_reads = 0,
     ws_closes = 0, ws_calls = []\<rparr>"

definition ws_start_write :: "websocket \<Rightarrow> websocket option" where
  "ws_start_write w =
     (case ws_messages w of [] \<Rightarrow> None | m # _ \<Rightarrow> Some (w\<lparr>ws_writes := ws_writes w @ [m]\<rparr>))"

definition ws_start_close :: "websocket \<Rightarrow> websocket" where
  "ws_start_close w = w\<lparr>ws_closes := Suc (ws_closes w)\<rparr>"

definition ws_start_read :: "websocket \<Rightarrow> websocket" where
  "ws_start_read w = w\<lparr>ws_reads := Suc (ws_reads w)\<rparr>"

definition ws_set_callback :: "websocket \<Rightarrow> websocket" where
  "ws_set_callback w = w\<lparr>ws_cb := True\<rparr>"

definition ws_close :: "websocket \<Rightarrow> websocket" where
  "ws_close w =
     (if \<not> ws_closed w then
        (let w = w\<lparr>ws_closed := True\<rparr> in if ws_messages w = [] then ws_start_close w else w)
      else w)"

definition ws_send :: "string \<Rightarrow> websocket \<Rightarrow> websocket option" where
  "ws_send str w =
     (if \<not> ws_closed w then
        (let w = w\<lparr>ws_messages := ws_messages w @ [str]\<rparr>
         in if length (ws_messages w) = 1 then ws_start_write w else Some w)
      else Some w)"

text \<open>\<open>run\<close> starts the handshake.\<close>

definition ws_run :: "websocket \<Rightarrow> websocket" where
  "ws_run w = w\<lparr>ws_accepting := True\<rparr>"

definition ws_on_accept :: "bool \<Rightarrow> websocket \<Rightarrow> websocket option" where
  "ws_on_accept ec w =
     (let w = w\<lparr>ws_accepting := False\<rparr>
      in if \<not> ec then
           (let w = ws_start_read w in if ws_messages w \<noteq> [] then ws_start_write w else Some w)
         else Some w)"

definition ws_on_write :: "bool \<Rightarrow> websocket \<Rightarrow> websocket option" where
  "ws_on_write ec w =
     (let w = w\<lparr>ws_writes := tl (ws_writes w)\<rparr>
      in if ec then Some (w\<lparr>ws_closed := True, ws_messages := []\<rparr>)
         else
           (case ws_messages w of
              [] \<Rightarrow> None
            | _ # ms \<Rightarrow>
                (let w = w\<lparr>ws_messages := ms\<rparr>
                 in if ws_messages w \<noteq> [] then ws_start_write w
                    else if ws_closed w then Some (ws_start_close w)
                    else Some w)))"

definition ws_on_read :: "string + string \<Rightarrow> websocket \<Rightarrow> websocket" where
  "ws_on_read res w =
     (let w = w\<lparr>ws_reads := ws_reads w - 1\<rparr>
      in case res of
           Inl what \<Rightarrow>
             if ws_cb w then w\<lparr>ws_calls := ws_calls w @ [LuaCall ''wsreaderr'' [LNil, LStr what]]\<rparr> else w
         | Inr buf \<Rightarrow>
             ws_start_read
               (if ws_cb w then w\<lparr>ws_calls := ws_calls w @ [LuaCall ''wsread'' [LStr buf]]\<rparr> else w))"

definition ws_on_close :: "bool \<Rightarrow> websocket \<Rightarrow> websocket" where
  "ws_on_close ec w = w"

text \<open>The life of a websocket: the Lua methods, and the completions of what is outstanding.\<close>

datatype ws_event =
    WsSend string | WsClose | WsOnRecv | WsAccept bool | WsWritten bool | WsRead "string + string" | WsCloseDone bool

fun ws_step :: "ws_event \<Rightarrow> websocket \<Rightarrow> websocket option" where
  "ws_step (WsSend s) w = ws_send s w"
| "ws_step WsClose w = Some (ws_close w)"
| "ws_step WsOnRecv w = Some (ws_set_callback w)"
| "ws_step (WsAccept ec) w = (if ws_accepting w then ws_on_accept ec w else Some w)"
| "ws_step (WsWritten ec) w = (if ws_writes w = [] then Some w else ws_on_write ec w)"
| "ws_step (WsRead r) w = (if ws_reads w = 0 then Some w else Some (ws_on_read r w))"
| "ws_step (WsCloseDone ec) w = Some (ws_on_close ec w)"

text \<open>A program that waits for the handshake before it sends.\<close>

fun ws_polite :: "ws_event \<Rightarrow> websocket \<Rightarrow> bool" where
  "ws_polite (WsSend s) w = (\<not> ws_accepting w)"
| "ws_polite _ w = True"

text \<open>
  The invariant of a websocket that nothing was sent to before the handshake: the message at the front
  of the queue, and only it, is being written, and a closing handshake was started at most once, after
  the queue had drained.
\<close>

definition ws_ok :: "websocket \<Rightarrow> bool" where
  "ws_ok w \<longleftrightarrow>
     ws_writes w = take 1 (ws_messages w) \<and> ws_closes w \<le> 1 \<and>
     (ws_closes w = 1 \<longrightarrow> ws_closed w \<and> ws_messages w = []) \<and> ws_reads w \<le> 1 \<and>
     (ws_accepting w \<longrightarrow> ws_messages w = [] \<and> ws_reads w = 0)"

lemmas ws_defs = ws_start_write_def ws_start_close_def ws_start_read_def ws_set_callback_def ws_close_def
  ws_send_def ws_run_def ws_on_accept_def ws_on_write_def ws_on_read_def ws_on_close_def

lemma ws_ok_send [inv_intros]: "ws_ok w \<Longrightarrow> \<not> ws_accepting w \<Longrightarrow> \<exists>w'. ws_send s w = Some w' \<and> ws_ok w'"
  by (cases "ws_messages w") (auto simp: ws_ok_def ws_defs Let_def)

lemma ws_ok_close [inv_intros]: "ws_ok w \<Longrightarrow> ws_ok (ws_close w)"
  by (auto simp: ws_ok_def ws_defs Let_def)

lemma ws_ok_written [inv_intros]:
  "ws_ok w \<Longrightarrow> ws_writes w \<noteq> [] \<Longrightarrow> \<exists>w'. ws_on_write ec w = Some w' \<and> ws_ok w'"
  by (cases "ws_messages w"; cases "tl (ws_messages w)") (auto simp: ws_ok_def ws_defs Let_def)

lemma ws_ok_read [inv_intros]: "ws_ok w \<Longrightarrow> ws_reads w \<noteq> 0 \<Longrightarrow> ws_ok (ws_on_read r w)"
  by (cases r) (auto simp: ws_ok_def ws_defs Let_def)

lemma ws_ok_callback [inv_intros]: "ws_ok w \<Longrightarrow> ws_ok (ws_set_callback w)"
  by (simp add: ws_ok_def ws_set_callback_def)

lemma ws_ok_accept [inv_intros]: "ws_ok w \<Longrightarrow> ws_accepting w \<Longrightarrow> \<exists>w'. ws_on_accept ec w = Some w' \<and> ws_ok w'"
  by (auto simp: ws_ok_def ws_defs Let_def)

interpretation ws_machine: machine ws_step ws_polite ws_ok
proof unfold_locales
  fix w e
  assume "ws_ok w" "ws_polite e w"
  then show "\<exists>w'. ws_step e w = Some w' \<and> ws_ok w'"
    by (cases e) (auto simp: ws_on_close_def intro: inv_intros)
qed

lemma ws_ok_new: "ws_ok (ws_run Websocket_new)"
  by (simp add: ws_ok_def ws_run_def Websocket_new_def)

text \<open>The accepted websocket of a peer that nothing was sent to yet.\<close>

definition ws_accepted :: websocket where
  "ws_accepted = Websocket_new\<lparr>ws_reads := 1\<rparr>"

lemma ws_accept_new: "ws_step (WsAccept False) (ws_run Websocket_new) = Some ws_accepted"
  by (simp add: ws_run_def ws_on_accept_def ws_start_read_def ws_accepted_def Websocket_new_def Let_def)

lemma ws_ok_accepted: "ws_ok ws_accepted"
  by (simp add: ws_ok_def ws_accepted_def Websocket_new_def)

definition ws_live :: "websocket \<Rightarrow> bool" where
  "ws_live w \<longleftrightarrow> ws_ok w \<and> \<not> ws_closed w \<and> \<not> ws_accepting w"

interpretation ws: output_queue "\<lambda>s w. the (ws_send s w)" "\<lambda>w. the (ws_on_write False w)"
  "\<lambda>w. List.map (\<lambda>m. [m]) (ws_writes w)" ws_messages "\<lambda>s. [s]" ws_live
proof (unfold_locales, goal_cases)
  case (1 s m)
  then show ?case
    by (cases "ws_messages s") (auto simp: ws_live_def ws_ok_def ws_defs Let_def)
next
  case (2 s)
  then show ?case
    by (cases "ws_messages s"; cases "tl (ws_messages s)") (auto simp: ws_live_def ws_ok_def ws_defs Let_def)
next
  case (3 s)
  then show ?case by (simp add: ws_live_def ws_ok_def)
next
  case (4 s m)
  then show ?case by (cases "ws_messages s") (auto simp: ws_live_def ws_ok_def ws_defs Let_def)
next
  case (5 s b)
  then show ?case
    by (cases "ws_messages s"; cases "tl (ws_messages s)") (auto simp: ws_live_def ws_ok_def ws_defs Let_def)
next
  case (6 s)
  then show ?case by (simp add: ws_live_def ws_ok_def)
qed

text \<open>
  whatever Lua calls and completions a websocket sees, and whichever handshakes, writes and reads fail,
  as long as nothing is sent before the handshake is over: no empty queue is popped, at most one write
  and one read are outstanding, the write is that of the oldest queued message, and the closing
  handshake starts at most once and only after every queued message has been written.
\<close>

theorem websocket_safe:
  assumes "permitted ws_step ws_polite es (ws_run Websocket_new)"
  shows "\<exists>w. run_steps ws_step es (ws_run Websocket_new) = Some w \<and>
    length (ws_writes w) \<le> 1 \<and> ws_writes w = take 1 (ws_messages w) \<and> ws_reads w \<le> 1 \<and> ws_closes w \<le> 1 \<and>
    (ws_closes w = 1 \<longrightarrow> ws_closed w \<and> ws_messages w = [])"
  using ws_machine.run_safe [OF ws_ok_new assms] by (auto simp: ws_ok_def)

lemma websocket_safe_witness:
  "\<exists>w. run_steps ws_step [WsAccept False, WsSend ''a'', WsSend ''b'', WsClose, WsWritten False, WsWritten False]
     (ws_run Websocket_new) = Some w \<and> ws_closes w \<le> 1 \<and> length (ws_writes w) \<le> 1"
proof -
  let ?es = "[WsAccept False, WsSend ''a'', WsSend ''b'', WsClose, WsWritten False, WsWritten False]"
  have "permitted ws_step ws_polite ?es (ws_run Websocket_new)"
    by (simp add: ws_defs Websocket_new_def Let_def)
  from websocket_safe [OF this] show ?thesis by blast
qed

text \<open>
  C27: while an accepted websocket is open, the messages written are a prefix of the messages sent, each
  whole, in order and once; all of them when no write is outstanding.
\<close>

theorem websocket_messages_in_order:
  "case qrun (\<lambda>s w. the (ws_send s w)) (\<lambda>w. the (ws_on_write False w)) (\<lambda>w. List.map (\<lambda>m. [m]) (ws_writes w))
       evs ws_accepted of (out, w) \<Rightarrow>
     out @ ws_messages w = enqueued evs \<and> (ws_writes w = [] \<longrightarrow> out = enqueued evs)"
proof -
  have live: "ws_live ws_accepted" "ws_messages ws_accepted = []"
    using ws_ok_accepted by (simp_all add: ws_live_def ws_accepted_def Websocket_new_def)
  obtain out w where r: "qrun (\<lambda>s w. the (ws_send s w)) (\<lambda>w. the (ws_on_write False w))
      (\<lambda>w. List.map (\<lambda>m. [m]) (ws_writes w)) evs ws_accepted = (out, w)"
    by fastforce
  have single: "concat (List.map (\<lambda>s. [s]) xs) = xs" for xs :: "string list" by (induction xs) auto
  from ws.run_fifo [OF live(1) r] ws.run_drained [OF live r] live(2) show ?thesis
    by (simp add: r single)
qed

lemma websocket_messages_in_order_witness:
  "fst (qrun (\<lambda>s w. the (ws_send s w)) (\<lambda>w. the (ws_on_write False w)) (\<lambda>w. List.map (\<lambda>m. [m]) (ws_writes w))
     [Enq ''hello'', Enq ''there'', Ack, Ack] ws_accepted) = [''hello'', ''there'']"
proof -
  let ?r = "qrun (\<lambda>s w. the (ws_send s w)) (\<lambda>w. the (ws_on_write False w)) (\<lambda>w. List.map (\<lambda>m. [m]) (ws_writes w))
     [Enq ''hello'', Enq ''there'', Ack, Ack] ws_accepted"
  have "ws_writes (snd ?r) = []"
    by (simp add: ws_defs ws_accepted_def Websocket_new_def Let_def)
  with websocket_messages_in_order [of "[Enq ''hello'', Enq ''there'', Ack, Ack]"] show ?thesis
    by (simp add: case_prod_beta)
qed

text \<open>
  a message sent before the handshake has completed, which the callback that is handed the new
  websocket can do, is written twice at the same time; when both writes complete the queue is popped
  while empty.
\<close>

theorem send_before_accept_writes_twice:
  "(\<exists>w. run_steps ws_step [WsSend m, WsAccept False] (ws_run Websocket_new) = Some w \<and> ws_writes w = [m, m] \<and> ws_messages w = [m]) \<and>
   run_steps ws_step [WsSend m, WsAccept False, WsWritten False, WsWritten False] (ws_run Websocket_new) = None"
  by (simp add: ws_defs Websocket_new_def Let_def)

section \<open>Requests and responses\<close>

record http_request =
  rq_method :: string
  rq_target :: string
  rq_body :: string
  rq_fields :: "(string \<times> string) list"
  rq_version :: nat
  rq_keep_alive :: bool
  rq_upgrade :: bool

text \<open>
  A response is its status and body and the calls that set its fields, in order: a field of any name,
  \<open>keep_alive\<close> and \<open>content_length\<close>.  As the library documents, a call replaces what earlier ones set for
  the same field, and names are compared without regard to case.
\<close>

datatype field_call = SetField string string | SetKeepAlive bool | SetContentLength nat

record http_response =
  rs_status :: nat
  rs_version :: nat
  rs_calls :: "field_call list"
  rs_body :: string

definition lower_char :: "char \<Rightarrow> char" where
  "lower_char c = (if 65 \<le> (of_char c :: nat) \<and> of_char c \<le> (90 :: nat) then char_of (of_char c + (32 :: nat)) else c)"

definition same_field :: "string \<Rightarrow> string \<Rightarrow> bool" where
  "same_field a b \<longleftrightarrow> List.map lower_char a = List.map lower_char b"

fun sets_field :: "string \<Rightarrow> field_call \<Rightarrow> bool" where
  "sets_field name (SetField n v) = same_field name n"
| "sets_field name (SetKeepAlive b) = same_field name ''Connection''"
| "sets_field name (SetContentLength n) = same_field name ''Content-Length''"

text \<open>The length the response announces: what the last call that sets it says.\<close>

fun announced :: "field_call list \<Rightarrow> string option" where
  "announced [] = None"
| "announced (c # cs) =
     (case announced cs of
        Some t \<Rightarrow> Some t
      | None \<Rightarrow>
          (case c of
             SetField n v \<Rightarrow> if same_field ''Content-Length'' n then Some v else None
           | SetKeepAlive b \<Rightarrow> None
           | SetContentLength n \<Rightarrow> Some (show_nat n)))"

text \<open>
  The HTTP library: \<open>int_to_status\<close>, which knows some codes and makes the others 0 (\<open>unknown\<close>), and how
  \<open>keep_alive()\<close> reads a message of a version.  Its documentation says that it returns what was set, if
  nothing else has set the Connection field since.
\<close>

record beast =
  int_to_status :: "u32 \<Rightarrow> nat"
  be_keep_alive :: "nat \<Rightarrow> field_call list \<Rightarrow> bool"

definition keep_alive_law :: "beast \<Rightarrow> bool" where
  "keep_alive_law be \<longleftrightarrow>
     (\<forall>v pre b post. list_all (\<lambda>c. \<not> sets_field ''Connection'' c) post \<longrightarrow>
        be_keep_alive be v (pre @ SetKeepAlive b # post) = b)"

definition msg_keep_alive :: "beast \<Rightarrow> http_response \<Rightarrow> bool" where
  "msg_keep_alive be msg = be_keep_alive be (rs_version msg) (rs_calls msg)"

definition BEAST_VERSION :: string where "BEAST_VERSION = ''BEAST''"

definition server_error :: "http_request \<Rightarrow> string \<Rightarrow> http_response" where
  "server_error req what =
     \<lparr>rs_status = 500, rs_version = rq_version req,
      rs_calls = [SetField ''Server'' BEAST_VERSION, SetField ''Content-Type'' ''text/plain'',
        SetKeepAlive (rq_keep_alive req), SetContentLength (length what)],
      rs_body = what\<rparr>"

text \<open>
  The arguments of the callback: method, target, body and the table of the request's fields, where a
  repeated field keeps its last value.
\<close>

definition fields_table :: "(string \<times> string) list \<Rightarrow> lua_value" where
  "fields_table fs =
     LTable (List.map (\<lambda>(k, v). (LStr k, LStr v)) (fold (\<lambda>(k, v) t. filter (\<lambda>p. fst p \<noteq> k) t @ [(k, v)]) fs []))"

definition request_args :: "http_request \<Rightarrow> lua_value list" where
  "request_args req =
     [LStr (rq_method req), LStr (rq_target req), LStr (rq_body req), fields_table (rq_fields req)]"

text \<open>
  The header loop over the table the callback returned; \<open>show\<close> is \<open>luaL_tolstring\<close>.  A value that is
  neither a string nor a number ends it.
\<close>

fun response_fields ::
  "lua_conv \<Rightarrow> (lua_value \<Rightarrow> string) \<Rightarrow> (lua_value \<times> lua_value) list \<Rightarrow> http_response \<Rightarrow> http_response option" where
  "response_fields conv shw [] res = Some res"
| "response_fields conv shw ((k, v) # t) res =
     (case lua_tostr conv v of
        None \<Rightarrow> None
      | Some val \<Rightarrow> response_fields conv shw t
          (res\<lparr>rs_calls := rs_calls res @ [SetField (c_str (shw k)) (c_str val)]\<rparr>))"

text \<open>
  \<open>pcall\<close> is what the callback does with its arguments: raise an error value, or return values, which
  Lua adjusts to three.  The status is converted to an \<open>unsigned\<close>.  \<open>std::string\<close> of a null pointer, for an error value that is no string, is
  undefined behaviour: \<open>None\<close>.
\<close>

definition handle_request ::
  "beast \<Rightarrow> lua_conv \<Rightarrow> (lua_value \<Rightarrow> string) \<Rightarrow> (lua_value list \<Rightarrow> lua_value + lua_value \<times> lua_value \<times> lua_value) \<Rightarrow>
   http_request \<Rightarrow> http_response option" where
  "handle_request be conv shw pcall req =
     (case pcall (request_args req) of
        Inl e \<Rightarrow> (case lua_tostr conv e of None \<Rightarrow> None | Some err \<Rightarrow> Some (server_error req (c_str err)))
      | Inr (code_value, body_value, headers) \<Rightarrow>
          (let code = (case lua_toint conv code_value of None \<Rightarrow> 0 | Some c \<Rightarrow> c)
           in if code = 0 then Some (server_error req ''internal server error'')
              else
                (let body = (case lua_tostr conv body_value of None \<Rightarrow> [] | Some b \<Rightarrow> b);
                     res = \<lparr>rs_status = int_to_status be (word_of_int code), rs_version = rq_version req,
                       rs_calls = [SetField ''Server'' BEAST_VERSION, SetKeepAlive (rq_keep_alive req),
                         SetContentLength (length body)], rs_body = body\<rparr>
                 in case headers of
                      LTable t \<Rightarrow>
                        (case response_fields conv shw t res of
                           None \<Rightarrow> Some (server_error req ''internal server error'')
                         | Some res \<Rightarrow> Some res)
                    | _ \<Rightarrow> Some res)))"

section \<open>Sessions\<close>

text \<open>
  What a session waits for, and what it has done.  What the Lua handler answers to a request may depend on
  when it   it is called: \<open>handler n\<close> is the answer after \<open>n\<close> actions of the session.
\<close>

type_synonym http_handler = "nat \<Rightarrow> http_request \<Rightarrow> http_response option"

datatype session_wait = Reading | Writing bool | Closed | Failed | Upgraded

datatype session_action =
    CallHandler http_request
  | Respond http_response
  | HandOver http_request
  | ShutdownSend
  | ReportFailure lua_call

record session =
  se_wait :: session_wait
  se_log :: "session_action list"

text \<open>\<open>fail\<close>: the callback gets nil, the operation and the error message.\<close>

definition fail_call :: "string \<Rightarrow> string \<Rightarrow> lua_call" where
  "fail_call what message = LuaCall ''httpd error'' [LNil, LStr what, LStr message]"

definition se_do_read :: "session \<Rightarrow> session" where
  "se_do_read s = s\<lparr>se_wait := Reading\<rparr>"

definition se_do_close :: "session \<Rightarrow> session" where
  "se_do_close s = s\<lparr>se_wait := Closed, se_log := se_log s @ [ShutdownSend]\<rparr>"

definition se_fail :: "string \<Rightarrow> string \<Rightarrow> session \<Rightarrow> session" where
  "se_fail what message s = s\<lparr>se_wait := Failed, se_log := se_log s @ [ReportFailure (fail_call what message)]\<rparr>"

definition se_run :: session where
  "se_run = se_do_read \<lparr>se_wait = Closed, se_log = []\<rparr>"

definition se_send_response :: "beast \<Rightarrow> http_response \<Rightarrow> session \<Rightarrow> session" where
  "se_send_response be msg s = s\<lparr>se_wait := Writing (msg_keep_alive be msg), se_log := se_log s @ [Respond msg]\<rparr>"

datatype read_outcome = EndOfStream | ReadError string | ReadRequest http_request

definition se_on_read :: "beast \<Rightarrow> http_handler \<Rightarrow> read_outcome \<Rightarrow> session \<Rightarrow> session option" where
  "se_on_read be handler r s =
     (case r of
        EndOfStream \<Rightarrow> Some (se_do_close s)
      | ReadError m \<Rightarrow> Some (se_fail ''read'' m s)
      | ReadRequest req \<Rightarrow>
          if rq_upgrade req then Some (s\<lparr>se_wait := Upgraded, se_log := se_log s @ [HandOver req]\<rparr>)
          else map_option (\<lambda>res. se_send_response be res (s\<lparr>se_log := se_log s @ [CallHandler req]\<rparr>)) (handler (length (se_log s)) req))"

definition se_on_write :: "bool \<Rightarrow> string option \<Rightarrow> session \<Rightarrow> session" where
  "se_on_write keep_alive ec s =
     (case ec of
        Some m \<Rightarrow> se_fail ''write'' m s
      | None \<Rightarrow> if \<not> keep_alive then se_do_close s else se_do_read s)"

datatype session_input = ReadDone read_outcome | WriteDone "string option"

text \<open>A completion resumes the session only when that operation is the one outstanding.\<close>

fun se_step :: "beast \<Rightarrow> http_handler \<Rightarrow> session_input \<Rightarrow> session \<Rightarrow> session option" where
  "se_step be handler (ReadDone r) s = (if se_wait s = Reading then se_on_read be handler r s else Some s)"
| "se_step be handler (WriteDone ec) s =
     (case se_wait s of Writing keep_alive \<Rightarrow> Some (se_on_write keep_alive ec s) | _ \<Rightarrow> Some s)"

text \<open>
  The shape of a session's log as an automaton: a call of the handler is followed by its response; a
  hand-over to a websocket, the shutdown and the report of a failure are the last action; a request is
  only taken after a response that keeps the connection alive.
\<close>

datatype phase = Idle | Called "http_response option" | Answered bool | Over

fun phase_step :: "beast \<Rightarrow> http_handler \<Rightarrow> nat \<Rightarrow> phase \<Rightarrow> session_action \<Rightarrow> phase option" where
  "phase_step be h n Over a = None"
| "phase_step be h n (Called answer) a =
     (case a of Respond res \<Rightarrow> if answer = Some res then Some (Answered (msg_keep_alive be res)) else None | _ \<Rightarrow> None)"
| "phase_step be h n ph (CallHandler req) =
     (if ph \<noteq> Answered False \<and> \<not> rq_upgrade req then Some (Called (h n req)) else None)"
| "phase_step be h n ph (HandOver req) = (if ph \<noteq> Answered False \<and> rq_upgrade req then Some Over else None)"
| "phase_step be h n ph (Respond res) = None"
| "phase_step be h n ph ShutdownSend = Some Over"
| "phase_step be h n ph (ReportFailure c) = Some Over"

fun log_phase :: "beast \<Rightarrow> http_handler \<Rightarrow> nat \<Rightarrow> phase \<Rightarrow> session_action list \<Rightarrow> phase option" where
  "log_phase be h n ph [] = Some ph"
| "log_phase be h n ph (a # as) =
     (case phase_step be h n ph a of None \<Rightarrow> None | Some ph \<Rightarrow> log_phase be h (Suc n) ph as)"

lemma log_phase_append:
  "log_phase be h n ph (as @ bs) =
     (case log_phase be h n ph as of None \<Rightarrow> None | Some p \<Rightarrow> log_phase be h (n + length as) p bs)"
  by (induction as arbitrary: n ph) (auto split: option.splits)

fun waits_in :: "session_wait \<Rightarrow> phase \<Rightarrow> bool" where
  "waits_in Reading ph = (ph = Idle \<or> ph = Answered True)"
| "waits_in (Writing k) ph = (ph = Answered k)"
| "waits_in _ ph = (ph = Over)"

definition log_ok :: "beast \<Rightarrow> http_handler \<Rightarrow> session_wait \<Rightarrow> session_action list \<Rightarrow> bool" where
  "log_ok be h w log = (case log_phase be h 0 Idle log of None \<Rightarrow> False | Some ph \<Rightarrow> waits_in w ph)"

lemma session_log_step:
  assumes "log_ok be h (se_wait s) (se_log s)" "se_step be h i s = Some s'"
  shows "log_ok be h (se_wait s') (se_log s')"
proof (cases i)
  case (ReadDone r)
  show ?thesis
  proof (cases "se_wait s = Reading")
    case False
    with assms ReadDone show ?thesis by simp
  next
    case True
    with assms(1) have "log_phase be h 0 Idle (se_log s) = Some Idle \<or> log_phase be h 0 Idle (se_log s) = Some (Answered True)"
      by (auto simp: log_ok_def split: option.splits)
    with assms(2) ReadDone True show ?thesis
      by (cases r)
        (auto simp: log_ok_def log_phase_append se_on_read_def se_do_close_def se_fail_def se_send_response_def
          split: if_splits)
  qed
next
  case (WriteDone ec)
  show ?thesis
  proof (cases "se_wait s")
    case (Writing k)
    with assms(1) have "log_phase be h 0 Idle (se_log s) = Some (Answered k)"
      by (auto simp: log_ok_def split: option.splits)
    with assms(2) WriteDone Writing show ?thesis
      by (auto simp: log_ok_def log_phase_append se_on_write_def se_do_close_def se_do_read_def se_fail_def
          split: option.splits if_splits)
  qed (use assms WriteDone in simp_all)
qed

interpretation session_machine: invariant_machine "se_step be h" "\<lambda>s. log_ok be h (se_wait s) (se_log s)" for be h
  by unfold_locales (rule session_log_step)

lemma log_ok_run: "log_ok be h (se_wait se_run) (se_log se_run)"
  by (simp add: se_run_def se_do_read_def log_ok_def)

text \<open>
  over the life of a session every request is answered, exactly once, by the response its handler
  call returned and before the next request is read; requests are only read on while the answer kept
  the connection alive; an upgrade, the end of the stream or a failed operation ends the session, and
  nothing is sent or called after that.
\<close>

theorem session_answers_each_request:
  "run_steps (se_step be handler) inputs se_run = Some s \<Longrightarrow> log_ok be handler (se_wait s) (se_log s)"
  by (rule session_machine.run_preserves [OF log_ok_run])

text \<open>An HTTP library that keeps every connection open unless the last call said otherwise.\<close>

definition plain_beast :: beast where
  "plain_beast = \<lparr>int_to_status = unat,
     be_keep_alive = (\<lambda>v cs. case rev (filter (sets_field ''Connection'') cs) of
        SetKeepAlive b # _ \<Rightarrow> b | k # _ \<Rightarrow> False | [] \<Rightarrow> True)\<rparr>"

lemma same_field_refl [simp]: "same_field a a"
  by (simp add: same_field_def)

lemma plain_beast_law: "keep_alive_law plain_beast"
proof -
  have "filter (sets_field ''Connection'') post = []" if "list_all (\<lambda>c. \<not> sets_field ''Connection'' c) post" for post
    using that by (induction post) auto
  then show ?thesis
    by (auto simp: keep_alive_law_def plain_beast_def split: list.splits)
qed

definition get_request :: "bool \<Rightarrow> http_request" where
  "get_request k = \<lparr>rq_method = ''GET'', rq_target = ''/'', rq_body = [], rq_fields = [], rq_version = 11,
     rq_keep_alive = k, rq_upgrade = False\<rparr>"

lemma session_answers_each_request_witness:
  "let handler = (\<lambda>n req. Some (server_error req ''x''))
   in \<exists>s. run_steps (se_step plain_beast handler) [ReadDone (ReadRequest (get_request False)), WriteDone None] se_run
     = Some s \<and> log_ok plain_beast handler (se_wait s) (se_log s) \<and> length (se_log s) = 3"
proof -
  let ?handler = "\<lambda>n req. Some (server_error req ''x'')"
  have "msg_keep_alive plain_beast (server_error (get_request False) ''x'') = False"
    by (simp add: msg_keep_alive_def plain_beast_def server_error_def get_request_def)
  then have "\<exists>s. run_steps (se_step plain_beast ?handler) [ReadDone (ReadRequest (get_request False)), WriteDone None] se_run
      = Some s \<and> length (se_log s) = 3"
    by (simp add: se_run_def se_do_read_def se_on_read_def se_send_response_def se_on_write_def se_do_close_def
        get_request_def)
  then obtain s where "run_steps (se_step plain_beast ?handler) [ReadDone (ReadRequest (get_request False)), WriteDone None] se_run
      = Some s" "length (se_log s) = 3" by blast
  with session_answers_each_request [OF this(1)] show ?thesis unfolding Let_def by blast
qed

section \<open>What is answered\<close>

fun set_field :: "string \<times> string \<Rightarrow> field_call" where
  "set_field (k, v) = SetField k v"

lemma response_fields_shape:
  "response_fields conv shw t r = Some r' \<Longrightarrow>
   \<exists>fs. r' = r\<lparr>rs_calls := rs_calls r @ List.map set_field fs\<rparr>"
proof (induction conv shw t r rule: response_fields.induct)
  case (1 conv shw res)
  then show ?case by (intro exI [of _ "[]"]) simp
next
  case (2 conv shw k v t res)
  then obtain val where val: "lua_tostr conv v = Some val"
    "response_fields conv shw t (res\<lparr>rs_calls := rs_calls res @ [SetField (c_str (shw k)) (c_str val)]\<rparr>) = Some r'"
    by (auto split: option.splits)
  from "2.IH" [OF this] obtain fs where
    "r' = res\<lparr>rs_calls := rs_calls res @ SetField (c_str (shw k)) (c_str val) # List.map set_field fs\<rparr>" by auto
  then show ?case by (intro exI [of _ "(c_str (shw k), c_str val) # fs"]) simp
qed

text \<open>Every response sets keep-alive and length once, then the callback's fields, if it gets to them.\<close>

lemma handle_request_shape:
  assumes "handle_request be conv shw pcall req = Some res"
  shows "rs_version res = rq_version req \<and>
    (\<exists>pre fs. rs_calls res = pre @ SetKeepAlive (rq_keep_alive req) # SetContentLength (length (rs_body res)) #
       List.map set_field fs)"
proof -
  have err: "rs_version (server_error req w) = rq_version req \<and>
      (\<exists>pre fs. rs_calls (server_error req w) = pre @ SetKeepAlive (rq_keep_alive req) #
         SetContentLength (length (rs_body (server_error req w))) # List.map set_field fs)" for w
    by (rule conjI, simp add: server_error_def, rule exI [of _ "[SetField _ _, SetField _ _]"], rule exI [of _ "[]"])
      (simp add: server_error_def)
  show ?thesis
  proof (cases "pcall (request_args req)")
    case (Inl e)
    with assms err show ?thesis by (auto simp: handle_request_def split: option.splits)
  next
    case (Inr r)
    obtain c b h where r: "r = (c, b, h)" by (cases r)
    define body where "body = (case lua_tostr conv b of None \<Rightarrow> [] | Some b \<Rightarrow> b)"
    define r0 where "r0 = \<lparr>rs_status = int_to_status be (word_of_int (case lua_toint conv c of None \<Rightarrow> 0 | Some c \<Rightarrow> c)),
      rs_version = rq_version req, rs_calls = [SetField ''Server'' BEAST_VERSION, SetKeepAlive (rq_keep_alive req),
        SetContentLength (length body)], rs_body = body\<rparr>"
    from assms Inr r obtain t where "res = server_error req ''internal server error'' \<or> res = r0 \<or>
        response_fields conv shw t r0 = Some res"
      by (auto simp: handle_request_def r0_def body_def Let_def split: if_splits option.splits lua_value.splits)
    moreover have shape: "\<exists>fs. res = r0\<lparr>rs_calls := rs_calls r0 @ List.map set_field fs\<rparr>"
      if "res = r0 \<or> response_fields conv shw t r0 = Some res"
      using that response_fields_shape [of conv shw t r0 res] by (auto intro: exI [of _ "[]"])
    have ?thesis if r: "res = r0 \<or> response_fields conv shw t r0 = Some res"
    proof -
      obtain fs where "res = r0\<lparr>rs_calls := rs_calls r0 @ List.map set_field fs\<rparr>"
        using shape [OF r] by blast
      then have "rs_calls res = [SetField ''Server'' BEAST_VERSION] @ SetKeepAlive (rq_keep_alive req) #
          SetContentLength (length (rs_body res)) # List.map set_field fs" "rs_version res = rq_version req"
        by (simp_all add: r0_def)
      then show ?thesis by blast
    qed
    ultimately show ?thesis using err by blast
  qed
qed

lemma announced_append:
  "announced (xs @ ys) = (case announced ys of None \<Rightarrow> announced xs | Some t \<Rightarrow> Some t)"
  by (induction xs) (auto split: option.splits)

lemma announced_absent: "list_all (\<lambda>(n, v). \<not> same_field ''Content-Length'' n) fs \<Longrightarrow> announced (List.map set_field fs) = None"
  by (induction fs) auto

lemma not_sets_field:
  "list_all (\<lambda>(n, v). \<not> same_field f n) fs \<Longrightarrow> list_all (\<lambda>c. \<not> sets_field f c) (List.map set_field fs)"
  by (induction fs) auto

text \<open>
  C32: a response repeats the version of its request; unless the callback sets the field itself, it announces
  the length of its body and keeps the connection as the request asked; without a usable status it is
  the internal server error.
\<close>

theorem handle_request_response:
  assumes "handle_request be conv shw pcall req = Some res"
  shows "rs_version res = rq_version req \<and>
    (announced (rs_calls res) = Some (show_nat (length (rs_body res))) \<or>
      (\<exists>n v. SetField n v \<in> set (rs_calls res) \<and> same_field ''Content-Length'' n)) \<and>
    (keep_alive_law be \<longrightarrow> msg_keep_alive be res = rq_keep_alive req \<or>
      (\<exists>n v. SetField n v \<in> set (rs_calls res) \<and> same_field ''Connection'' n)) \<and>
    (\<forall>c b h. pcall (request_args req) = Inr (c, b, h) \<and> (lua_toint conv c = None \<or> lua_toint conv c = Some 0) \<longrightarrow>
       res = server_error req ''internal server error'')"
proof -
  from handle_request_shape [OF assms] obtain pre fs where
    v: "rs_version res = rq_version req" and
    c: "rs_calls res = pre @ SetKeepAlive (rq_keep_alive req) # SetContentLength (length (rs_body res)) #
       List.map set_field fs"
    by blast
  have in_calls: "\<exists>n v. SetField n v \<in> set (rs_calls res) \<and> same_field f n"
    if "\<not> list_all (\<lambda>(n, v). \<not> same_field f n) fs" for f
  proof -
    from that obtain n v where "(n, v) \<in> set fs" "same_field f n" by (auto simp: list_all_iff)
    then have "set_field (n, v) \<in> set (rs_calls res)" unfolding c by (metis Un_iff image_eqI list.set_map set_append set_ConsD list.set_intros(2))
    with \<open>same_field f n\<close> show ?thesis by auto
  qed
  have "announced (rs_calls res) = Some (show_nat (length (rs_body res)))"
    if "list_all (\<lambda>(n, v). \<not> same_field ''Content-Length'' n) fs"
    using announced_absent [OF that] by (simp add: c announced_append)
  moreover have "msg_keep_alive be res = rq_keep_alive req"
    if "list_all (\<lambda>(n, v). \<not> same_field ''Connection'' n) fs" "keep_alive_law be"
  proof -
    have "list_all (\<lambda>c. \<not> sets_field ''Connection'' c) (SetContentLength (length (rs_body res)) # List.map set_field fs)"
      using not_sets_field [OF that(1)] by (simp add: same_field_def)
    with that(2) show ?thesis unfolding keep_alive_law_def msg_keep_alive_def c v by blast
  qed
  moreover have "res = server_error req ''internal server error''"
    if "pcall (request_args req) = Inr (c, b, h)" "lua_toint conv c = None \<or> lua_toint conv c = Some 0" for c b h
    using assms that by (auto simp: handle_request_def)
  ultimately show ?thesis using v in_calls by blast
qed

lemma handle_request_response_witness:
  "\<exists>res. handle_request plain_beast plain_conv (\<lambda>_. []) (\<lambda>_. Inr (LNil, LNil, LNil)) (get_request True) = Some res \<and>
     res = server_error (get_request True) ''internal server error'' \<and> msg_keep_alive plain_beast res"
proof -
  have "\<exists>res. handle_request plain_beast plain_conv (\<lambda>_. []) (\<lambda>_. Inr (LNil, LNil, LNil)) (get_request True) = Some res"
    by (simp add: handle_request_def plain_conv_def)
  then obtain res where
    r: "handle_request plain_beast plain_conv (\<lambda>_. []) (\<lambda>_. Inr (LNil, LNil, LNil)) (get_request True) = Some res" ..
  from handle_request_response [OF r] have "res = server_error (get_request True) ''internal server error''"
    "msg_keep_alive plain_beast res = True \<or> (\<exists>n v. SetField n v \<in> set (rs_calls res) \<and> same_field ''Connection'' n)"
    by (auto simp: plain_conv_def plain_beast_law get_request_def)
  with r show ?thesis by (auto simp: server_error_def same_field_def lower_char_def)
qed

text \<open>A callback that sets the field itself announces a length that is not that of the body.\<close>

lemma callback_overrides_length:
  "map_option (\<lambda>res. (rs_body res, announced (rs_calls res)))
     (handle_request plain_beast plain_conv (\<lambda>v. case v of LStr s \<Rightarrow> s | _ \<Rightarrow> [])
       (\<lambda>_. Inr (LInt 200, LStr ''x'', LTable [(LStr ''content-length'', LStr ''5'')])) (get_request True)) =
   Some (''x'', Some ''5'')"
  by code_simp

end
