(* ===== verification/HttpServer.thy ===== *)
theory HttpServer
  imports Httpd
begin

text \<open>
  The listener of \<open>client/httpd.cpp\<close>, its Lua methods, and the server they form with the sessions and
  websockets of \<open>Httpd\<close>: one step function over everything that can happen, in any order.
\<close>

section \<open>The listener\<close>

datatype endpoint_outcome = OpenFails string | OptionFails string | BindFails string | ListenFails string | Listens

text \<open>
  \<open>li_acceptors\<close> tells for each acceptor whether it is open, \<open>li_accepting\<close> are the accepts outstanding:
  the acceptor, and whether it was open when the operation was started.
\<close>

record listener =
  li_resolving :: "(string \<times> string) option"
  li_acceptors :: "bool list"
  li_accepting :: "(nat \<times> bool) list"
  li_calls :: "lua_call list"

definition Listener_new :: listener where
  "Listener_new = \<lparr>li_resolving = None, li_acceptors = [], li_accepting = [], li_calls = []\<rparr>"

definition li_fail :: "string \<Rightarrow> string \<Rightarrow> listener \<Rightarrow> listener" where
  "li_fail what message l = l\<lparr>li_calls := li_calls l @ [fail_call what message]\<rparr>"

definition li_run :: "string \<Rightarrow> string \<Rightarrow> listener \<Rightarrow> listener" where
  "li_run host service l = l\<lparr>li_resolving := Some (host, service)\<rparr>"

definition do_accept :: "nat \<Rightarrow> listener \<Rightarrow> listener" where
  "do_accept a l = l\<lparr>li_accepting := li_accepting l @ [(a, li_acceptors l ! a)]\<rparr>"

text \<open>The step that failed and its message.\<close>

fun endpoint_failure :: "endpoint_outcome \<Rightarrow> (string \<times> string) option" where
  "endpoint_failure (OpenFails m) = Some (''open'', m)"
| "endpoint_failure (OptionFails m) = Some (''set_option'', m)"
| "endpoint_failure (BindFails m) = Some (''bind'', m)"
| "endpoint_failure (ListenFails m) = Some (''listen'', m)"
| "endpoint_failure Listens = None"

fun opened :: "endpoint_outcome \<Rightarrow> bool" where
  "opened (OpenFails m) = False"
| "opened _ = True"

text \<open>The loop over the resolved endpoints; each gets the next acceptor, the first failure ends it.\<close>

fun listen_on :: "endpoint_outcome list \<Rightarrow> listener \<Rightarrow> listener" where
  "listen_on [] l = l"
| "listen_on (r # rs) l =
     (let l = l\<lparr>li_acceptors := li_acceptors l @ [opened r]\<rparr>
      in case endpoint_failure r of
           Some (what, m) \<Rightarrow> li_fail what m l
         | None \<Rightarrow> listen_on rs (do_accept (length (li_acceptors l) - 1) l))"

definition li_on_resolve :: "string + endpoint_outcome list \<Rightarrow> listener \<Rightarrow> listener" where
  "li_on_resolve r l =
     (let l = l\<lparr>li_resolving := None\<rparr>
      in case r of Inl m \<Rightarrow> li_fail ''resolve'' m l | Inr results \<Rightarrow> listen_on results l)"

text \<open>The completion of an accept; whether it gave a connection, which becomes a session.\<close>

definition li_on_accept :: "nat \<Rightarrow> string option \<Rightarrow> listener \<Rightarrow> listener \<times> session list" where
  "li_on_accept a ec l =
     (let l = l\<lparr>li_accepting := filter (\<lambda>p. fst p \<noteq> a) (li_accepting l)\<rparr>
      in case ec of
           Some m \<Rightarrow> (li_fail ''accept'' m l, [])
         | None \<Rightarrow> (do_accept a l, [se_run]))"

definition li_close :: "listener \<Rightarrow> listener" where
  "li_close l = l\<lparr>li_acceptors := List.map (\<lambda>_. False) (li_acceptors l)\<rparr>"

lemmas li_defs = Listener_new_def li_fail_def li_run_def do_accept_def li_on_resolve_def li_on_accept_def
  li_close_def

text \<open>Each acceptor has at most one accept outstanding, and before resolution there are none.\<close>

definition li_ok :: "listener \<Rightarrow> bool" where
  "li_ok l \<longleftrightarrow>
     distinct (List.map fst (li_accepting l)) \<and> fst ` set (li_accepting l) \<subseteq> {..<length (li_acceptors l)} \<and>
     (li_resolving l \<noteq> None \<longrightarrow> li_acceptors l = [])"

lemma endpoint_failure_None: "endpoint_failure r = None \<longleftrightarrow> r = Listens"
  by (cases r) simp_all

lemma li_ok_accept:
  assumes "li_ok l" "a < length (li_acceptors l)" "a \<notin> fst ` set (li_accepting l)"
  shows "li_ok (do_accept a l)"
  using assms by (auto simp: li_ok_def do_accept_def)

lemma listen_on_ok:
  "li_ok l \<Longrightarrow> li_resolving l = None \<Longrightarrow> li_ok (listen_on rs l) \<and> li_resolving (listen_on rs l) = None"
proof (induction rs arbitrary: l)
  case (Cons r rs)
  let ?l = "l\<lparr>li_acceptors := li_acceptors l @ [opened r]\<rparr>"
  have ok: "li_ok ?l" "length (li_acceptors l) \<notin> fst ` set (li_accepting ?l)"
    using Cons.prems(1,2) by (auto simp: li_ok_def)
  show ?case
  proof (cases "endpoint_failure r")
    case None
    have "li_ok (do_accept (length (li_acceptors l)) ?l)" by (rule li_ok_accept) (use ok in auto)
    with Cons None show ?thesis by (simp add: do_accept_def)
  next
    case (Some p)
    with ok Cons.prems(2) show ?thesis by (cases p) (simp add: li_fail_def li_ok_def)
  qed
qed simp

lemma li_ok_resolved [inv_intros]:
  assumes "li_ok l" "li_resolving l \<noteq> None"
  shows "li_ok (li_on_resolve r l) \<and> li_resolving (li_on_resolve r l) = None"
proof (cases r)
  case (Inl m)
  with assms show ?thesis by (auto simp: li_on_resolve_def li_fail_def li_ok_def Let_def)
next
  case (Inr results)
  from assms have "li_ok (l\<lparr>li_resolving := None\<rparr>)" by (auto simp: li_ok_def)
  from listen_on_ok [OF this] Inr show ?thesis by (simp add: li_on_resolve_def)
qed

lemma li_ok_accepted [inv_intros]:
  assumes "li_ok l" "a \<in> fst ` set (li_accepting l)"
  shows "li_ok (fst (li_on_accept a ec l))"
proof -
  let ?l = "l\<lparr>li_accepting := filter (\<lambda>p. fst p \<noteq> a) (li_accepting l)\<rparr>"
  have ok: "li_ok ?l" using assms by (auto simp: li_ok_def distinct_map_filter)
  moreover have "li_ok (do_accept a ?l)" by (rule li_ok_accept [OF ok]) (use assms in \<open>auto simp: li_ok_def\<close>)
  ultimately show ?thesis by (auto simp: li_on_accept_def li_fail_def li_ok_def Let_def split: option.split)
qed

lemma li_ok_close [inv_intros]: "li_ok l \<Longrightarrow> li_ok (li_close l)"
  by (simp add: li_ok_def li_close_def)

text \<open>
  After resolving, exactly the endpoints before the first one that cannot be opened, configured, bound
  or listened on are accepting, once each, and exactly one failure is reported if there was one.
\<close>

lemma listen_on_accepts:
  "let l' = listen_on rs l; n = length (takeWhile (\<lambda>r. r = Listens) rs); k = length (li_acceptors l)
   in li_accepting l' = li_accepting l @ List.map (\<lambda>a. (a, True)) [k..<k + n] \<and>
      length (li_calls l') = length (li_calls l) + (if n < length rs then 1 else 0)"
proof (induction rs arbitrary: l)
  case (Cons r rs)
  show ?case
  proof (cases "r = Listens")
    case True
    let ?l = "do_accept (length (li_acceptors l)) (l\<lparr>li_acceptors := li_acceptors l @ [True]\<rparr>)"
    from Cons.IH [of ?l] True show ?thesis
      by (simp add: Let_def do_accept_def upt_conv_Cons [of "length (li_acceptors l)"] del: upt_Suc)
  next
    case False
    then obtain w m where "endpoint_failure r = Some (w, m)"
      using endpoint_failure_None [of r] by auto
    with False show ?thesis by (simp add: li_fail_def)
  qed
qed simp

section \<open>The server\<close>

text \<open>
  \<open>sv_objects\<close> are the Lua userdata of the module, each with whether its \<open>std::shared_ptr\<close> has not been
  destroyed by \<open>__gc\<close> yet; \<open>sv_calls\<close> are the calls that hand a new websocket to Lua.
\<close>

datatype server_object = ListenerBox | WebsocketBox nat

record server =
  sv_listener :: listener
  sv_sessions :: "session list"
  sv_sockets :: "websocket list"
  sv_objects :: "(server_object \<times> bool) list"
  sv_calls :: "lua_call list"

text \<open>\<open>start_httpd\<close> returns a new listener that is resolving its address.\<close>

definition start_httpd :: "lua_conv \<Rightarrow> lua_value list \<Rightarrow> lua_error + server" where
  "start_httpd conv args =
     sbind (check_string_view conv args 1) (\<lambda>host.
     sbind (check_string_view conv args 2) (\<lambda>service.
       Inr \<lparr>sv_listener = li_run host service Listener_new, sv_sessions = [], sv_sockets = [],
         sv_objects = [(ListenerBox, True)], sv_calls = []\<rparr>))"

definition handle_websocket :: "http_request \<Rightarrow> server \<Rightarrow> server" where
  "handle_websocket req sv =
     (let j = length (sv_sockets sv); i = length (sv_objects sv)
      in sv\<lparr>sv_sockets := sv_sockets sv @ [ws_run Websocket_new],
            sv_objects := sv_objects sv @ [(WebsocketBox j, True)],
            sv_calls := sv_calls sv @ [LuaCall ''ws'' [LStr ''WS'', LStr (rq_target req), LRef i]]\<rparr>)"

text \<open>
  The methods.  \<open>check_udata\<close> raises an error for anything but a userdata of the right metatable;
  using or destroying a \<open>std::shared_ptr\<close> after its destruction is undefined behaviour.
\<close>

fun is_websocket :: "server_object \<Rightarrow> bool" where
  "is_websocket (WebsocketBox j) = True"
| "is_websocket ListenerBox = False"

definition check_server_object :: "(server_object \<Rightarrow> bool) \<Rightarrow> lua_value list \<Rightarrow> nat \<Rightarrow> server \<Rightarrow> lua_error + nat" where
  "check_server_object kind args n sv =
     (case lua_arg args n of
        Some (LRef i) \<Rightarrow>
          if i < length (sv_objects sv) \<and> kind (fst (sv_objects sv ! i)) then Inr i
          else Inl (BadArg n ''wrong userdata'')
      | _ \<Rightarrow> Inl (BadArg n ''userdata expected''))"

definition at_socket :: "(websocket \<Rightarrow> websocket option) \<Rightarrow> nat \<Rightarrow> server \<Rightarrow> server option" where
  "at_socket f j sv = map_option (\<lambda>w. sv\<lparr>sv_sockets := (sv_sockets sv)[j := w]\<rparr>) (f (sv_sockets sv ! j))"

definition via_object :: "(websocket \<Rightarrow> websocket option) \<Rightarrow> nat \<Rightarrow> server \<Rightarrow> server option" where
  "via_object f i sv =
     (case sv_objects sv ! i of (WebsocketBox j, True) \<Rightarrow> at_socket f j sv | _ \<Rightarrow> None)"

type_synonym server_method = "lua_value list \<Rightarrow> server \<Rightarrow> lua_error + server option"

definition ws_lua_send :: "lua_conv \<Rightarrow> server_method" where
  "ws_lua_send conv args sv =
     sbind (check_server_object is_websocket args 1 sv) (\<lambda>i.
     sbind (check_string_view conv args 2) (\<lambda>s. Inr (via_object (ws_send s) i sv)))"

definition ws_lua_close :: server_method where
  "ws_lua_close args sv =
     sbind (check_server_object is_websocket args 1 sv) (\<lambda>i. Inr (via_object (\<lambda>w. Some (ws_close w)) i sv))"

definition ws_lua_on_recv :: server_method where
  "ws_lua_on_recv args sv =
     sbind (check_server_object is_websocket args 1 sv) (\<lambda>i.
       Inr (via_object (\<lambda>w. Some (ws_set_callback w)) i sv))"

definition listener_lua_close :: server_method where
  "listener_lua_close args sv =
     sbind (check_server_object (\<lambda>b. \<not> is_websocket b) args 1 sv) (\<lambda>i.
       Inr (if snd (sv_objects sv ! i) then Some (sv\<lparr>sv_listener := li_close (sv_listener sv)\<rparr>) else None))"

definition lua_gc :: "(server_object \<Rightarrow> bool) \<Rightarrow> server_method" where
  "lua_gc kind args sv =
     sbind (check_server_object kind args 1 sv) (\<lambda>i.
       Inr (if snd (sv_objects sv ! i)
            then Some (sv\<lparr>sv_objects := (sv_objects sv)[i := (fst (sv_objects sv ! i), False)]\<rparr>) else None))"

text \<open>The tables of methods and metamethods.\<close>

definition WsM :: "lua_conv \<Rightarrow> (string \<times> server_method) list" where
  "WsM conv = [(''send'', ws_lua_send conv), (''close'', ws_lua_close), (''on_recv'', ws_lua_on_recv)]"

definition WsMT :: "(string \<times> server_method) list" where
  "WsMT = [(''__gc'', lua_gc is_websocket)]"

definition ListenerM :: "(string \<times> server_method) list" where
  "ListenerM = [(''close'', listener_lua_close)]"

definition ListenerMT :: "(string \<times> server_method) list" where
  "ListenerMT = [(''__gc'', lua_gc (\<lambda>b. \<not> is_websocket b))]"

definition server_methods :: "lua_conv \<Rightarrow> (string \<times> server_method) list" where
  "server_methods conv = WsM conv @ WsMT @ ListenerM @ ListenerMT"

text \<open>
  The events: a call of a method (by its position in the tables) and the completions.  A completion is
  delivered only while its operation is outstanding.
\<close>

datatype server_event =
    LuaMethod nat "lua_value list"
  | Resolved "string + endpoint_outcome list"
  | Accepted nat "string option"
  | SessionEvent nat session_input
  | SocketEvent nat ws_event

text \<open>A request that upgrades its session leaves it to a new websocket.\<close>

definition take_over :: "session \<Rightarrow> session \<Rightarrow> server \<Rightarrow> server" where
  "take_over s s' sv =
     (case drop (length (se_log s)) (se_log s') of [HandOver req] \<Rightarrow> handle_websocket req sv | _ \<Rightarrow> sv)"

fun server_step :: "beast \<Rightarrow> lua_conv \<Rightarrow> (nat \<Rightarrow> http_handler) \<Rightarrow> server_event \<Rightarrow> server \<Rightarrow> server option" where
  "server_step be conv handler (LuaMethod n args) sv =
     (if n < length (server_methods conv) then
        (case snd (server_methods conv ! n) args sv of Inl e \<Rightarrow> Some sv | Inr r \<Rightarrow> r)
      else Some sv)"
| "server_step be conv handler (Resolved r) sv =
     (if li_resolving (sv_listener sv) \<noteq> None
      then Some (sv\<lparr>sv_listener := li_on_resolve r (sv_listener sv)\<rparr>) else Some sv)"
| "server_step be conv handler (Accepted a ec) sv =
     (if a \<in> fst ` set (li_accepting (sv_listener sv)) then
        (case li_on_accept a ec (sv_listener sv) of (l, new) \<Rightarrow>
           Some (sv\<lparr>sv_listener := l, sv_sessions := sv_sessions sv @ new\<rparr>))
      else Some sv)"
| "server_step be conv handler (SessionEvent k i) sv =
     (if k < length (sv_sessions sv) then
        map_option (\<lambda>s'. take_over (sv_sessions sv ! k) s' (sv\<lparr>sv_sessions := (sv_sessions sv)[k := s']\<rparr>))
          (se_step be (handler k) i (sv_sessions sv ! k))
      else Some sv)"
| "server_step be conv handler (SocketEvent j e) sv =
     (if j < length (sv_sockets sv) then at_socket (ws_step e) j sv else Some sv)"

text \<open>
  What the environment and the Lua program are expected to do: a userdata is not used after its
  \<open>__gc\<close>, nothing is sent to a websocket before its handshake is over, and, as the I/O library documents,
  an accept that was started on a closed acceptor does not succeed.
\<close>

fun server_polite :: "server_event \<Rightarrow> server \<Rightarrow> bool" where
  "server_polite (LuaMethod n args) sv =
     (case lua_arg args 1 of
        Some (LRef i) \<Rightarrow>
          i < length (sv_objects sv) \<longrightarrow>
            (case sv_objects sv ! i of
               (WebsocketBox j, live) \<Rightarrow> live \<and> (n = 0 \<longrightarrow> \<not> ws_accepting (sv_sockets sv ! j))
             | (ListenerBox, live) \<Rightarrow> live)
      | _ \<Rightarrow> True)"
| "server_polite (Accepted a None) sv = ((a, True) \<in> set (li_accepting (sv_listener sv)))"
| "server_polite (SocketEvent j e) sv = (j < length (sv_sockets sv) \<longrightarrow> ws_polite e (sv_sockets sv ! j))"
| "server_polite _ sv = True"

section \<open>The invariant of the server\<close>

definition upgraded :: "session \<Rightarrow> bool" where
  "upgraded s \<longleftrightarrow> se_wait s = Upgraded"

definition server_ok :: "beast \<Rightarrow> (nat \<Rightarrow> http_handler) \<Rightarrow> server \<Rightarrow> bool" where
  "server_ok be handler sv \<longleftrightarrow>
     li_ok (sv_listener sv) \<and>
     (\<forall>k < length (sv_sessions sv). log_ok be (handler k) (se_wait (sv_sessions sv ! k)) (se_log (sv_sessions sv ! k))) \<and>
     list_all ws_ok (sv_sockets sv) \<and>
     List.map fst (sv_objects sv) = ListenerBox # List.map WebsocketBox [0..<length (sv_sockets sv)] \<and>
     length (sv_calls sv) = length (sv_sockets sv) \<and>
     length (filter upgraded (sv_sessions sv)) = length (sv_sockets sv)"

lemma length_filter_update:
  assumes "k < length xs"
  shows "length (filter P (xs[k := y])) + (if P (xs ! k) then 1 else 0) =
    length (filter P xs) + (if P y then 1 else 0)"
proof -
  have "filter P xs = filter P (take k xs) @ filter P [xs ! k] @ filter P (drop (Suc k) xs)"
    by (subst id_take_nth_drop [OF assms]) (simp only: filter_append [symmetric], simp)
  with assms show ?thesis by (simp add: upd_conv_take_nth_drop)
qed

lemma server_ok_start: "start_httpd conv args = Inr sv \<Longrightarrow> server_ok be handler sv"
  by (auto simp: start_httpd_def sbind_Inr server_ok_def li_ok_def li_run_def Listener_new_def)

lemma server_ok_at_socket [inv_intros]:
  assumes "server_ok be handler sv" "j < length (sv_sockets sv)" "\<exists>w. f (sv_sockets sv ! j) = Some w \<and> ws_ok w"
  shows "\<exists>sv'. at_socket f j sv = Some sv' \<and> server_ok be handler sv'"
proof -
  from assms(3) obtain w where "f (sv_sockets sv ! j) = Some w" "ws_ok w" by blast
  with assms(1,2) show ?thesis
    by (auto simp: at_socket_def server_ok_def list_all_length nth_list_update)
qed

lemma socket_ok: "server_ok be handler sv \<Longrightarrow> j < length (sv_sockets sv) \<Longrightarrow> ws_ok (sv_sockets sv ! j)"
  by (auto simp: server_ok_def list_all_length)

lemma server_objects:
  assumes "server_ok be handler sv" "i < length (sv_objects sv)" "fst (sv_objects sv ! i) = WebsocketBox j"
  shows "j < length (sv_sockets sv)"
proof -
  have "fst (sv_objects sv ! i) = (ListenerBox # List.map WebsocketBox [0..<length (sv_sockets sv)]) ! i"
    using assms(1,2) by (metis nth_map server_ok_def)
  moreover have "i < Suc (length (sv_sockets sv))"
    using assms(1,2) by (metis length_Cons length_map length_upt minus_nat.diff_0 server_ok_def)
  ultimately show ?thesis using assms(3) by (cases i) auto
qed

lemma server_ok_via_object [inv_intros]:
  assumes "server_ok be handler sv" "i < length (sv_objects sv)" "sv_objects sv ! i = (WebsocketBox j, True)"
    "\<exists>w. f (sv_sockets sv ! j) = Some w \<and> ws_ok w"
  shows "\<exists>sv'. via_object f i sv = Some sv' \<and> server_ok be handler sv'"
  using assms server_objects [OF assms(1,2)] server_ok_at_socket [of be handler sv j f] by (simp add: via_object_def)

lemma server_ok_handle_websocket [inv_intros]:
  assumes "server_ok be handler (sv\<lparr>sv_sessions := ss\<rparr>)" "length ss' = length ss"
    "length (filter upgraded ss') = Suc (length (filter upgraded ss))"
    "\<forall>k < length ss'. log_ok be (handler k) (se_wait (ss' ! k)) (se_log (ss' ! k))"
  shows "server_ok be handler (handle_websocket req (sv\<lparr>sv_sessions := ss'\<rparr>))"
  using assms by (simp add: server_ok_def handle_websocket_def Let_def ws_ok_new)

text \<open>A step of a session answers, or hands the session over, which is then done.\<close>

lemma session_progress:
  assumes "\<And>n req. h n req \<noteq> None"
  shows "\<exists>s'. se_step be h i s = Some s' \<and>
    (if \<exists>req. drop (length (se_log s)) (se_log s') = [HandOver req] then \<not> upgraded s \<and> upgraded s' else upgraded s' = upgraded s)"
proof (cases i)
  case (ReadDone r)
  show ?thesis
  proof (cases "se_wait s = Reading")
    case True
    show ?thesis
    proof (cases r)
      case (ReadRequest req)
      from assms [of "length (se_log s)" req] obtain res where "h (length (se_log s)) req = Some res" by blast
      with True ReadDone ReadRequest show ?thesis
        by (simp add: se_on_read_def se_send_response_def upgraded_def)
    qed (use True ReadDone in \<open>simp_all add: se_on_read_def se_do_close_def se_fail_def upgraded_def\<close>)
  qed (use ReadDone in simp)
next
  case (WriteDone ec)
  then show ?thesis
    by (cases "se_wait s") (auto simp: se_on_write_def se_fail_def se_do_close_def se_do_read_def upgraded_def
        split: option.split)
qed

lemma server_ok_session [inv_intros]:
  assumes "server_ok be handler sv" "k < length (sv_sessions sv)" "\<And>n req. handler k n req \<noteq> None"
  shows "\<exists>sv'. server_step be conv handler (SessionEvent k i) sv = Some sv' \<and> server_ok be handler sv'"
proof -
  let ?s = "sv_sessions sv ! k"
  from session_progress [of "handler k" be i ?s] assms(3) obtain s' where
    s': "se_step be (handler k) i ?s = Some s'"
    "if \<exists>req. drop (length (se_log ?s)) (se_log s') = [HandOver req] then \<not> upgraded ?s \<and> upgraded s' else upgraded s' = upgraded ?s"
    by blast
  let ?ss = "(sv_sessions sv)[k := s']"
  have "log_ok be (handler k) (se_wait s') (se_log s')"
    by (rule session_log_step [OF _ s'(1)]) (use assms(1,2) in \<open>simp add: server_ok_def\<close>)
  then have logs: "\<forall>m < length ?ss. log_ok be (handler m) (se_wait (?ss ! m)) (se_log (?ss ! m))"
    using assms(1,2) by (simp add: server_ok_def nth_list_update)
  have n: "length (filter upgraded ?ss) + (if upgraded ?s then 1 else 0) =
      length (filter upgraded (sv_sessions sv)) + (if upgraded s' then 1 else 0)"
    by (rule length_filter_update [OF assms(2)])
  show ?thesis
  proof (cases "\<exists>req. drop (length (se_log ?s)) (se_log s') = [HandOver req]")
    case True
    then obtain req where "drop (length (se_log ?s)) (se_log s') = [HandOver req]" by blast
    moreover have "server_ok be handler (handle_websocket req (sv\<lparr>sv_sessions := ?ss\<rparr>))"
      by (rule server_ok_handle_websocket [where ss = "sv_sessions sv"]) (use assms(1) True s'(2) n logs in auto)
    ultimately show ?thesis using assms(2) s'(1) by (simp add: take_over_def)
  next
    case False
    then have "take_over ?s s' sv' = sv'" for sv' by (auto simp: take_over_def split: list.splits session_action.splits)
    moreover have "server_ok be handler (sv\<lparr>sv_sessions := ?ss\<rparr>)"
      using assms(1) False s'(2) n logs by (auto simp: server_ok_def split: if_splits)
    ultimately show ?thesis using assms(2) s'(1) by simp
  qed
qed

lemma check_server_object_Inr:
  "check_server_object kind args n sv = Inr i \<longleftrightarrow>
   lua_arg args n = Some (LRef i) \<and> i < length (sv_objects sv) \<and> kind (fst (sv_objects sv ! i))"
  by (auto simp: check_server_object_def split: option.splits lua_value.splits if_splits)

lemma polite_live:
  "server_polite (LuaMethod n args) sv \<Longrightarrow> lua_arg args 1 = Some (LRef i) \<Longrightarrow> i < length (sv_objects sv) \<Longrightarrow>
   snd (sv_objects sv ! i)"
  by (auto split: prod.splits server_object.splits)

lemma polite_socket:
  assumes "server_ok be handler sv" "server_polite (LuaMethod n args) sv"
    "check_server_object is_websocket args 1 sv = Inr i"
  obtains j where "i < length (sv_objects sv)" "sv_objects sv ! i = (WebsocketBox j, True)"
    "n = 0 \<longrightarrow> \<not> ws_accepting (sv_sockets sv ! j)" "ws_ok (sv_sockets sv ! j)"
proof -
  from assms(3) obtain j b where o: "lua_arg args 1 = Some (LRef i)" "i < length (sv_objects sv)"
    "sv_objects sv ! i = (WebsocketBox j, b)"
    by (cases "sv_objects sv ! i"; cases "fst (sv_objects sv ! i)") (auto simp: check_server_object_Inr)
  with assms(2) that socket_ok [OF assms(1)] server_objects [OF assms(1) o(2)] show thesis by simp
qed

lemma server_ok_gc [inv_intros]:
  assumes "server_ok be handler sv" "i < length (sv_objects sv)"
  shows "server_ok be handler (sv\<lparr>sv_objects := (sv_objects sv)[i := (fst (sv_objects sv ! i), False)]\<rparr>)"
proof -
  have "List.map fst ((sv_objects sv)[i := (fst (sv_objects sv ! i), False)]) = List.map fst (sv_objects sv)"
    using assms(2) by (simp add: map_update list_update_same_conv)
  with assms(1) show ?thesis by (simp add: server_ok_def)
qed

lemmas method_defs = ws_lua_send_def ws_lua_close_def ws_lua_on_recv_def lua_gc_def listener_lua_close_def
  WsM_def WsMT_def ListenerM_def ListenerMT_def server_methods_def

lemma server_ok_listener [inv_intros]: "server_ok be handler sv \<Longrightarrow> li_ok l \<Longrightarrow> server_ok be handler (sv\<lparr>sv_listener := l\<rparr>)"
  by (simp add: server_ok_def)

lemma server_ok_method [inv_intros]:
  assumes ok: "server_ok be handler sv" "server_polite (LuaMethod n args) sv" and n: "n < length (server_methods conv)"
    and r: "snd (server_methods conv ! n) args sv = Inr r"
  shows "\<exists>sv'. r = Some sv' \<and> server_ok be handler sv'"
proof -
  have via: "\<exists>sv'. via_object f i sv = Some sv' \<and> server_ok be handler sv'"
    if "check_server_object is_websocket args 1 sv = Inr i"
      "\<And>w. ws_ok w \<Longrightarrow> n = 0 \<longrightarrow> \<not> ws_accepting w \<Longrightarrow> \<exists>w'. f w = Some w' \<and> ws_ok w'" for f i
    using polite_socket [OF ok that(1)] server_ok_via_object [OF ok(1)] that(2) by metis
  have gc: "\<exists>sv'. r = Some sv' \<and> server_ok be handler sv'" if "lua_gc kind args sv = Inr r" for kind
  proof -
    from that obtain i where i: "lua_arg args 1 = Some (LRef i)" "i < length (sv_objects sv)"
      and r: "r = (if snd (sv_objects sv ! i)
        then Some (sv\<lparr>sv_objects := (sv_objects sv)[i := (fst (sv_objects sv ! i), False)]\<rparr>) else None)"
      by (auto simp: lua_gc_def sbind_Inr check_server_object_Inr)
    with polite_live [OF ok(2) i] server_ok_gc [OF ok(1) i(2)] show ?thesis by simp
  qed
  have "n = 0 \<or> n = 1 \<or> n = 2 \<or> n = 3 \<or> n = 4 \<or> n = 5"
    using n by (simp add: method_defs) linarith
  then show ?thesis
  proof (elim disjE)
    assume "n = 0"
    with r have "ws_lua_send conv args sv = Inr r" by (simp add: method_defs)
    with \<open>n = 0\<close> show ?thesis by (auto simp: ws_lua_send_def sbind_Inr intro!: via inv_intros)
  next
    assume "n = 1"
    with r have "ws_lua_close args sv = Inr r" by (simp add: method_defs)
    then show ?thesis by (auto simp: ws_lua_close_def sbind_Inr intro!: via inv_intros)
  next
    assume "n = 2"
    with r have "ws_lua_on_recv args sv = Inr r" by (simp add: method_defs)
    then show ?thesis by (auto simp: ws_lua_on_recv_def sbind_Inr intro!: via inv_intros)
  next
    assume "n = 4"
    with r have "listener_lua_close args sv = Inr r" by (simp add: method_defs)
    then obtain i where i: "lua_arg args 1 = Some (LRef i)" "i < length (sv_objects sv)"
      and r: "r = (if snd (sv_objects sv ! i) then Some (sv\<lparr>sv_listener := li_close (sv_listener sv)\<rparr>) else None)"
      by (auto simp: listener_lua_close_def sbind_Inr check_server_object_Inr)
    have "li_ok (li_close (sv_listener sv))" using ok(1) li_ok_close by (simp add: server_ok_def)
    with r polite_live [OF ok(2) i] server_ok_listener [OF ok(1)] show ?thesis by simp
  qed (use r gc in \<open>simp_all add: server_methods_def WsM_def WsMT_def ListenerM_def ListenerMT_def\<close>)
qed

lemma server_ok_accepted [inv_intros]:
  assumes "server_ok be handler sv" "a \<in> fst ` set (li_accepting (sv_listener sv))"
    "li_on_accept a ec (sv_listener sv) = (l, new)"
  shows "server_ok be handler (sv\<lparr>sv_listener := l, sv_sessions := sv_sessions sv @ new\<rparr>)"
proof -
  have "li_ok l" using li_ok_accepted [of "sv_listener sv" a ec] assms by (simp add: server_ok_def)
  moreover have "new = [] \<or> new = [se_run]" using assms(3) by (auto simp: li_on_accept_def Let_def split: option.splits)
  moreover have "\<not> upgraded se_run" by (simp add: upgraded_def se_run_def se_do_read_def)
  ultimately show ?thesis using assms(1) log_ok_run by (auto simp: server_ok_def nth_append)
qed

lemma server_progress:
  assumes "server_ok be handler sv" "server_polite e sv" "\<And>k n req. handler k n req \<noteq> None"
  shows "\<exists>sv'. server_step be conv handler e sv = Some sv' \<and> server_ok be handler sv'"
proof (cases e)
  case (LuaMethod n args)
  with assms server_ok_method [OF assms(1) assms(2) [unfolded LuaMethod]] show ?thesis
    by (cases "snd (server_methods conv ! n) args sv") auto
next
  case (Resolved r)
  have "li_ok (sv_listener sv)" using assms(1) by (simp add: server_ok_def)
  with Resolved assms(1) li_ok_resolved [of "sv_listener sv" r] show ?thesis
    by (simp add: server_ok_listener)
next
  case (Accepted a ec)
  with assms server_ok_accepted [OF assms(1), of a ec] show ?thesis
    by (cases "li_on_accept a ec (sv_listener sv)") simp
next
  case (SessionEvent k i)
  with assms server_ok_session [OF assms(1), of k conv i] show ?thesis by (cases "k < length (sv_sessions sv)") simp_all
next
  case (SocketEvent j e)
  with assms show ?thesis by (auto intro: inv_intros ws_machine.progress socket_ok)
qed

text \<open>The requests are answered by Lua: \<open>pcall k n\<close> is the callback in session \<open>k\<close> after \<open>n\<close> actions.\<close>

type_synonym lua_callback = "nat \<Rightarrow> nat \<Rightarrow> lua_value list \<Rightarrow> lua_value + lua_value \<times> lua_value \<times> lua_value"

definition lua_handler :: "beast \<Rightarrow> lua_conv \<Rightarrow> (lua_value \<Rightarrow> string) \<Rightarrow> lua_callback \<Rightarrow> nat \<Rightarrow> http_handler" where
  "lua_handler be conv shw pcall k n req = handle_request be conv shw (pcall k n) req"

definition errors_have_text :: "lua_conv \<Rightarrow> lua_callback \<Rightarrow> bool" where
  "errors_have_text conv pcall \<longleftrightarrow> (\<forall>k n args e. pcall k n args = Inl e \<longrightarrow> lua_tostr conv e \<noteq> None)"

lemma lua_handler_total: "errors_have_text conv pcall \<Longrightarrow> lua_handler be conv shw pcall k n req \<noteq> None"
  by (cases "pcall k n (request_args req)")
    (auto simp: lua_handler_def errors_have_text_def handle_request_def Let_def
      split: option.splits lua_value.splits prod.splits)

definition server_inv :: "beast \<Rightarrow> (nat \<Rightarrow> http_handler) \<Rightarrow> server \<Rightarrow> bool" where
  "server_inv be handler sv \<longleftrightarrow> server_ok be handler sv \<and> (\<forall>k n req. handler k n req \<noteq> None)"

interpretation server_machine: machine "server_step be conv handler" server_polite "server_inv be handler"
  for be conv handler
  by unfold_locales (use server_progress in \<open>fastforce simp: server_inv_def\<close>)

lemma server_inv_start:
  "start_httpd conv args = Inr sv \<Longrightarrow> errors_have_text conv pcall \<Longrightarrow> server_inv be (lua_handler be conv shw pcall) sv"
  by (simp add: server_inv_def server_ok_start lua_handler_total)




definition chat_start :: server where
  "chat_start = \<lparr>sv_listener = li_run ''::'' ''8080'' Listener_new, sv_sessions = [], sv_sockets = [],
     sv_objects = [(ListenerBox, True)], sv_calls = []\<rparr>"

definition no_callback :: lua_callback where
  "no_callback k n args = Inr (LNil, LNil, LNil)"

abbreviation chat_step :: "server_event \<Rightarrow> server \<Rightarrow> server option" where
  "chat_step \<equiv> server_step plain_beast plain_conv (lua_handler plain_beast plain_conv (\<lambda>_. []) no_callback)"

lemma chat_starts: "start_httpd plain_conv [LStr ''::'', LStr ''8080''] = Inr chat_start"
  by (simp add: start_httpd_def check_string_view_def lua_arg_def plain_conv_def chat_start_def)

lemma no_callback_text: "errors_have_text conv no_callback"
  by (simp add: errors_have_text_def no_callback_def)



section \<open>Closing the listener\<close>

text \<open>A closed listener, and the sessions there are or may still come.\<close>

definition li_closed :: "listener \<Rightarrow> bool" where
  "li_closed l \<longleftrightarrow> li_resolving l = None \<and> list_all Not (li_acceptors l)"

definition chances :: "server \<Rightarrow> nat" where
  "chances sv = length (sv_sessions sv) + length (filter snd (li_accepting (sv_listener sv)))"

lemma length_filter_remove:
  "distinct (List.map fst xs) \<Longrightarrow> (a, True) \<in> set xs \<Longrightarrow>
   Suc (length (filter snd (filter (\<lambda>p. fst p \<noteq> a) xs))) = length (filter snd xs)"
proof (induction xs)
  case (Cons x xs)
  show ?case
  proof (cases "fst x = a")
    case True
    with Cons.prems(1) have fresh: "a \<notin> fst ` set xs" by simp
    with Cons.prems(2) True have "x = (a, True)" by (auto simp: rev_image_eqI)
    have "filter (\<lambda>p. fst p \<noteq> a) xs = xs" using fresh by (force simp: filter_id_conv)
    with \<open>x = (a, True)\<close> show ?thesis by simp
  next
    case False
    with Cons show ?thesis by auto
  qed
qed simp

lemma closed_accept:
  assumes "li_ok l" "li_closed l" "ec = None \<longrightarrow> (a, True) \<in> set (li_accepting l)"
    "a \<in> fst ` set (li_accepting l)" "li_on_accept a ec l = (l', new)"
  shows "li_closed l' \<and> length new + length (filter snd (li_accepting l')) \<le> length (filter snd (li_accepting l))"
proof (cases ec)
  case None
  have "a < length (li_acceptors l)" using assms(1,4) by (auto simp: li_ok_def)
  with assms(2) have "\<not> li_acceptors l ! a" by (simp add: li_closed_def list_all_length)
  with None assms length_filter_remove [of "li_accepting l" a] show ?thesis
    by (auto simp: li_on_accept_def do_accept_def li_closed_def li_ok_def Let_def)
next
  case (Some m)
  have "length (filter snd (filter P xs)) \<le> length (filter snd xs)" for P and xs :: "(nat \<times> bool) list"
    by (induction xs) auto
  with Some assms(2,5) show ?thesis by (auto simp: li_on_accept_def li_fail_def li_closed_def Let_def)
qed

lemma via_object_keeps:
  "via_object f i sv = Some sv' \<Longrightarrow> sv_sessions sv' = sv_sessions sv \<and> sv_listener sv' = sv_listener sv"
  by (auto simp: via_object_def at_socket_def split: prod.splits server_object.splits bool.splits)

lemma method_listener:
  "n < length (server_methods conv) \<Longrightarrow> snd (server_methods conv ! n) args sv = Inr (Some sv') \<Longrightarrow>
   sv_sessions sv' = sv_sessions sv \<and> (sv_listener sv' = sv_listener sv \<or> sv_listener sv' = li_close (sv_listener sv))"
  by (auto simp: method_defs nth_Cons sbind_Inr dest: via_object_keeps split: nat.splits if_splits)

lemma take_over_keeps:
  "sv_listener (take_over s s' sv) = sv_listener sv \<and> sv_sessions (take_over s s' sv) = sv_sessions sv"
  by (simp add: take_over_def handle_websocket_def Let_def split: list.split session_action.split)

lemma listener_closed_step:
  assumes "li_ok (sv_listener sv)" "li_closed (sv_listener sv)" "server_polite e sv"
    "server_step be conv handler e sv = Some sv'"
  shows "li_closed (sv_listener sv') \<and> chances sv' \<le> chances sv"
proof (cases e)
  case (LuaMethod n args)
  with assms(4) consider "sv' = sv" | "n < length (server_methods conv)" "snd (server_methods conv ! n) args sv = Inr (Some sv')"
    by (cases "snd (server_methods conv ! n) args sv") (simp_all split: if_splits)
  then show ?thesis
  proof cases
    case 2
    from method_listener [OF this] assms(2) show ?thesis
      by (auto simp: chances_def li_closed_def li_close_def list_all_iff)
  qed (use assms(2) in simp)
next
  case (Resolved r)
  with assms(2,4) show ?thesis by (simp add: li_closed_def)
next
  case (Accepted a ec)
  show ?thesis
  proof (cases "a \<in> fst ` set (li_accepting (sv_listener sv))")
    case True
    obtain l new where l: "li_on_accept a ec (sv_listener sv) = (l, new)" by fastforce
    have "ec = None \<longrightarrow> (a, True) \<in> set (li_accepting (sv_listener sv))" using assms(3) Accepted by auto
    from closed_accept [OF assms(1,2) this True l] assms(4) Accepted True l show ?thesis by (auto simp: chances_def)
  qed (use Accepted assms in simp)
next
  case (SessionEvent k i)
  with assms(2,4) show ?thesis by (auto simp: take_over_keeps chances_def split: if_splits)
next
  case (SocketEvent j e)
  with assms(2,4) show ?thesis by (auto simp: at_socket_def chances_def split: if_splits)
qed

interpretation closed_machine: machine "server_step be conv handler" server_polite
    "\<lambda>sv. server_inv be handler sv \<and> li_closed (sv_listener sv) \<and> chances sv \<le> n" for be conv handler n
proof unfold_locales
  fix sv e
  assume inv: "server_inv be handler sv \<and> li_closed (sv_listener sv) \<and> chances sv \<le> n" and ok: "server_polite e sv"
  from server_machine.progress [of be handler sv e conv] inv ok obtain sv' where
    "server_step be conv handler e sv = Some sv'" "server_inv be handler sv'" by blast
  with listener_closed_step [of sv e be conv handler sv'] inv ok
  show "\<exists>sv'. server_step be conv handler e sv = Some sv' \<and>
      server_inv be handler sv' \<and> li_closed (sv_listener sv') \<and> chances sv' \<le> n"
    by (auto simp: server_inv_def server_ok_def)
qed

text \<open>
  C30: once the listener has resolved its address, closing it lets in at most the connections whose accepts were
  outstanding, whatever happens afterwards, and its acceptors stay closed.  Before, closing does nothing:
  when the address has been resolved the listener accepts as if it had not been closed.
\<close>

theorem close_stops_accepting:
  assumes "start_httpd conv args = Inr sv0" "errors_have_text conv pcall"
    "step = server_step be conv (lua_handler be conv shw pcall)"
    "permitted step server_polite es sv0" "run_steps step es sv0 = Some sv"
    "listener_lua_close [LRef 0] sv = Inr (Some sv1)"
    "permitted step server_polite es' sv1" "run_steps step es' sv1 = Some sv2"
  shows "(li_resolving (sv_listener sv) = None \<longrightarrow>
      length (sv_sessions sv2) \<le> length (sv_sessions sv) + length (li_accepting (sv_listener sv)) \<and>
      list_all Not (li_acceptors (sv_listener sv2))) \<and>
    (li_resolving (sv_listener sv) \<noteq> None \<longrightarrow>
      map_option (\<lambda>sv. li_accepting (sv_listener sv)) (step (Resolved (Inr [Listens])) sv1) = Some [(0, True)])"
proof -
  let ?h = "lua_handler be conv shw pcall"
  from server_machine.run_safe [OF server_inv_start [OF assms(1,2)]] assms(4,5)
  have inv: "server_inv be ?h sv" unfolding assms(3) by fastforce
  have sv1: "sv1 = sv\<lparr>sv_listener := li_close (sv_listener sv)\<rparr>"
    using assms(6) by (auto simp: listener_lua_close_def sbind_Inr split: if_splits)
  have ok: "server_inv be ?h sv1"
    using inv li_ok_close server_ok_listener by (simp add: sv1 server_inv_def server_ok_def)
  have "length (sv_sessions sv2) \<le> length (sv_sessions sv) + length (li_accepting (sv_listener sv)) \<and>
      list_all Not (li_acceptors (sv_listener sv2))" if "li_resolving (sv_listener sv) = None"
  proof -
    have "li_closed (sv_listener sv1)" using that by (simp add: sv1 li_close_def li_closed_def list_all_iff)
    with ok closed_machine.run_safe [of be ?h sv1 "chances sv1"] assms(7,8)
    have "li_closed (sv_listener sv2)" "chances sv2 \<le> chances sv1" unfolding assms(3) by fastforce+
    moreover have "chances sv1 \<le> length (sv_sessions sv) + length (li_accepting (sv_listener sv))"
      by (simp add: chances_def sv1 li_close_def)
    ultimately show ?thesis by (simp add: li_closed_def chances_def)
  qed
  moreover have "map_option (\<lambda>sv. li_accepting (sv_listener sv)) (step (Resolved (Inr [Listens])) sv1) = Some [(0, True)]"
    if "li_resolving (sv_listener sv) \<noteq> None"
  proof -
    from inv that have "li_acceptors (sv_listener sv) = []" "li_accepting (sv_listener sv) = []"
      by (auto simp: server_inv_def server_ok_def li_ok_def)
    with that show ?thesis by (auto simp: assms(3) sv1 li_close_def li_on_resolve_def do_accept_def Let_def)
  qed
  ultimately show ?thesis by blast
qed

lemma close_stops_accepting_witness:
  "\<exists>sv sv1 sv2. run_steps chat_step [Resolved (Inr [Listens]), Accepted 0 None] chat_start = Some sv \<and>
    listener_lua_close [LRef 0] sv = Inr (Some sv1) \<and>
    run_steps chat_step [Accepted 0 None, Accepted 0 (Some ''canceled'')] sv1 = Some sv2 \<and>
    length (sv_sessions sv2) \<le> 2 \<and> list_all Not (li_acceptors (sv_listener sv2))"
proof -
  let ?es = "[Resolved (Inr [Listens]), Accepted 0 None]" and ?es' = "[Accepted 0 None, Accepted 0 (Some ''canceled'')]"
  have "case run_steps chat_step ?es chat_start of None \<Rightarrow> False | Some sv \<Rightarrow>
      li_resolving (sv_listener sv) = None \<and> length (sv_sessions sv) = 1 \<and> length (li_accepting (sv_listener sv)) = 1 \<and>
      (case listener_lua_close [LRef 0] sv of Inl e \<Rightarrow> False | Inr None \<Rightarrow> False | Inr (Some sv1) \<Rightarrow>
         permitted chat_step server_polite ?es' sv1 \<and> run_steps chat_step ?es' sv1 \<noteq> None)"
    by code_simp
  then obtain sv sv1 sv2 where
    run: "run_steps chat_step ?es chat_start = Some sv" "listener_lua_close [LRef 0] sv = Inr (Some sv1)"
      "permitted chat_step server_polite ?es' sv1" "run_steps chat_step ?es' sv1 = Some sv2" and
    sv: "li_resolving (sv_listener sv) = None" "length (sv_sessions sv) = 1" "length (li_accepting (sv_listener sv)) = 1"
    by (auto simp del: run_steps.simps permitted.simps split: option.splits sum.splits)
  have "permitted chat_step server_polite ?es chat_start" by code_simp
  from close_stops_accepting [OF chat_starts no_callback_text refl this run] sv run show ?thesis
    by (auto simp del: run_steps.simps)
qed

end
