(* ===== verification/LuaRegistry.thy ===== *)
theory LuaRegistry
  imports LuaApi "HOL-Library.Multiset" "HOL-Library.AList" Machine
begin

text \<open>
  Who keeps Lua values alive: \<open>client/LuaRef.hpp\<close>.

  The registry is an association list.  Which key \<open>luaL_ref\<close> picks is Lua's business: \<open>alloc\<close> is a
  parameter, and all that is used of it is that a new key is not negative and not in use
  (\<open>fresh_alloc\<close>, from the manual's "unique integer keys").  The C++ objects of class \<open>LuaRef\<close> are
  the positions of a list; a destroyed object is \<open>None\<close>.
\<close>

section \<open>References\<close>

type_synonym registry = "(int \<times> lua_value) list"

definition LUA_NOREF :: int where "LUA_NOREF = - 2"
definition LUA_REFNIL :: int where "LUA_REFNIL = - 1"

definition fresh_alloc :: "(registry \<Rightarrow> int) \<Rightarrow> bool" where
  "fresh_alloc alloc \<longleftrightarrow> (\<forall>r. 0 \<le> alloc r \<and> alloc r \<notin> fst ` set r)"

definition luaL_ref :: "(registry \<Rightarrow> int) \<Rightarrow> lua_value \<Rightarrow> registry \<Rightarrow> int \<times> registry" where
  "luaL_ref alloc v reg = (if v = LNil then (LUA_REFNIL, reg) else (alloc reg, (alloc reg, v) # reg))"

definition luaL_unref :: "int \<Rightarrow> registry \<Rightarrow> registry" where
  "luaL_unref ref reg = (if 0 \<le> ref then filter (\<lambda>p. fst p \<noteq> ref) reg else reg)"

definition lua_rawgeti :: "int \<Rightarrow> registry \<Rightarrow> lua_value" where
  "lua_rawgeti ref reg = (case map_of reg ref of None \<Rightarrow> LNil | Some v \<Rightarrow> v)"

record ref_state =
  rf_registry :: registry
  rf_objects :: "int option list"

definition LuaRef_create :: "(registry \<Rightarrow> int) \<Rightarrow> lua_value \<Rightarrow> ref_state \<Rightarrow> ref_state" where
  "LuaRef_create alloc v s =
     (case luaL_ref alloc v (rf_registry s) of
        (ref, reg) \<Rightarrow> \<lparr>rf_registry = reg, rf_objects = rf_objects s @ [Some ref]\<rparr>)"

definition LuaRef_push :: "nat \<Rightarrow> ref_state \<Rightarrow> lua_value" where
  "LuaRef_push i s =
     (case rf_objects s ! i of None \<Rightarrow> LNil | Some ref \<Rightarrow> lua_rawgeti ref (rf_registry s))"

definition LuaRef_swap :: "nat \<Rightarrow> nat \<Rightarrow> ref_state \<Rightarrow> ref_state" where
  "LuaRef_swap i j s =
     s\<lparr>rf_objects := (rf_objects s)[i := rf_objects s ! j, j := rf_objects s ! i]\<rparr>"

definition LuaRef_copy :: "(registry \<Rightarrow> int) \<Rightarrow> nat \<Rightarrow> ref_state \<Rightarrow> ref_state" where
  "LuaRef_copy alloc i s =
     (if rf_objects s ! i = Some LUA_NOREF then s\<lparr>rf_objects := rf_objects s @ [Some LUA_NOREF]\<rparr>
      else LuaRef_create alloc (LuaRef_push i s) s)"

definition LuaRef_move :: "nat \<Rightarrow> ref_state \<Rightarrow> ref_state" where
  "LuaRef_move i s =
     LuaRef_swap (length (rf_objects s)) i (s\<lparr>rf_objects := rf_objects s @ [Some LUA_NOREF]\<rparr>)"

definition LuaRef_move_assign :: "nat \<Rightarrow> nat \<Rightarrow> ref_state \<Rightarrow> ref_state" where
  "LuaRef_move_assign this value s = LuaRef_swap this value s"

definition LuaRef_destroy :: "nat \<Rightarrow> ref_state \<Rightarrow> ref_state" where
  "LuaRef_destroy i s =
     (case rf_objects s ! i of
        None \<Rightarrow> s
      | Some ref \<Rightarrow>
          \<lparr>rf_registry = (if ref \<noteq> LUA_NOREF then luaL_unref ref (rf_registry s) else rf_registry s),
           rf_objects = (rf_objects s)[i := None]\<rparr>)"

text \<open>\<open>*this = LuaRef{value}\<close>: the temporary is constructed, moved from and destroyed.\<close>

definition LuaRef_copy_assign :: "(registry \<Rightarrow> int) \<Rightarrow> nat \<Rightarrow> nat \<Rightarrow> ref_state \<Rightarrow> ref_state" where
  "LuaRef_copy_assign alloc this value s =
     (if this \<noteq> value then
        (let tmp = length (rf_objects s)
         in LuaRef_destroy tmp (LuaRef_move_assign this tmp (LuaRef_copy alloc value s)))
      else s)"

datatype ref_op =
    RCreate lua_value | RCopy nat | RMove nat | RMoveAssign nat nat | RCopyAssign nat nat | RDestroy nat

text \<open>A program only uses objects that are alive.\<close>

definition alive :: "ref_state \<Rightarrow> nat \<Rightarrow> bool" where
  "alive s i \<longleftrightarrow> i < length (rf_objects s) \<and> rf_objects s ! i \<noteq> None"

fun ref_step :: "(registry \<Rightarrow> int) \<Rightarrow> ref_op \<Rightarrow> ref_state \<Rightarrow> ref_state" where
  "ref_step alloc (RCreate v) s = LuaRef_create alloc v s"
| "ref_step alloc (RCopy i) s = (if alive s i then LuaRef_copy alloc i s else s)"
| "ref_step alloc (RMove i) s = (if alive s i then LuaRef_move i s else s)"
| "ref_step alloc (RMoveAssign i j) s = (if alive s i \<and> alive s j then LuaRef_move_assign i j s else s)"
| "ref_step alloc (RCopyAssign i j) s = (if alive s i \<and> alive s j then LuaRef_copy_assign alloc i j s else s)"
| "ref_step alloc (RDestroy i) s = (if alive s i then LuaRef_destroy i s else s)"

section \<open>Every key has one owner\<close>

definition owned :: "int option list \<Rightarrow> int list" where
  "owned objs = List.map the (filter (\<lambda>x. case x of None \<Rightarrow> False | Some ref \<Rightarrow> 0 \<le> ref) objs)"

definition ref_inv :: "ref_state \<Rightarrow> bool" where
  "ref_inv s \<longleftrightarrow> mset (owned (rf_objects s)) = mset (List.map fst (rf_registry s)) \<and>
     distinct (List.map fst (rf_registry s))"

lemma owned_append [simp]: "owned (xs @ ys) = owned xs @ owned ys"
  by (simp add: owned_def)

lemma owned_simps [simp]: "owned [] = []" "owned [None] = []" "owned (None # xs) = owned xs"
  "owned (Some r # xs) = (if 0 \<le> r then r # owned xs else owned xs)"
  by (simp_all add: owned_def)

lemma owned_perm: "mset xs = mset ys \<Longrightarrow> mset (owned xs) = mset (owned ys)"
  by (simp add: owned_def mset_filter)

lemma ref_inv_create [inv_intros]:
  assumes "fresh_alloc alloc" "ref_inv s"
  shows "ref_inv (LuaRef_create alloc v s)"
proof -
  have a: "0 \<le> alloc (rf_registry s)" "alloc (rf_registry s) \<notin> fst ` set (rf_registry s)"
    using assms(1) unfolding fresh_alloc_def by blast+
  show ?thesis
  proof (cases "v = LNil")
    case True
    with assms(2) show ?thesis
      by (simp add: ref_inv_def LuaRef_create_def luaL_ref_def LUA_REFNIL_def)
  next
    case False
    with assms(2) a show ?thesis
      by (simp add: ref_inv_def LuaRef_create_def luaL_ref_def)
  qed
qed

lemma ref_inv_swap [inv_intros]:
  assumes "i < length (rf_objects s)" "j < length (rf_objects s)" "ref_inv s"
  shows "ref_inv (LuaRef_swap i j s)"
proof -
  have "mset ((rf_objects s)[i := rf_objects s ! j, j := rf_objects s ! i]) = mset (rf_objects s)"
    using mset_swap [OF assms(2,1)] .
  from owned_perm [OF this] assms(3) show ?thesis by (simp add: ref_inv_def LuaRef_swap_def)
qed

lemma ref_inv_noref: "ref_inv s \<Longrightarrow> ref_inv (s\<lparr>rf_objects := rf_objects s @ [Some LUA_NOREF]\<rparr>)"
  by (simp add: ref_inv_def LUA_NOREF_def)

lemma ref_inv_copy [inv_intros]: "fresh_alloc alloc \<Longrightarrow> ref_inv s \<Longrightarrow> ref_inv (LuaRef_copy alloc i s)"
  by (simp add: LuaRef_copy_def ref_inv_noref ref_inv_create)

lemma ref_inv_move [inv_intros]: "i < length (rf_objects s) \<Longrightarrow> ref_inv s \<Longrightarrow> ref_inv (LuaRef_move i s)"
  unfolding LuaRef_move_def by (intro ref_inv_swap ref_inv_noref) simp_all

lemma list_update_none:
  "i < length xs \<Longrightarrow> xs ! i = Some r \<Longrightarrow> 0 \<le> r \<Longrightarrow> mset (owned xs) = add_mset r (mset (owned (xs[i := None])))"
proof (induction xs arbitrary: i)
  case (Cons x xs)
  then show ?case by (cases i) (auto simp: owned_def)
qed simp

lemma list_update_none_neg:
  "i < length xs \<Longrightarrow> xs ! i = Some r \<Longrightarrow> r < 0 \<Longrightarrow> owned (xs[i := None]) = owned xs"
proof (induction xs arbitrary: i)
  case (Cons x xs)
  then show ?case by (cases i) (auto simp: owned_def)
qed simp

lemma filter_key_mset:
  "distinct (List.map fst al) \<Longrightarrow> k \<in> fst ` set al \<Longrightarrow>
   mset (List.map fst al) = add_mset k (mset (List.map fst (filter (\<lambda>p. fst p \<noteq> k) al)))"
proof (induction al)
  case (Cons p al)
  show ?case
  proof (cases "fst p = k")
    case True
    then have "k \<notin> fst ` set al" using Cons.prems(1) by simp
    then have "\<forall>x\<in>set al. fst x \<noteq> k" by auto
    then have "filter (\<lambda>p. fst p \<noteq> k) al = al" by (simp add: filter_True)
    with True show ?thesis by simp
  next
    case False
    with Cons show ?thesis by auto
  qed
qed simp

lemma ref_inv_destroy [inv_intros]:
  assumes "alive s i" "ref_inv s"
  shows "ref_inv (LuaRef_destroy i s)"
proof -
  obtain r where r: "rf_objects s ! i = Some r" "i < length (rf_objects s)"
    using assms(1) by (auto simp: alive_def)
  show ?thesis
  proof (cases "0 \<le> r")
    case True
    note o = list_update_none [OF r(2,1) True]
    have "r \<in># mset (owned (rf_objects s))" unfolding o by simp
    moreover have "set (owned (rf_objects s)) = set (List.map fst (rf_registry s))"
      using assms(2) mset_eq_setD unfolding ref_inv_def by blast
    ultimately have k: "r \<in> fst ` set (rf_registry s)" by (metis list.set_map set_mset_mset)
    have "distinct (List.map fst (rf_registry s))" using assms(2) by (simp add: ref_inv_def)
    from filter_key_mset [OF this k] o assms(2) show ?thesis
      using r True by (auto simp: ref_inv_def LuaRef_destroy_def luaL_unref_def LUA_NOREF_def distinct_map_filter)
  next
    case False
    with assms(2) r show ?thesis
      using list_update_none_neg [OF r(2,1)]
      by (auto simp: ref_inv_def LuaRef_destroy_def luaL_unref_def)
  qed
qed

lemma length_copy: "length (rf_objects (LuaRef_copy alloc i s)) = Suc (length (rf_objects s))"
  by (simp add: LuaRef_copy_def LuaRef_create_def split: prod.splits)

lemma copy_last: "rf_objects (LuaRef_copy alloc i s) ! length (rf_objects s) \<noteq> None"
  by (simp add: LuaRef_copy_def LuaRef_create_def split: prod.splits)

lemma copy_nth: "k < length (rf_objects s) \<Longrightarrow> rf_objects (LuaRef_copy alloc i s) ! k = rf_objects s ! k"
  by (auto simp: LuaRef_copy_def LuaRef_create_def nth_append split: prod.splits)

lemma ref_inv_copy_assign [inv_intros]:
  assumes "fresh_alloc alloc" "alive s i" "alive s j" "ref_inv s"
  shows "ref_inv (LuaRef_copy_assign alloc i j s)"
proof -
  let ?c = "LuaRef_copy alloc j s" and ?t = "length (rf_objects s)"
  have len: "i < length (rf_objects ?c)" "?t < length (rf_objects ?c)"
    using assms(2) by (auto simp: length_copy alive_def)
  have "ref_inv (LuaRef_swap i ?t ?c)"
    by (intro ref_inv_swap ref_inv_copy len assms)
  moreover have "alive (LuaRef_swap i ?t ?c) ?t"
    using len assms(2) copy_nth [of i s alloc j] by (auto simp: alive_def LuaRef_swap_def)
  ultimately show ?thesis
    using assms(4) ref_inv_destroy by (simp add: LuaRef_copy_assign_def LuaRef_move_assign_def Let_def)
qed

lemma ref_inv_step: "fresh_alloc alloc \<Longrightarrow> ref_inv s \<Longrightarrow> ref_inv (ref_step alloc op s)"
  by (cases op) (auto intro: inv_intros simp: LuaRef_move_assign_def alive_def)

interpretation ref_machine: total_machine "ref_step alloc" "\<lambda>_. True" "\<lambda>s. fresh_alloc alloc \<and> ref_inv s" for alloc
  by unfold_locales (use ref_inv_step in blast)

lemma ref_inv_run: "fresh_alloc alloc \<Longrightarrow> ref_inv s \<Longrightarrow> ref_inv (fold (ref_step alloc) ops s)"
  using ref_machine.fold_inv [of alloc s ops] by (simp add: list_all_iff)

definition ref_start :: ref_state where
  "ref_start = \<lparr>rf_registry = [], rf_objects = []\<rparr>"

text \<open>
  C17: however references are created, copied, moved, assigned and destroyed, each registry key in use
  belongs to exactly one object and each key an object holds is in use: nothing is released twice or
  used after its release, and once every object is destroyed the registry is empty again.
\<close>

theorem registry_keys_owned_once:
  assumes "fresh_alloc alloc"
  shows "let s = fold (ref_step alloc) ops ref_start
    in distinct (owned (rf_objects s)) \<and> set (owned (rf_objects s)) = fst ` set (rf_registry s) \<and>
       (list_all (\<lambda>x. x = None) (rf_objects s) \<longrightarrow> rf_registry s = [])"
proof -
  have "ref_inv ref_start" by (simp add: ref_inv_def ref_start_def)
  then have inv: "ref_inv (fold (ref_step alloc) ops ref_start)" (is "ref_inv ?s")
    by (rule ref_inv_run [OF assms])
  then have "distinct (owned (rf_objects ?s))" "set (owned (rf_objects ?s)) = fst ` set (rf_registry ?s)"
    unfolding ref_inv_def by (metis mset_eq_imp_distinct_iff) (metis inv ref_inv_def list.set_map mset_eq_setD)
  moreover have "list_all (\<lambda>x. x = None) xs \<Longrightarrow> owned xs = []" for xs by (induction xs) auto
  ultimately show ?thesis using inv by (auto simp: Let_def)
qed

lemma registry_keys_owned_once_witness:
  "let alloc = (\<lambda>r. Max (insert 0 ((\<lambda>p. fst p + 1) ` set r)));
       s = fold (ref_step alloc) [RCreate (LStr ''f''), RCopy 0, RMove 0, RDestroy 1] ref_start
   in distinct (owned (rf_objects s)) \<and> set (owned (rf_objects s)) = fst ` set (rf_registry s)"
proof -
  have "fresh_alloc (\<lambda>r. Max (insert 0 ((\<lambda>p. fst p + 1) ` set r)))"
  proof -
    have "fst p + 1 \<le> Max (insert 0 ((\<lambda>p. fst p + 1) ` set r))" if "p \<in> set r" for p and r :: registry
      using that by (intro Max_ge) auto
    moreover have "0 \<le> Max (insert 0 ((\<lambda>p. fst p + 1) ` set r))" for r :: registry
      by (intro Max_ge) auto
    ultimately show ?thesis unfolding fresh_alloc_def by fastforce
  qed
  from registry_keys_owned_once [OF this, of "[RCreate (LStr ''f''), RCopy 0, RMove 0, RDestroy 1]"]
  show ?thesis unfolding Let_def by blast
qed

end
