(* ===== verification/Callbacks.thy ===== *)
theory Callbacks
  imports LuaApi
begin

text \<open>
  Callbacks kept in the registry under an address: \<open>client/timer.cpp\<close> and \<open>client/dnslookup.cpp\<close>.

  A steady timer of the I/O library is armed, or not, and has completion handlers waiting to be run;
  as its documentation says, cancelling or re-arming aborts a wait that has not expired, and does not
  call back the handler of one that has.  The handlers run one at a time, in order.
\<close>

section \<open>Timers\<close>

text \<open>
  \<open>tm_slot\<close> is the registry entry of the timer, \<open>tm_queue\<close> the handlers ready to run (\<open>True\<close> for
  \<open>operation_aborted\<close>), \<open>tm_calls\<close> the values passed to \<open>safecall\<close> as the function.
\<close>

record timer =
  tm_slot :: lua_value
  tm_armed :: bool
  tm_queue :: "bool list"
  tm_calls :: "lua_value list"

definition timer_new :: timer where
  "timer_new = \<lparr>tm_slot = LNil, tm_armed = False, tm_queue = [], tm_calls = []\<rparr>"

definition abort_wait :: "timer \<Rightarrow> timer" where
  "abort_wait t =
     (if tm_armed t then t\<lparr>tm_armed := False, tm_queue := tm_queue t @ [True]\<rparr> else t)"

text \<open>The \<open>start\<close> method, with its argument checks: delay, then any callback value.\<close>

definition timer_start :: "lua_conv \<Rightarrow> lua_value list \<Rightarrow> timer \<Rightarrow> lua_error + timer" where
  "timer_start conv args t =
     sbind (checkinteger conv args 2) (\<lambda>start.
     sbind (checkany args 3) (\<lambda>_.
       (let t = t\<lparr>tm_slot := the (lua_arg args 3)\<rparr>;
            t = abort_wait t
        in Inr (t\<lparr>tm_armed := True\<rparr>))))"

definition timer_handler :: "bool \<Rightarrow> timer \<Rightarrow> timer" where
  "timer_handler error t =
     (if \<not> error then
        (let cb = tm_slot t in t\<lparr>tm_slot := LNil, tm_calls := tm_calls t @ [cb]\<rparr>)
      else t)"

definition timer_cancel :: "timer \<Rightarrow> timer" where
  "timer_cancel t = (abort_wait t)\<lparr>tm_slot := LNil\<rparr>"

definition timer_gc :: "timer \<Rightarrow> timer" where
  "timer_gc t = (abort_wait t)\<lparr>tm_slot := LNil\<rparr>"

definition timer_expire :: "timer \<Rightarrow> timer" where
  "timer_expire t =
     (if tm_armed t then t\<lparr>tm_armed := False, tm_queue := tm_queue t @ [False]\<rparr> else t)"

definition timer_dispatch :: "timer \<Rightarrow> timer" where
  "timer_dispatch t =
     (case tm_queue t of [] \<Rightarrow> t | e # q \<Rightarrow> timer_handler e (t\<lparr>tm_queue := q\<rparr>))"

datatype timer_event = TStart lua_value | TCancel | TExpire | TDispatch

fun timer_step :: "timer_event \<Rightarrow> timer \<Rightarrow> timer" where
  "timer_step (TStart cb) t =
     (case timer_start plain_conv [LRef 0, LInt 1, cb] t of Inl _ \<Rightarrow> t | Inr t \<Rightarrow> t)"
| "timer_step TCancel t = timer_cancel t"
| "timer_step TExpire t = timer_expire t"
| "timer_step TDispatch t = timer_dispatch t"

lemma timer_step_start: "timer_step (TStart cb) t = (abort_wait (t\<lparr>tm_slot := cb\<rparr>))\<lparr>tm_armed := True\<rparr>"
  by (simp add: timer_start_def checkinteger_def checkany_def lua_arg_def plain_conv_def Let_def)

text \<open>
  An orderly program never starts or cancels the timer between its expiry and the run of its handler,
  and only starts it with a function.
\<close>

fun orderly :: "timer_event list \<Rightarrow> timer \<Rightarrow> bool" where
  "orderly [] t = True"
| "orderly (e # es) t =
     ((case e of TStart cb \<Rightarrow> False \<notin> set (tm_queue t) \<and> cb \<noteq> LNil | TCancel \<Rightarrow> False \<notin> set (tm_queue t) | _ \<Rightarrow> True) \<and>
      orderly es (timer_step e t))"

definition timer_inv :: "timer \<Rightarrow> bool" where
  "timer_inv t \<longleftrightarrow>
     LNil \<notin> set (tm_calls t) \<and>
     (tm_slot t \<noteq> LNil \<longleftrightarrow> tm_armed t \<or> False \<in> set (tm_queue t)) \<and>
     (tm_armed t \<longrightarrow> False \<notin> set (tm_queue t)) \<and> count_list (tm_queue t) False \<le> 1"

lemma timer_inv_step:
  assumes "timer_inv t" "orderly [e] t"
  shows "timer_inv (timer_step e t)"
proof (cases e)
  case (TStart cb)
  with assms show ?thesis
    by (auto simp: timer_step_start timer_inv_def abort_wait_def simp del: timer_step.simps)
next
  case TCancel
  with assms show ?thesis by (auto simp: timer_inv_def timer_cancel_def abort_wait_def)
next
  case TExpire
  with assms show ?thesis by (auto simp: timer_inv_def timer_expire_def)
next
  case TDispatch
  show ?thesis
  proof (cases "tm_queue t")
    case Nil
    with assms TDispatch show ?thesis by (simp add: timer_dispatch_def)
  next
    case (Cons err q)
    have "err \<or> False \<notin> set q" using assms(1) Cons
      by (cases err) (auto simp: timer_inv_def count_list_0_iff)
    with assms TDispatch Cons show ?thesis
      by (cases err) (auto simp: timer_inv_def timer_dispatch_def timer_handler_def Let_def)
  qed
qed

lemma timer_inv_run: "timer_inv t \<Longrightarrow> orderly es t \<Longrightarrow> timer_inv (fold timer_step es t)"
proof (induction es arbitrary: t)
  case (Cons e es)
  then have "orderly [e] t" "orderly es (timer_step e t)" by simp_all
  with Cons.IH [OF timer_inv_step [OF Cons.prems(1)]] show ?case by simp
qed simp

text \<open>
  What a timer is for, without queues, handlers and registry: the functions that are due in the course of
  the events, where \<open>f\<close> is the function of the wait that is on.  A start replaces it, a cancellation
  drops it, and an expiry makes it due.
\<close>

fun due :: "timer_event list \<Rightarrow> lua_value option \<Rightarrow> lua_value list" where
  "due [] f = []"
| "due (TStart cb # es) f = due es (Some cb)"
| "due (TCancel # es) f = due es None"
| "due (TExpire # es) None = due es None"
| "due (TExpire # es) (Some cb) = cb # due es None"
| "due (TDispatch # es) f = due es f"

definition waiting_call :: "timer \<Rightarrow> lua_value list" where
  "waiting_call t = (if False \<in> set (tm_queue t) then [tm_slot t] else [])"

lemma due_step:
  assumes "timer_inv t" "orderly [e] t"
  shows "tm_calls (timer_step e t) @ waiting_call (timer_step e t) @
      due es (if tm_armed (timer_step e t) then Some (tm_slot (timer_step e t)) else None) =
    tm_calls t @ waiting_call t @ due (e # es) (if tm_armed t then Some (tm_slot t) else None)"
proof (cases e)
  case (TStart cb)
  with assms show ?thesis by (simp add: timer_step_start waiting_call_def abort_wait_def del: timer_step.simps)
next
  case TCancel
  with assms show ?thesis by (simp add: timer_cancel_def waiting_call_def abort_wait_def)
next
  case TExpire
  with assms show ?thesis by (simp add: timer_expire_def waiting_call_def timer_inv_def)
next
  case TDispatch
  show ?thesis
  proof (cases "tm_queue t")
    case Nil
    with TDispatch show ?thesis by (simp add: timer_dispatch_def)
  next
    case (Cons err q)
    have "err \<or> False \<notin> set q \<and> \<not> tm_armed t" using assms(1) Cons
      by (cases err) (auto simp: timer_inv_def count_list_0_iff)
    with TDispatch Cons show ?thesis
      by (cases err) (simp_all add: timer_dispatch_def timer_handler_def waiting_call_def Let_def)
  qed
qed

lemma due_run:
  "timer_inv t \<Longrightarrow> orderly es t \<Longrightarrow>
   tm_calls (fold timer_step es t) @ waiting_call (fold timer_step es t) =
     tm_calls t @ waiting_call t @ due es (if tm_armed t then Some (tm_slot t) else None)"
proof (induction es arbitrary: t)
  case (Cons e es)
  then have o: "orderly [e] t" "orderly es (timer_step e t)" by simp_all
  from Cons.IH [OF timer_inv_step [OF Cons.prems(1) o(1)] o(2)] due_step [OF Cons.prems(1) o(1), of es]
  show ?case by simp
qed simp

text \<open>
  C28: in an orderly program the functions a timer has called, and the one whose handler is still waiting
  to run, are exactly those that were due, in that order: at every expiry the function the timer was
  last started with, unless that was cancelled.  So a restart replaces the function, nil is never called,
  a function is called at most once per start, and it is forgotten once it has been called.
\<close>

theorem timer_calls_only_callbacks:
  assumes "orderly es timer_new"
  shows "let t = fold timer_step es timer_new in
    tm_calls t @ (if False \<in> set (tm_queue t) then [tm_slot t] else []) = due es None \<and>
    LNil \<notin> set (tm_calls t) \<and> (tm_slot t \<noteq> LNil \<longleftrightarrow> tm_armed t \<or> False \<in> set (tm_queue t)) \<and>
    set (tm_calls t) \<subseteq> {cb. TStart cb \<in> set es} \<and>
    length (tm_calls t) \<le> length (filter (\<lambda>e. \<exists>cb. e = TStart cb) es)"
proof -
  define n where "n t = length (tm_calls t) + (if tm_slot t \<noteq> LNil then 1 else 0)" for t :: timer
  have step: "n (timer_step e t) \<le> n t + (if \<exists>cb. e = TStart cb then 1 else 0)" if "orderly [e] t" "timer_inv t" for e t
    using that
    by (cases e; cases "tm_queue t")
      (auto simp: n_def timer_step_start timer_cancel_def timer_expire_def timer_dispatch_def timer_handler_def
        abort_wait_def timer_inv_def Let_def simp del: timer_step.simps(1) split: if_splits)
  have count: "timer_inv t \<Longrightarrow> orderly es t \<Longrightarrow>
      n (fold timer_step es t) \<le> n t + length (filter (\<lambda>e. \<exists>cb. e = TStart cb) es)" for t es
  proof (induction es arbitrary: t)
    case (Cons e es)
    then have o: "orderly [e] t" by simp
    from Cons.IH [OF timer_inv_step [OF Cons.prems(1) o]] Cons.prems(2) step [OF o Cons.prems(1)]
    show ?case by (auto simp del: timer_step.simps split: if_splits)
  qed simp
  have slots: "set (tm_calls (fold timer_step es t)) \<subseteq> set (tm_calls t) \<union> {tm_slot t, LNil} \<union> {cb. TStart cb \<in> set es} \<and>
      tm_slot (fold timer_step es t) \<in> {tm_slot t, LNil} \<union> {cb. TStart cb \<in> set es}" for t es
  proof (induction es arbitrary: t)
    case (Cons e es)
    have "set (tm_calls (timer_step e t)) \<subseteq> set (tm_calls t) \<union> {tm_slot t, LNil}"
      "tm_slot (timer_step e t) \<in> {tm_slot t, LNil} \<union> {cb. e = TStart cb}"
      by (cases e; cases "tm_queue t";
          auto simp: timer_step_start timer_cancel_def timer_expire_def timer_dispatch_def timer_handler_def
            abort_wait_def Let_def simp del: timer_step.simps(1))+
    with Cons.IH [of "timer_step e t"] show ?case by (auto simp del: timer_step.simps)
  qed auto
  have inv: "timer_inv timer_new" by (simp add: timer_inv_def timer_new_def)
  have "tm_calls (fold timer_step es timer_new) @ waiting_call (fold timer_step es timer_new) = due es None"
    using due_run [OF inv assms] by (simp add: timer_new_def waiting_call_def)
  with timer_inv_run [OF inv assms] count [OF inv assms] slots [of es timer_new] show ?thesis
    unfolding Let_def timer_inv_def n_def waiting_call_def by (auto simp: timer_new_def)
qed

lemma timer_calls_only_callbacks_witness:
  "tm_calls (fold timer_step [TStart (LRef 7), TStart (LRef 8), TDispatch, TExpire, TDispatch] timer_new) = [LRef 8]"
proof -
  let ?es = "[TStart (LRef 7), TStart (LRef 8), TDispatch, TExpire, TDispatch]"
  have "orderly ?es timer_new" "tm_queue (fold timer_step ?es timer_new) = []"
    by (simp_all add: timer_step_start timer_new_def abort_wait_def timer_expire_def timer_dispatch_def
        timer_handler_def del: timer_step.simps(1))
  with timer_calls_only_callbacks [of ?es] show ?thesis by (simp add: Let_def del: fold.simps timer_step.simps)
qed

text \<open>
  cancelling a timer whose wait has already expired does not stop its handler, which then calls
  nil; starting it again in that window makes the pending handler call the new callback at once, and
  the new wait calls nil when it expires.
\<close>

theorem cancel_after_expiry_calls_nil:
  "tm_calls (fold timer_step [TStart f, TExpire, TCancel, TDispatch] timer_new) = [LNil] \<and>
   tm_calls (fold timer_step [TStart f, TExpire, TStart g, TDispatch, TExpire, TDispatch] timer_new) = [g, LNil]"
  by (simp add: timer_step_start timer_new_def abort_wait_def timer_expire_def timer_cancel_def
      timer_dispatch_def timer_handler_def Let_def del: timer_step.simps(1))

section \<open>Host name lookup\<close>

text \<open>
  A lookup stores its callback under the address of its resolver; the handler takes it out and calls
  it with an error message, or with nil and the addresses.
\<close>

record lookup =
  lk_slot :: lua_value
  lk_pending :: bool
  lk_calls :: "(lua_value \<times> lua_value list) list"

definition l_dnslookup :: "lua_conv \<Rightarrow> lua_value list \<Rightarrow> lua_error + string \<times> lookup" where
  "l_dnslookup conv args =
     sbind (check_string_view conv args 1) (\<lambda>hostname.
     sbind (checkany args 2) (\<lambda>_.
       Inr (hostname, \<lparr>lk_slot = the (lua_arg args 2), lk_pending = True, lk_calls = []\<rparr>)))"

definition lookup_args :: "string + string list \<Rightarrow> lua_value list" where
  "lookup_args r = (case r of Inl message \<Rightarrow> [LStr message] | Inr results \<Rightarrow> LNil # List.map LStr results)"

definition lookup_done :: "string + string list \<Rightarrow> lookup \<Rightarrow> lookup" where
  "lookup_done r k =
     \<lparr>lk_slot = LNil, lk_pending = False, lk_calls = lk_calls k @ [(lk_slot k, lookup_args r)]\<rparr>"

text \<open>
  an accepted lookup calls the function it was given exactly once, with one error message or with
  nil and every address in the order of the results, and then no longer holds on to it.
\<close>

theorem lookup_calls_back_once:
  assumes "l_dnslookup conv args = Inr (hostname, k)"
  shows "\<exists>cb. lua_arg args 2 = Some cb \<and> lk_pending k \<and> lk_calls k = [] \<and>
    lk_calls (lookup_done r k) = [(cb, lookup_args r)] \<and> lk_slot (lookup_done r k) = LNil \<and>
    \<not> lk_pending (lookup_done r k)"
  using assms
  by (cases "lua_arg args 2") (auto simp: l_dnslookup_def sbind_Inr checkany_def lookup_done_def)

lemma lookup_calls_back_once_witness:
  "\<exists>k. l_dnslookup plain_conv [LStr ''example.org'', LRef 3] = Inr (''example.org'', k) \<and>
     lk_calls (lookup_done (Inr [''192.0.2.1'']) k) = [(LRef 3, [LNil, LStr ''192.0.2.1''])]"
proof -
  have "\<exists>k. l_dnslookup plain_conv [LStr ''example.org'', LRef 3] = Inr (''example.org'', k)"
    by (simp add: l_dnslookup_def check_string_view_def checkany_def lua_arg_def plain_conv_def)
  then obtain k where k: "l_dnslookup plain_conv [LStr ''example.org'', LRef 3] = Inr (''example.org'', k)" ..
  from lookup_calls_back_once [OF k, of "Inr [''192.0.2.1'']"] k show ?thesis
    by (auto simp: lua_arg_def lookup_args_def)
qed

end
