(* ===== verification/Process.thy ===== *)
theory Process
  imports LuaApi LuaRegistry
begin

text \<open>
  \<open>client/process.cpp\<close>: running a program and collecting its output.

  The composed operation starts three or four asynchronous operations whose completions arrive in
  any order; the counter \<open>ex_stage\<close> decides which of them calls the handler.  \<open>ex_handler\<close> lists the
  calls of the handler.
\<close>

section \<open>The composed operation\<close>

datatype exec_op = WriteStdin | ReadStdout | ReadStderr | WaitExit

type_synonym exec_result = "string option \<times> int \<times> string \<times> string"

record exec =
  ex_stage :: int
  ex_exit_code :: int
  ex_stdin_open :: bool
  ex_stdout_text :: string
  ex_stderr_text :: string
  ex_error :: "string option"
  ex_pending :: "exec_op list"
  ex_handler :: "exec_result list"

text \<open>\<open>exit_code_\<close> is not initialised; \<open>junk\<close> is what it holds.\<close>

definition Exec_new :: "int \<Rightarrow> string option \<Rightarrow> exec" where
  "Exec_new junk input =
     \<lparr>ex_stage = (if input \<noteq> None then 4 else 3), ex_exit_code = junk, ex_stdin_open = True,
      ex_stdout_text = [], ex_stderr_text = [], ex_error = None, ex_pending = [], ex_handler = []\<rparr>"

definition exec_complete :: "exec \<Rightarrow> exec" where
  "exec_complete x =
     (let x = x\<lparr>ex_stage := ex_stage x - 1\<rparr>
      in if ex_stage x = 0
         then x\<lparr>ex_handler := ex_handler x @ [(ex_error x, ex_exit_code x, ex_stdout_text x, ex_stderr_text x)]\<rparr>
         else x)"

text \<open>
  \<open>initiation\<close>: \<open>find_exe\<close> is the search for an executable without a path, \<open>spawn\<close> the constructor of the
  process, which may throw.
\<close>

definition has_parent_path :: "string \<Rightarrow> bool" where
  "has_parent_path file \<longleftrightarrow> CHR ''/'' \<in> set file"

definition initiation ::
  "(string \<Rightarrow> string) \<Rightarrow> (string \<Rightarrow> string list \<Rightarrow> string option) \<Rightarrow> int \<Rightarrow>
   string \<Rightarrow> string list \<Rightarrow> string option \<Rightarrow> exec" where
  "initiation find_exe spawn junk file args input =
     (let has_input = (input \<noteq> None);
          self = Exec_new junk input;
          file = (if \<not> has_parent_path file then find_exe file else file)
      in case spawn file args of
           Some e \<Rightarrow> exec_complete (self\<lparr>ex_error := Some e, ex_stage := 1\<rparr>)
         | None \<Rightarrow> self\<lparr>ex_pending :=
             (if has_input then [WriteStdin] else []) @ [ReadStdout, ReadStderr, WaitExit]\<rparr>)"

text \<open>A completion, with what the operation delivers: the text read, or the error and exit code.\<close>

datatype exec_done = StdinWritten | StdoutRead string | StderrRead string | Exited "string option" int

fun op_of :: "exec_done \<Rightarrow> exec_op" where
  "op_of StdinWritten = WriteStdin"
| "op_of (StdoutRead _) = ReadStdout"
| "op_of (StderrRead _) = ReadStderr"
| "op_of (Exited _ _) = WaitExit"

fun exec_effect :: "exec_done \<Rightarrow> exec \<Rightarrow> exec" where
  "exec_effect StdinWritten x = x\<lparr>ex_stdin_open := False\<rparr>"
| "exec_effect (StdoutRead s) x = x\<lparr>ex_stdout_text := s\<rparr>"
| "exec_effect (StderrRead s) x = x\<lparr>ex_stderr_text := s\<rparr>"
| "exec_effect (Exited err code) x = x\<lparr>ex_error := err, ex_exit_code := code\<rparr>"

definition exec_step :: "exec_done \<Rightarrow> exec \<Rightarrow> exec" where
  "exec_step d x =
     (if op_of d \<in> set (ex_pending x)
      then exec_complete (exec_effect d (x\<lparr>ex_pending := remove1 (op_of d) (ex_pending x)\<rparr>))
      else x)"

text \<open>The stage counts the operations outstanding until the handler has been called.\<close>

definition exec_inv :: "exec \<Rightarrow> bool" where
  "exec_inv x \<longleftrightarrow> distinct (ex_pending x) \<and> ex_stage x = int (length (ex_pending x)) \<and>
     (ex_handler x = [] \<longleftrightarrow> ex_pending x \<noteq> []) \<and> length (ex_handler x) \<le> 1"

lemma effect_fields [simp]:
  "ex_pending (exec_effect d x) = ex_pending x" "ex_stage (exec_effect d x) = ex_stage x"
  "ex_handler (exec_effect d x) = ex_handler x"
  by (cases d; simp)+

lemma exec_inv_step: "exec_inv x \<Longrightarrow> exec_inv (exec_step d x)"
proof -
  assume inv: "exec_inv x"
  show ?thesis
  proof (cases "op_of d \<in> set (ex_pending x)")
    case True
    then obtain n where n: "length (ex_pending x) = Suc n" by (cases "ex_pending x") auto
    have "length (remove1 (op_of d) (ex_pending x)) = n" using True n by (simp add: length_remove1)
    moreover have "ex_handler x = []" using inv True by (auto simp: exec_inv_def)
    ultimately show ?thesis using inv True n
      by (auto simp: exec_inv_def exec_step_def exec_complete_def Let_def)
  qed (use inv in \<open>simp add: exec_step_def\<close>)
qed

lemma exec_inv_initiation: "exec_inv (initiation find_exe spawn junk file args input)"
  by (auto simp: exec_inv_def initiation_def Exec_new_def exec_complete_def Let_def split: option.splits)

lemma exec_pending_run:
  "set (ex_pending (fold exec_step ds x)) = set (ex_pending x) - op_of ` set ds" if "exec_inv x"
  using that
proof (induction ds arbitrary: x)
  case (Cons d ds)
  have "set (ex_pending (exec_step d x)) = set (ex_pending x) - {op_of d}"
    using Cons.prems by (auto simp: exec_step_def exec_complete_def exec_inv_def Let_def)
  with Cons.IH [OF exec_inv_step [OF Cons.prems]] show ?case by auto
qed simp

interpretation exec_machine: total_machine exec_step "\<lambda>_. True" exec_inv
  by unfold_locales (rule exec_inv_step)

text \<open>
  C19: in whatever order the operations complete, the handler is called exactly once, as soon as all of
  them have completed and not before; a program that cannot be started is reported at once.
\<close>

theorem exec_calls_handler_once:
  "let x0 = initiation find_exe spawn junk file args input; x = fold exec_step ds x0
   in length (ex_handler x) = (if set (ex_pending x0) \<subseteq> op_of ` set ds then 1 else 0)"
proof -
  let ?x0 = "initiation find_exe spawn junk file args input"
  have "exec_inv (fold exec_step ds ?x0)"
    by (rule exec_machine.fold_inv [OF exec_inv_initiation]) (simp add: list_all_iff)
  moreover have "set (ex_pending (fold exec_step ds ?x0)) = set (ex_pending ?x0) - op_of ` set ds"
    by (rule exec_pending_run [OF exec_inv_initiation])
  then have "ex_pending (fold exec_step ds ?x0) = [] \<longleftrightarrow> set (ex_pending ?x0) \<subseteq> op_of ` set ds"
    by (metis Diff_eq_empty_iff set_empty)
  ultimately show ?thesis by (auto simp: exec_inv_def Let_def le_Suc_eq)
qed

text \<open>What has been delivered so far is in its place, and the handler was only given all of it.\<close>

definition exec_good :: "string \<Rightarrow> string \<Rightarrow> string option \<Rightarrow> int \<Rightarrow> exec \<Rightarrow> bool" where
  "exec_good out err e code x \<longleftrightarrow>
     (ReadStdout \<notin> set (ex_pending x) \<longrightarrow> ex_stdout_text x = out) \<and>
     (ReadStderr \<notin> set (ex_pending x) \<longrightarrow> ex_stderr_text x = err) \<and>
     (WaitExit \<notin> set (ex_pending x) \<longrightarrow> ex_error x = e \<and> ex_exit_code x = code) \<and>
     (\<forall>r \<in> set (ex_handler x). r = (e, code, out, err)) \<and> exec_inv x"

fun delivers :: "string \<Rightarrow> string \<Rightarrow> string option \<Rightarrow> int \<Rightarrow> exec_done \<Rightarrow> bool" where
  "delivers out err e code StdinWritten = True"
| "delivers out err e code (StdoutRead s) = (s = out)"
| "delivers out err e code (StderrRead s) = (s = err)"
| "delivers out err e code (Exited e' c) = (e' = e \<and> c = code)"

lemma exec_good_step:
  assumes "exec_good out err e code x" "delivers out err e code d"
  shows "exec_good out err e code (exec_step d x)"
proof (cases "op_of d \<in> set (ex_pending x)")
  case True
  let ?p = "remove1 (op_of d) (ex_pending x)"
  have inv: "exec_inv x" "exec_inv (exec_step d x)"
    using assms(1) exec_inv_step by (simp_all add: exec_good_def)
  then have "ex_stage x - 1 = 0 \<longleftrightarrow> ?p = []"
    using True by (cases "ex_pending x") (auto simp: exec_inv_def length_remove1)
  moreover have "set ?p = set (ex_pending x) - {op_of d}" using inv(1) by (simp add: exec_inv_def)
  ultimately show ?thesis using assms True inv(2)
    by (cases d) (auto simp: exec_good_def exec_step_def exec_complete_def Let_def)
qed (use assms in \<open>simp add: exec_step_def\<close>)

interpretation result_machine: total_machine exec_step "delivers out err e code" "exec_good out err e code"
  for out err e code
  by unfold_locales (rule exec_good_step)

text \<open>
  C20: the handler of a program that ran gets the exit status and both output texts in full, whichever
  of the completions came last.
\<close>

theorem exec_result_complete:
  assumes "spawn (if \<not> has_parent_path file then find_exe file else file) args = None"
    and "mset ds = mset ([StdoutRead out, StderrRead err, Exited e code] @ (if input \<noteq> None then [StdinWritten] else []))"
  shows "ex_handler (fold exec_step ds (initiation find_exe spawn junk file args input)) = [(e, code, out, err)]"
proof -
  let ?x0 = "initiation find_exe spawn junk file args input"
  have dset: "set ds = {StdoutRead out, StderrRead err, Exited e code} \<union> (if input \<noteq> None then {StdinWritten} else {})"
    using mset_eq_setD [OF assms(2)] by auto
  have "exec_inv ?x0" by (rule exec_inv_initiation)
  with assms(1) have "exec_good out err e code ?x0"
    by (auto simp: exec_good_def initiation_def Exec_new_def Let_def)
  moreover have "list_all (delivers out err e code) ds" using dset by (auto simp: list_all_iff)
  ultimately have good: "exec_good out err e code (fold exec_step ds ?x0)" by (rule result_machine.fold_inv)
  have "set (ex_pending ?x0) \<subseteq> op_of ` set ds"
    using assms(1) unfolding dset by (auto simp: initiation_def Exec_new_def Let_def)
  then have "set (ex_pending (fold exec_step ds ?x0)) = {}"
    using exec_pending_run [OF exec_inv_initiation] by (metis Diff_eq_empty_iff)
  with good show ?thesis
    by (cases "ex_handler (fold exec_step ds ?x0)") (auto simp: exec_good_def exec_inv_def)
qed

lemma exec_result_complete_witness:
  "ex_handler (fold exec_step [Exited None 3, StderrRead ''e'', StdoutRead ''o''] (initiation (\<lambda>f. f) (\<lambda>f a. None) 0 ''ls'' [] None))
     = [(None, 3, ''o'', ''e'')]"
  by (rule exec_result_complete) simp_all

section \<open>The Lua function\<close>

text \<open>
  \<open>l_execute1\<close> under the \<open>lua_settop(L, 4)\<close> of \<open>l_execute\<close>.  \<open>len\<close> is \<open>luaL_len\<close>, which raises for a
  value without a length, \<open>geti\<close> is \<open>lua_geti\<close> and \<open>shw\<close> is \<open>luaL_tolstring\<close>.
\<close>

definition settop :: "nat \<Rightarrow> lua_value list \<Rightarrow> lua_value list" where
  "settop n args = take n args @ replicate (n - length args) LNil"

definition l_execute ::
  "lua_conv \<Rightarrow> (lua_value \<Rightarrow> lua_error + nat) \<Rightarrow> (lua_value \<Rightarrow> nat \<Rightarrow> lua_value) \<Rightarrow> (lua_value \<Rightarrow> string) \<Rightarrow>
   lua_value list \<Rightarrow> lua_error + (string \<times> string list \<times> string option \<times> lua_value)" where
  "l_execute conv len geti shw args0 =
     (let args = settop 4 args0
      in sbind (check_string_view conv args 1) (\<lambda>file.
         sbind (len (the (lua_arg args 2))) (\<lambda>n.
         sbind (checkany args 3) (\<lambda>_.
         sbind (luaL_opt (\<lambda>a i. sbind (check_string_view conv a i) (\<lambda>s. Inr (Some s))) args 4 None) (\<lambda>input.
           Inr (file, List.map (\<lambda>i. shw (geti (the (lua_arg args 2)) i)) [1..<Suc n], input,
             the (lua_arg args 3)))))))"

text \<open>The callback of an execution, for the handler's arguments.\<close>

definition execute_callback :: "exec_result \<Rightarrow> lua_value list" where
  "execute_callback r =
     (case r of (err, exitcode, out, errs) \<Rightarrow>
        (case err of
           Some what \<Rightarrow> [LNil, LStr what]
         | None \<Rightarrow> [LInt exitcode, LStr out, LStr errs]))"

text \<open>
  the check for a callback never fails, since the arguments were padded with nil to four before:
  a call without a callback is accepted and later calls nil.
\<close>

theorem execute_without_callback_accepted:
  "l_execute conv len geti shw [file, tbl] = Inr (f, a, i, cb) \<Longrightarrow> cb = LNil \<and> i = None"
  by (auto simp: l_execute_def settop_def sbind_Inr lua_arg_def luaL_opt_def noneornil_def Let_def
      numeral_eq_Suc)

lemma execute_without_callback_accepted_witness:
  "\<exists>f a. l_execute plain_conv (\<lambda>_. Inr 1) (\<lambda>_ _. LStr ''x'') (\<lambda>_. ''x'') [LStr ''ls'', LTable [(LInt 1, LStr ''x'')]]
     = Inr (f, a, None, LNil)"
proof -
  have "\<exists>f a i cb. l_execute plain_conv (\<lambda>_. Inr 1) (\<lambda>_ _. LStr ''x'') (\<lambda>_. ''x'') [LStr ''ls'', LTable [(LInt 1, LStr ''x'')]]
      = Inr (f, a, i, cb)"
    by (simp add: l_execute_def settop_def lua_arg_def check_string_view_def plain_conv_def checkany_def
        luaL_opt_def noneornil_def Let_def numeral_eq_Suc)
  then obtain f a i cb where
    "l_execute plain_conv (\<lambda>_. Inr 1) (\<lambda>_ _. LStr ''x'') (\<lambda>_. ''x'') [LStr ''ls'', LTable [(LInt 1, LStr ''x'')]]
      = Inr (f, a, i, cb)" by blast
  with execute_without_callback_accepted [OF this] show ?thesis by auto
qed

end
