(* ===== verification/App.thy ===== *)
theory App
  imports LuaApi
begin

text \<open>
  \<open>client/app.cpp\<close>, \<open>bracketed_paste.hpp\<close>, \<open>safecall.cpp\<close>, \<open>main.cpp\<close> and \<open>lua_callback\<close> of
  \<open>applib.cpp\<close>: how terminal input, signals and the command line become calls of the Lua module.

  Input is the list of results of \<open>getch\<close>, \<open>ERR\<close> included.  The codes of ncurses' own keys, the
  multi-byte decoder of the C library and the pending mouse events are parameters.
\<close>

section \<open>Callbacks of the module\<close>

text \<open>
  What the application does to the outside: a protected call of the module with a hook's name and
  arguments, the message after a failed one, terminal calls, and signals.
\<close>

datatype app_action =
    CallModule string "lua_value list"
  | Report string string
  | EndWin
  | Refresh
  | NcursesResize
  | RaiseSigint
  | RunScript

record app_env =
  ae_module :: bool
  ae_call :: "string \<Rightarrow> lua_value list \<Rightarrow> string option"
  ae_load :: "string option"
  ae_run :: "string option"

text \<open>\<open>safecall\<close> on the outcome of the protected call: an error ends the curses mode and is printed.\<close>

definition safecall :: "string \<Rightarrow> string option \<Rightarrow> app_action list \<times> bool" where
  "safecall location status =
     (case status of
        None \<Rightarrow> ([], True)
      | Some err \<Rightarrow> ([EndWin, Report (''error in '' @ location) err], False))"

definition lua_callback :: "app_env \<Rightarrow> string \<Rightarrow> lua_value list \<Rightarrow> app_action list \<times> bool" where
  "lua_callback env key args =
     (if ae_module env then
        (case safecall key (ae_call env key args) of
           (acts, ok) \<Rightarrow> (CallModule key args # acts, ok))
      else ([], False))"

definition do_mouse :: "app_env \<Rightarrow> int \<Rightarrow> int \<Rightarrow> bool \<Rightarrow> app_action list" where
  "do_mouse env y x shifted = fst (lua_callback env ''on_mouse'' [LInt y, LInt x, LBool shifted])"

definition do_keyboard :: "app_env \<Rightarrow> int \<Rightarrow> app_action list" where
  "do_keyboard env key =
     (case lua_callback env ''on_keyboard'' [LInt key] of
        (acts, success) \<Rightarrow> acts @ (if \<not> success \<and> key = 3 then [RaiseSigint] else []))"

definition do_paste :: "app_env \<Rightarrow> string \<Rightarrow> app_action list" where
  "do_paste env paste = fst (lua_callback env ''on_paste'' [LStr paste])"

definition reload :: "app_env \<Rightarrow> app_action list \<times> bool" where
  "reload env =
     (case ae_load env of
        None \<Rightarrow> (RunScript # fst (safecall ''reload'' (ae_run env)), True)
      | Some err \<Rightarrow> ([EndWin, Report ''error in reload:load'' err], False))"

datatype app_signal = SIGUSR1 | SIGWINCH

fun on_signal :: "app_env \<Rightarrow> app_signal \<Rightarrow> app_action list" where
  "on_signal env SIGUSR1 = fst (reload env)"
| "on_signal env SIGWINCH =
     [EndWin, Refresh, NcursesResize] @ fst (lua_callback env ''on_resize'' [])"

section \<open>The input loop\<close>

definition ERR :: int where "ERR = - 1"
definition start_paste :: int where "start_paste = 512"
definition end_paste :: int where "end_paste = 513"
definition focus_gained :: int where "focus_gained = 514"
definition focus_lost :: int where "focus_lost = 515"

record key_codes =
  KEY_MOUSE :: int
  KEY_RESUME :: int
  KEY_EXIT :: int

text \<open>ncurses' codes are above every byte, and below the codes defined for pastes and focus.\<close>

definition codes_ok :: "key_codes \<Rightarrow> bool" where
  "codes_ok k \<longleftrightarrow> 255 < KEY_MOUSE k \<and> KEY_MOUSE k < 512 \<and> 255 < KEY_RESUME k \<and> KEY_RESUME k < 512 \<and>
     255 < KEY_EXIT k \<and> KEY_EXIT k < 512"

record mouse_event =
  me_y :: int
  me_x :: int
  me_clicked :: bool
  me_shift :: bool

record 'm input_state =
  in_paste :: bool
  in_text :: string
  in_mbstate :: 'm
  in_mice :: "mouse_event list"

text \<open>
  \<open>mbrtowc\<close> on one byte: the decoded character, or \<open>None\<close> for an incomplete or invalid sequence.
  \<open>getmouse\<close> takes the oldest mouse event; without one the event structure stays uninitialised.
\<close>

type_synonym 'm decoder = "char \<Rightarrow> 'm \<Rightarrow> int option \<times> 'm"

definition isascii :: "int \<Rightarrow> bool" where
  "isascii key \<longleftrightarrow> 0 \<le> key \<and> key < 128"

text \<open>One key outside of a paste, other than ESC.\<close>

definition plain_key ::
  "app_env \<Rightarrow> key_codes \<Rightarrow> 'm decoder \<Rightarrow> int \<Rightarrow> 'm input_state \<Rightarrow> (app_action list \<times> 'm input_state) option" where
  "plain_key env k mbrtowc key s =
     (if key = KEY_MOUSE k then
        (case in_mice s of
           [] \<Rightarrow> None
         | ev # mice \<Rightarrow>
             Some (if me_clicked ev then do_mouse env (me_y ev) (me_x ev) (me_shift ev) else [],
               s\<lparr>in_mice := mice\<rparr>))
      else if key = start_paste then Some ([], s\<lparr>in_paste := True\<rparr>)
      else if key = focus_gained then Some (do_keyboard env (- KEY_RESUME k), s)
      else if key = focus_lost then Some (do_keyboard env (- KEY_EXIT k), s)
      else if key > 0xff then Some (do_keyboard env (- key), s)
      else if isascii key then Some (do_keyboard env key, s)
      else
        (case mbrtowc (char_of (nat (key mod 256))) (in_mbstate s) of
           (code, mb) \<Rightarrow>
             Some (case code of None \<Rightarrow> [] | Some c \<Rightarrow> do_keyboard env c, s\<lparr>in_mbstate := mb\<rparr>)))"

text \<open>
  The loop: \<open>ERR\<close> goes back to waiting for the terminal; ESC takes the next result of \<open>getch\<close> with it.
\<close>

fun stdin_loop ::
  "app_env \<Rightarrow> key_codes \<Rightarrow> 'm decoder \<Rightarrow> int list \<Rightarrow> 'm input_state \<Rightarrow> (app_action list \<times> 'm input_state) option" where
  "stdin_loop env k mbrtowc [] s = Some ([], s)"
| "stdin_loop env k mbrtowc (key # keys) s =
     (if key = ERR then stdin_loop env k mbrtowc keys s
      else if in_paste s then
        (if key = end_paste then
           map_option (\<lambda>(acts, s'). (do_paste env (in_text s) @ acts, s'))
             (stdin_loop env k mbrtowc keys (s\<lparr>in_text := [], in_paste := False\<rparr>))
         else stdin_loop env k mbrtowc keys (s\<lparr>in_text := in_text s @ [char_of (nat (key mod 256))]\<rparr>))
      else if key = 0x1b then
        (case keys of
           [] \<Rightarrow> Some (do_keyboard env 0x1b, s)
         | key2 # keys2 \<Rightarrow>
             map_option (\<lambda>(acts, s). (do_keyboard env (if key2 = ERR then 0x1b else - key2) @ acts, s))
               (stdin_loop env k mbrtowc keys2 s))
      else
        (case plain_key env k mbrtowc key s of
           None \<Rightarrow> None
         | Some (acts, s) \<Rightarrow>
             map_option (\<lambda>(acts', s). (acts @ acts', s)) (stdin_loop env k mbrtowc keys s)))"

declare stdin_loop.simps(2) [simp del]

definition input_start :: "'m \<Rightarrow> mouse_event list \<Rightarrow> 'm input_state" where
  "input_start mb mice = \<lparr>in_paste = False, in_text = [], in_mbstate = mb, in_mice = mice\<rparr>"

text \<open>
  What a paste collects: each result of \<open>getch\<close> pushed into a string of bytes, so that a code above 255, to
  which ncurses has decoded an escape sequence of the text, leaves only its low byte.
\<close>

definition pasted :: "int list \<Rightarrow> string" where
  "pasted bs = List.map (\<lambda>b. char_of (nat (b mod 256))) (filter (\<lambda>b. b \<noteq> ERR) bs)"

lemma loop_paste:
  "end_paste \<notin> set bs \<Longrightarrow> in_paste s \<Longrightarrow>
   stdin_loop env k mb (bs @ end_paste # keys) s =
     map_option (\<lambda>(acts, s'). (do_paste env (in_text s @ pasted bs) @ acts, s'))
       (stdin_loop env k mb keys (s\<lparr>in_text := [], in_paste := False\<rparr>))"
proof (induction bs arbitrary: s)
  case Nil
  then show ?case by (simp add: stdin_loop.simps(2) ERR_def end_paste_def pasted_def)
next
  case (Cons b bs)
  show ?case
  proof (cases "b = ERR")
    case True
    with Cons show ?thesis by (simp add: stdin_loop.simps(2) pasted_def)
  next
    case False
    with Cons.prems have "stdin_loop env k mb ((b # bs) @ end_paste # keys) s =
        stdin_loop env k mb (bs @ end_paste # keys) (s\<lparr>in_text := in_text s @ [char_of (nat (b mod 256))]\<rparr>)"
      by (auto simp: stdin_loop.simps(2))
    with Cons False show ?thesis by (simp add: pasted_def)
  qed
qed

text \<open>
  C29: what comes between the markers of a bracketed paste reaches the module as one paste, however often
  the terminal runs dry in between, and nothing of it as a key: control characters, escape sequences and
  the interrupt key inside pasted text do not act, and the input after the paste is handled as if it
  had not been there.  The text is exactly the bytes that \<open>getch\<close> returned, as long as it returned bytes;
  every other code, such as the one of a cursor key whose escape sequence was pasted (ncurses decodes
  these, since \<open>keypad\<close> is on), becomes a single byte, its value modulo 256.
\<close>

theorem paste_is_one_event:
  assumes "codes_ok k" "end_paste \<notin> set bs" "\<not> in_paste s" "in_text s = []"
  shows "\<exists>txt. stdin_loop env k mb (start_paste # bs @ end_paste # keys) s =
      map_option (\<lambda>(acts, s'). (do_paste env txt @ acts, s')) (stdin_loop env k mb keys s) \<and>
    ((\<forall>b \<in> set bs. b = ERR \<or> 0 \<le> b \<and> b < 256) \<longrightarrow>
       List.map (\<lambda>c. int (of_char c)) txt = filter (\<lambda>b. b \<noteq> ERR) bs) \<and>
    List.map (\<lambda>c. int (of_char c)) txt = List.map (\<lambda>b. b mod 256) (filter (\<lambda>b. b \<noteq> ERR) bs)"
proof (intro exI conjI impI)
  have start: "stdin_loop env k mb (start_paste # bs @ end_paste # keys) s =
      stdin_loop env k mb (bs @ end_paste # keys) (s\<lparr>in_paste := True\<rparr>)"
    using assms(1,3)
    by (subst stdin_loop.simps(2)) (simp add: plain_key_def start_paste_def ERR_def codes_ok_def option.map_id)
  have "s\<lparr>in_text := [], in_paste := False\<rparr> = s" using assms(3,4) by (cases s) simp
  with loop_paste [OF assms(2), of "s\<lparr>in_paste := True\<rparr>" env k mb keys] start assms(4)
  show "stdin_loop env k mb (start_paste # bs @ end_paste # keys) s =
     map_option (\<lambda>(acts, s'). (do_paste env (pasted bs) @ acts, s')) (stdin_loop env k mb keys s)"
    by simp
  have "int (of_char (char_of (nat (b mod 256)) :: char)) = b mod 256" for b :: int
    by (simp add: of_char_mod_256 zmod_int)
  then show m: "List.map (\<lambda>c. int (of_char c)) (pasted bs) = List.map (\<lambda>b. b mod 256) (filter (\<lambda>b. b \<noteq> ERR) bs)"
    by (simp add: pasted_def del: of_char_of)
  assume "\<forall>b \<in> set bs. b = ERR \<or> 0 \<le> b \<and> b < 256"
  then show "List.map (\<lambda>c. int (of_char c)) (pasted bs) = filter (\<lambda>b. b \<noteq> ERR) bs"
    unfolding m by (auto intro!: map_idI)
qed

lemma paste_is_one_event_witness:
  "\<exists>txt. stdin_loop \<lparr>ae_module = True, ae_call = (\<lambda>_ _. None), ae_load = None, ae_run = None\<rparr>
     \<lparr>KEY_MOUSE = 409, KEY_RESUME = 402, KEY_EXIT = 361\<rparr> (\<lambda>_ m. (None, m))
     (start_paste # [104, 3, ERR, 259] @ end_paste # [97]) (input_start () [])
     = Some ([CallModule ''on_paste'' [LStr txt], CallModule ''on_keyboard'' [LInt 97]], input_start () []) \<and>
   List.map (\<lambda>c. int (of_char c)) txt = [104, 3, 3]"
proof -
  let ?env = "\<lparr>ae_module = True, ae_call = (\<lambda>_ _. None), ae_load = None, ae_run = None\<rparr>"
  let ?k = "\<lparr>KEY_MOUSE = 409, KEY_RESUME = 402, KEY_EXIT = 361\<rparr>"
  have "codes_ok ?k" "end_paste \<notin> set [104, 3, ERR, 259]" "\<not> in_paste (input_start () [])"
    "in_text (input_start () []) = []"
    by (simp_all add: codes_ok_def input_start_def end_paste_def ERR_def)
  from paste_is_one_event [OF this, of ?env "\<lambda>_ m. (None, m)" "[97]"] show ?thesis
    by (simp add: stdin_loop.simps(2) plain_key_def start_paste_def focus_gained_def focus_lost_def ERR_def
        isascii_def do_keyboard_def do_paste_def lua_callback_def safecall_def input_start_def)
qed

text \<open>
  the interrupt key always interrupts a client whose module cannot handle it: without a module, or
  when its handler fails, the process raises \<open>SIGINT\<close>; a handler that succeeds keeps the key, and no
  other key ever raises the signal.
\<close>

theorem interrupt_key_fallback:
  "RaiseSigint \<in> set (do_keyboard env key) \<longleftrightarrow>
     key = 3 \<and> (\<not> ae_module env \<or> ae_call env ''on_keyboard'' [LInt 3] \<noteq> None)"
  by (auto simp: do_keyboard_def lua_callback_def safecall_def split: option.splits)

text \<open>Whether each printed error directly follows the call that ends the curses mode.\<close>

fun reports_after_endwin :: "bool \<Rightarrow> app_action list \<Rightarrow> bool" where
  "reports_after_endwin ended [] = True"
| "reports_after_endwin ended (Report w m # acts) = (ended \<and> reports_after_endwin False acts)"
| "reports_after_endwin ended (a # acts) = reports_after_endwin (a = EndWin) acts"

text \<open>
  an error is never printed onto the curses screen: in every handler of input and signals each
  printed error directly follows the call that ends the curses mode.
\<close>

theorem errors_end_curses_mode:
  "reports_after_endwin False (do_keyboard env key) \<and> reports_after_endwin False (do_paste env txt) \<and>
   reports_after_endwin False (do_mouse env y x sh) \<and> reports_after_endwin False (on_signal env sig)"
  by (cases sig; cases "ae_module env"; cases "ae_load env"; cases "ae_run env";
      cases "ae_call env ''on_keyboard'' [LInt key]"; cases "ae_call env ''on_paste'' [LStr txt]";
      cases "ae_call env ''on_mouse'' [LInt y, LInt x, LBool sh]"; cases "ae_call env ''on_resize'' []";
      simp add: do_keyboard_def do_paste_def do_mouse_def reload_def lua_callback_def safecall_def)

section \<open>Start-up\<close>

text \<open>\<open>main\<close> up to the event loop: the script of the mode, or the usage error.\<close>

definition main_script :: "string \<Rightarrow> string list \<Rightarrow> string option" where
  "main_script datadir argv =
     (if length argv < 2 then None
      else if argv ! 1 = ''dashboard'' then Some (datadir @ ''/snowcone/dashboard/init.lua'')
      else if argv ! 1 = ''ircc'' then Some (datadir @ ''/snowcone/ircc/init.lua'')
      else Some (argv ! 1))"

text \<open>The global \<open>arg\<close>: \<open>argv[i]\<close> at index \<open>i - 1\<close>, with the script in place of the mode.\<close>

definition lua_arg_table :: "string list \<Rightarrow> (int \<times> string) list" where
  "lua_arg_table argv = List.map (\<lambda>i. (int i - 1, argv ! i)) [0..<length argv]"

definition main :: "string \<Rightarrow> string list \<Rightarrow> (string \<times> (int \<times> string) list) option" where
  "main datadir argv =
     (case main_script datadir argv of
        None \<Rightarrow> None
      | Some script \<Rightarrow> Some (script, lua_arg_table (argv[1 := script])))"

text \<open>
  with a mode on the command line the client loads that mode's script, Lua finds the script it was
  loaded from as \<open>arg[0]\<close>, the program at index -1 and the remaining words in order from 1.
\<close>

theorem main_arg_table:
  assumes "argv = prog # mode # rest"
  shows "\<exists>script tbl. main datadir argv = Some (script, tbl) \<and> map_of tbl (- 1) = Some prog \<and>
    map_of tbl 0 = Some script \<and> (\<forall>i < length rest. map_of tbl (int i + 1) = Some (rest ! i)) \<and>
    (script = mode \<or> mode = ''dashboard'' \<or> mode = ''ircc'')"
proof -
  have "\<exists>script. main_script datadir argv = Some script \<and>
      (script = mode \<or> mode = ''dashboard'' \<or> mode = ''ircc'')"
    using assms by (simp add: main_script_def)
  then obtain script where script: "main_script datadir argv = Some script"
    "script = mode \<or> mode = ''dashboard'' \<or> mode = ''ircc''"
    by blast
  let ?argv = "argv[1 := script]"
  have look: "map_of (lua_arg_table xs) (int i - 1) = Some (xs ! i)" if "i < length xs" for i xs
  proof -
    have "distinct (List.map fst (lua_arg_table xs))"
      by (simp add: lua_arg_table_def comp_def distinct_map inj_on_def)
    then show ?thesis using that by (auto simp: lua_arg_table_def intro!: map_of_is_SomeI)
  qed
  have m: "main datadir argv = Some (script, lua_arg_table ?argv)" by (simp add: main_def script(1))
  show ?thesis
  proof (intro exI conjI, rule m)
    show "map_of (lua_arg_table ?argv) (- 1) = Some prog" using look [of 0 ?argv] assms by simp
    show "map_of (lua_arg_table ?argv) 0 = Some script" using look [of 1 ?argv] assms by simp
    show "\<forall>i < length rest. map_of (lua_arg_table ?argv) (int i + 1) = Some (rest ! i)"
      using look [of "Suc (Suc _)" ?argv] assms by (auto simp: algebra_simps)
  qed (rule script(2))
qed

lemma main_arg_table_witness:
  "\<exists>tbl. main ''/usr/share'' [''snowcone'', ''ircc'', ''--config=x''] = Some (''/usr/share/snowcone/ircc/init.lua'', tbl) \<and>
     map_of tbl 1 = Some ''--config=x''"
proof -
  have "\<exists>tbl. main ''/usr/share'' [''snowcone'', ''ircc'', ''--config=x''] = Some (''/usr/share/snowcone/ircc/init.lua'', tbl)"
    by (simp add: main_def main_script_def)
  with main_arg_table [of "[''snowcone'', ''ircc'', ''--config=x'']" "''snowcone''" "''ircc''" "[''--config=x'']" "''/usr/share''"]
  show ?thesis by auto
qed

end
