(* ===== verification/Applib.thy ===== *)
theory Applib
  imports IrcSession App
begin

text \<open>
  \<open>client/applib.cpp\<close>: the functions of the Lua table \<open>snowcone\<close> that are not modelled with the
  component they belong to, the replacement of \<open>print\<close>, and \<open>prepare_globals\<close>.

  A binding is a function of its arguments; its results are the values it returns to Lua, or a Lua
  error.  What the C library computes (\<open>inet_pton\<close>, \<open>raise\<close>, \<open>isalnum\<close>, \<open>timespec_get\<close>,
  \<open>strerror\<close>) is a parameter.
\<close>

section \<open>Case mapping\<close>

text \<open>The 256 characters of \<open>charmap\<close>, row by row.\<close>

definition charmap :: string where
  "charmap = List.map char_of
     ([0..<0x20] @ [0x20..<0x40] @ [0x40..<0x60] @ (0x60 # [0x41..<0x5b] @ [0x5b, 0x5c, 0x5d, 0x5e, 0x7f]) @
      [0x80..<0x100])"

definition l_irccase :: "lua_conv \<Rightarrow> lua_value list \<Rightarrow> lua_error + string" where
  "l_irccase conv args =
     sbind (check_string_view conv args 1) (\<lambda>str.
       Inr (List.map (\<lambda>c. charmap ! unat (uint8 c)) str))"

text \<open>RFC 1459: \<open>{}|~\<close> are the lower case of \<open>[]\\^\<close>, beside the letters.\<close>

definition rfc1459_upper :: "char \<Rightarrow> char" where
  "rfc1459_upper c =
     (let n = of_char c :: nat
      in if of_char (CHR ''a'') \<le> n \<and> n \<le> of_char (CHR ''~'') then char_of (n - 32) else c)"

lemma rfc1459_upper_code:
  "rfc1459_upper c = char_of (if (97 :: nat) \<le> of_char c \<and> of_char c \<le> (126 :: nat) then of_char c - 32 else of_char c :: nat)"
  by (simp add: rfc1459_upper_def Let_def)

lemma charmap_table:
  "charmap = List.map (\<lambda>n. char_of (if (97 :: nat) \<le> n \<and> n \<le> 126 then n - 32 else n)) [0..<256]"
proof -
  have "[0..<0x20] @ [0x20..<0x40] @ [0x40..<0x60] @ (0x60 # [0x41..<0x5b] @ [0x5b, 0x5c, 0x5d, 0x5e, 0x7f]) @
      [0x80..<0x100] = List.map (\<lambda>n. if (97 :: nat) \<le> n \<and> n \<le> 126 then n - 32 else n) [0..<256]"
    by code_simp
  then show ?thesis by (simp only: charmap_def List.map_map comp_def)
qed

lemma charmap_upper: "charmap ! unat (uint8 c) = rfc1459_upper c"
  unfolding charmap_table unat_uint8 rfc1459_upper_code by simp

lemma rfc1459_upper_idem: "rfc1459_upper (rfc1459_upper c) = rfc1459_upper c"
proof -
  have "(of_char c :: nat) < 256" by simp
  then have n: "(of_char c - 32) mod 256 = (of_char c - 32 :: nat)" by (intro mod_less) linarith
  have "(of_char (rfc1459_upper c) :: nat) =
      (if (97 :: nat) \<le> of_char c \<and> of_char c \<le> (126 :: nat) then of_char c - 32 else of_char c)"
    using n by (simp add: rfc1459_upper_code)
  then show ?thesis
    by (subst (1) rfc1459_upper_code) (auto simp: rfc1459_upper_code)
qed

text \<open>
  the case mapping is the upper case of RFC 1459 for every byte string: it keeps the length,
  changes exactly the letters and the three lower case brackets and the tilde, byte by byte, and
  mapping twice changes nothing more, so that equality of mapped names is an equivalence of names.
\<close>

theorem irccase_rfc1459:
  "l_irccase conv args = map_sum id (List.map rfc1459_upper) (check_string_view conv args 1) \<and>
   l_irccase plain_conv [LStr (List.map rfc1459_upper s)] = l_irccase plain_conv [LStr s]"
proof
  have m: "List.map (\<lambda>c. charmap ! unat (uint8 c)) str = List.map rfc1459_upper str" for str
    by (simp only: charmap_upper)
  show "l_irccase conv args = map_sum id (List.map rfc1459_upper) (check_string_view conv args 1)"
    by (cases "check_string_view conv args 1") (simp_all add: l_irccase_def m)
  have "l_irccase plain_conv [LStr t] = Inr (List.map rfc1459_upper t)" for t
    by (simp add: l_irccase_def check_string_view_def lua_arg_def plain_conv_def m)
  then show "l_irccase plain_conv [LStr (List.map rfc1459_upper s)] = l_irccase plain_conv [LStr s]"
    by (simp add: rfc1459_upper_idem)
qed

section \<open>Parsing from Lua\<close>

text \<open>
  \<open>strcpy\<close> on the buffer, a byte at a time up to and including the first NUL of the source; Lua's
  strings have a NUL behind their last byte.
\<close>

fun strcpy :: "cmem \<Rightarrow> nat \<Rightarrow> string \<Rightarrow> cmem option" where
  "strcpy dst i [] = None"
| "strcpy dst i (c # src) =
     (case wr dst i c of
        None \<Rightarrow> None
      | Some dst \<Rightarrow> if c = NUL then Some dst else strcpy dst (Suc i) src)"

text \<open>The result of a parse for Lua: a table, or nil and a message; \<open>None\<close> is a bad memory access.\<close>

definition l_parse_irc ::
  "(nat \<Rightarrow> cmem) \<Rightarrow> lua_conv \<Rightarrow> lua_value list \<Rightarrow> (lua_error + (string + lua_ircmsg)) option" where
  "l_parse_irc junk conv args =
     (case check_string_view conv args 1 of
        Inl e \<Rightarrow> Some (Inl e)
      | Inr txt \<Rightarrow> do {
          buf \<leftarrow> strcpy (junk (length txt + 1)) 0 (txt @ [NUL]);
          (r, buf) \<leftarrow> parse_irc_message (Some (buf, 0));
          Some (Inr (case r of
              Inl e \<Rightarrow> Inl (irc_parse_error_what e)
            | Inr msg \<Rightarrow> Inr (pushircmsg (deref_msg buf msg))))
        })"

definition l_parse_irc_tags ::
  "(nat \<Rightarrow> cmem) \<Rightarrow> lua_conv \<Rightarrow> lua_value list \<Rightarrow> (lua_error + (string + (string \<times> string) list)) option" where
  "l_parse_irc_tags junk conv args =
     (case check_string_view conv args 1 of
        Inl e \<Rightarrow> Some (Inl e)
      | Inr txt \<Rightarrow> do {
          buf \<leftarrow> strcpy (junk (length txt + 1)) 0 (txt @ [NUL]);
          (r, buf) \<leftarrow> parse_irc_tags buf 0 [];
          Some (Inr (case r of
              Inl e \<Rightarrow> Inl (irc_parse_error_what e)
            | Inr tags \<Rightarrow> Inr (pushtags (List.map (deref_tag buf) tags))))
        })"

lemma strcpy_app:
  "NUL \<notin> set s \<Longrightarrow> length s < length junk \<Longrightarrow>
   strcpy (pre @ junk) (length pre) (s @ NUL # rest) = Some (pre @ s @ NUL # drop (Suc (length s)) junk)"
proof (induction s arbitrary: pre junk)
  case Nil
  then obtain j js where "junk = j # js" by (cases junk) auto
  then show ?case by simp
next
  case (Cons c s)
  then obtain j js where j: "junk = j # js" by (cases junk) auto
  from Cons.IH [of js "pre @ [c]"] Cons.prems j show ?case by (auto simp: eq_commute [of NUL])
qed

lemma strcpy_c_str:
  assumes "\<And>n. length (junk n) = n"
  obtains post where "strcpy (junk (length txt + 1)) 0 (txt @ [NUL]) = Some (c_str txt @ NUL # post)"
proof -
  have nul: "NUL \<notin> set (c_str txt)" by (simp add: c_str_def)
  have len: "length (c_str txt) < length (junk (length txt + 1))"
    using assms length_takeWhile_le [of "\<lambda>c. c \<noteq> NUL" "txt"] by (simp add: c_str_def)
  have "\<exists>rest. txt @ [NUL] = c_str txt @ NUL # rest"
  proof (cases "dropWhile (\<lambda>c. c \<noteq> NUL) txt")
    case Nil
    then show ?thesis by (simp add: c_str_def dropWhile_Nil_takeWhile)
  next
    case (Cons y ys)
    from takeWhile_dropWhile_split [OF this] have "txt = c_str txt @ NUL # ys" by (auto simp: c_str_def)
    then have "txt @ [NUL] = c_str txt @ NUL # (ys @ [NUL])" by (metis append.assoc append_Cons)
    then show ?thesis ..
  qed
  then obtain rest where "txt @ [NUL] = c_str txt @ NUL # rest" ..
  with strcpy_app [OF nul len, of "[]" rest] that show ?thesis by simp
qed

text \<open>
  C38: \<open>snowcone.parse_irc\<close> and \<open>snowcone.parse_irc_tags\<close> are safe for every Lua string, embedded
  NUL bytes included: the buffer they ask for is large enough whatever it contains, and the result is
  that of the specified parser on the bytes before the first NUL.
\<close>

theorem parse_irc_from_lua:
  assumes "\<And>n. length (junk n) = n" "check_string_view conv args 1 = Inr txt"
  shows "l_parse_irc junk conv args =
      Some (Inr (map_sum irc_parse_error_what pushircmsg (spec_parse (c_str txt)))) \<and>
    l_parse_irc_tags junk conv args =
      Some (Inr (map_sum irc_parse_error_what pushtags (spec_tags (c_str txt))))"
proof -
  have nul: "NUL \<notin> set (c_str txt)" by (simp add: c_str_def)
  from strcpy_c_str [OF assms(1)] obtain post where
    buf: "strcpy (junk (length txt + 1)) 0 (txt @ [NUL]) = Some (c_str txt @ NUL # post)" .
  from parse_irc_message_app [OF nul, of "[]" post] obtain r s' where
    m: "parse_irc_message (Some (c_str txt @ NUL # post, 0)) = Some (r, s' @ NUL # post)"
      "case spec_parse (c_str txt) of Inl e \<Rightarrow> r = Inl e | Inr msg \<Rightarrow> (\<exists>v. r = Inr v \<and> reads_msg s' v msg)"
    unfolding append_Nil list.size by blast
  from parse_irc_tags_app [OF nul, of "[]" post "[]"] obtain rt t' where
    t: "parse_irc_tags (c_str txt @ NUL # post) 0 [] = Some (rt, t' @ NUL # post)"
      "case spec_tags (c_str txt) of Inl e \<Rightarrow> rt = Inl e
       | Inr us \<Rightarrow> (\<exists>ws. rt = Inr ws \<and> list_all2 (reads_tag t') ws us)"
    unfolding append_Nil list.size by blast
  note arg = assms(2) [simplified] and buf' = buf [simplified]
  have "l_parse_irc junk conv args =
      Some (Inr (map_sum irc_parse_error_what pushircmsg (spec_parse (c_str txt))))"
    using m by (cases "spec_parse (c_str txt)") (auto simp: l_parse_irc_def arg buf' deref_reads_msg)
  moreover have "List.map (deref_tag (t' @ NUL # post)) ws = us" if "list_all2 (reads_tag t') ws us" for ws us
    using that by (rule list_all2_map_eq) (auto intro: deref_reads_tag reads_tag_append)
  then have "l_parse_irc_tags junk conv args =
      Some (Inr (map_sum irc_parse_error_what pushtags (spec_tags (c_str txt))))"
    using t by (cases "spec_tags (c_str txt)") (auto simp: l_parse_irc_tags_def arg buf')
  ultimately show ?thesis ..
qed

lemma parse_irc_from_lua_witness:
  "l_parse_irc (\<lambda>n. replicate n NUL) plain_conv [LStr ''PING :a'']
     = Some (Inr (Inr \<lparr>lm_tags = [], lm_source = None, lm_command = Inr ''PING'', lm_args = [''a'']\<rparr>))"
proof -
  have "spec_parse ''PING :a'' =
      Inr \<lparr>msg_tags = [], msg_source = [], msg_command = ''PING'', msg_args = [''a'']\<rparr>"
    by (simp add: spec_parse_def spec_trim_def spec_body_def spec_word_def spec_args.simps Let_def)
  moreover have "push_command ''PING'' = Inr ''PING''"
    by (simp add: push_command_def from_chars_def is_digit_def)
  ultimately show ?thesis
    using parse_irc_from_lua [of "\<lambda>n. replicate n NUL" plain_conv "[LStr ''PING :a'']" "''PING :a''"]
    by (simp add: check_string_view_def lua_arg_def plain_conv_def c_str_def pushircmsg_def pushtags_def)
qed

section \<open>Bindings of the C library\<close>

text \<open>
  \<open>inet_pton\<close> gives its return value and the bytes it stores; \<open>junk\<close> is the initial content of the
  16 byte buffer.  The first result is nil on a failure.
\<close>

definition l_pton ::
  "(bool \<Rightarrow> string \<Rightarrow> int \<times> string) \<Rightarrow> string \<Rightarrow> string \<Rightarrow> lua_conv \<Rightarrow> lua_value list \<Rightarrow> lua_error + lua_value list" where
  "l_pton inet_pton strerror junk conv args =
     sbind (check_string_view conv args 1) (\<lambda>s.
       let p = c_str s;
           ipv6 = CHR '':'' \<in> set p;
           len = (if ipv6 then 16 else 4)
       in case inet_pton ipv6 p of (rc, stored) \<Rightarrow>
            if rc = 1 then Inr [LStr (take len (stored @ drop (length stored) junk))]
            else if rc = 0 then Inr [LNil, LStr ''pton: bad address'']
            else Inr [LNil, LStr (''pton: '' @ strerror)])"

definition l_raise :: "(int \<Rightarrow> int) \<Rightarrow> string \<Rightarrow> lua_conv \<Rightarrow> lua_value list \<Rightarrow> lua_error + lua_value list" where
  "l_raise raise_fn strerror conv args =
     sbind (checkinteger conv args 1) (\<lambda>s.
       if raise_fn (to_int s) \<noteq> 0 then Inl (LuaErr (LStr (''raise: '' @ strerror))) else Inr [])"

definition l_setmodule :: "lua_value list \<Rightarrow> lua_value" where
  "l_setmodule args = (case lua_arg args 1 of None \<Rightarrow> LNil | Some v \<Rightarrow> v)"

definition l_isalnum :: "(int \<Rightarrow> bool) \<Rightarrow> lua_conv \<Rightarrow> lua_value list \<Rightarrow> lua_error + lua_value list" where
  "l_isalnum isalnum conv args =
     sbind (checkinteger conv args 1) (\<lambda>i. Inr [LBool (isalnum (to_int i))])"

text \<open>\<open>timespec_get\<close>: the time, or \<open>None\<close> when it does not return \<open>TIME_UTC\<close>.\<close>

definition l_time :: "(int \<times> int) option \<Rightarrow> lua_error + lua_value list" where
  "l_time now =
     (case now of
        Some (sec, nsec) \<Rightarrow> Inr [LInt sec, LInt nsec]
      | None \<Rightarrow> Inl (LuaErr (LStr ''timespec_get: failed'')))"

section \<open>Printing and globals\<close>

text \<open>
  The loop of \<open>l_print\<close> over the arguments; \<open>tostr\<close> is \<open>luaL_tolstring\<close>, which runs the
  metamethods of a value and may fail.
\<close>

fun print_line :: "(lua_value \<Rightarrow> lua_error + string) \<Rightarrow> lua_value list \<Rightarrow> lua_error + string" where
  "print_line tostr [] = Inr []"
| "print_line tostr [v] = tostr v"
| "print_line tostr (v # vs) =
     sbind (tostr v) (\<lambda>s. sbind (print_line tostr vs) (\<lambda>r. Inr (s @ CHR 0x09 # r)))"

definition l_print ::
  "app_env \<Rightarrow> (lua_value \<Rightarrow> lua_error + string) \<Rightarrow> lua_value list \<Rightarrow> lua_error + app_action list" where
  "l_print env tostr args =
     sbind (print_line tostr args) (\<lambda>line. Inr (fst (lua_callback env ''print'' [LStr line])))"

definition applib_module :: "string list" where
  "applib_module =
     [''connect'', ''dnslookup'', ''irccase'', ''isalnum'', ''newtimer'', ''parse_irc_tags'', ''parse_irc'',
      ''pton'', ''raise'', ''setmodule'', ''shutdown'', ''time'', ''execute'', ''stop_input'',
      ''start_input'', ''start_httpd'']"

text \<open>What a global holds: a module by its opening function, a table of functions with constants, ...\<close>

datatype lua_global =
    StdLib
  | Module string
  | FunctionTable "string list" "(string \<times> int) list"
  | CFunction string
  | ArgTable "(int \<times> string) list"

record build_config =
  LIBHS_FOUND :: bool
  LIBIDN_FOUND :: bool
  LIBARCHIVE_FOUND :: bool

text \<open>
  The assignments to globals in order, after those of \<open>luaL_openlibs\<close> (\<open>std\<close>); \<open>sigint\<close> and
  \<open>sigtstp\<close> are the numbers of the signals.
\<close>

definition prepare_globals ::
  "build_config \<Rightarrow> int \<Rightarrow> int \<Rightarrow> string list \<Rightarrow> string list \<Rightarrow> (string \<times> lua_global) list" where
  "prepare_globals cfg sigint sigtstp std argv =
     List.map (\<lambda>n. (n, StdLib)) std @
     [(''ncurses'', Module ''luaopen_myncurses''),
      (''myopenssl'', Module ''luaopen_myopenssl''),
      (''mybase64'', Module ''luaopen_mybase64''),
      (''mytoml'', Module ''luaopen_mytoml'')] @
     (if LIBHS_FOUND cfg then [(''hsfilter'', Module ''luaopen_hsfilter'')] else []) @
     (if LIBIDN_FOUND cfg then [(''mystringprep'', Module ''luaopen_mystringprep'')] else []) @
     (if LIBARCHIVE_FOUND cfg then [(''myarchive'', Module ''luaopen_myarchive'')] else []) @
     [(''snowcone'', FunctionTable applib_module [(''SIGINT'', sigint), (''SIGTSTP'', sigtstp)]),
      (''print'', CFunction ''l_print''),
      (''arg'', ArgTable (lua_arg_table argv))]"

definition global_value :: "(string \<times> lua_global) list \<Rightarrow> string \<Rightarrow> lua_global option" where
  "global_value gs n = map_of (rev gs) n"

text \<open>
  Whatever the standard library defined, afterwards \<open>print\<close> is the client's own function, \<open>snowcone\<close>
  the application library and \<open>arg\<close> the command line; a module that was not built in is left alone.
\<close>

lemma prepare_globals_final:
  "global_value (prepare_globals cfg sigint sigtstp std argv) ''print'' = Some (CFunction ''l_print'') \<and>
   global_value (prepare_globals cfg sigint sigtstp std argv) ''arg'' = Some (ArgTable (lua_arg_table argv)) \<and>
   (''hsfilter'' \<notin> set std \<longrightarrow>
     (global_value (prepare_globals cfg sigint sigtstp std argv) ''hsfilter'' \<noteq> None) = LIBHS_FOUND cfg)"
proof -
  have "map_of (rev (List.map (\<lambda>n. (n, StdLib)) std)) n = None" if "n \<notin> set std" for n
    using that by (auto simp: map_of_eq_None_iff)
  then show ?thesis
    by (auto simp: global_value_def prepare_globals_def map_add_def)
qed

lemma print_line_join:
  "list_all (\<lambda>v. tostr v = Inr (f v)) vs \<Longrightarrow> vs \<noteq> [] \<Longrightarrow>
   print_line tostr vs = Inr (f (hd vs) @ concat (List.map (\<lambda>v. CHR 0x09 # f v) (tl vs)))"
  by (induction tostr vs rule: print_line.induct) auto

end
