(* ===== verification/EventLoop.thy ===== *)
theory EventLoop
  imports App
begin

text \<open>
  \<open>client/app.cpp\<close>: starting and stopping of terminal input, start-up and shutdown, with the life
  of the coroutines \<open>stdin_thread\<close> and \<open>signal_thread\<close>.

  The event loop runs on one thread.  A coroutine is spawned and runs when the loop gets to it; at
  \<open>co_await async_wait\<close> it is suspended with a pending wait; when the wait has completed it is ready
  to be resumed, and a wait that has completed can no longer be cancelled.  Cancelling a pending wait,
  or waiting on a closed descriptor, throws in the coroutine, which ends.
\<close>

datatype coroutine = Spawned | Waiting | Ready | Running | Ended

record event_loop =
  el_inputs :: "coroutine list"
  el_signal :: coroutine
  el_poll_open :: bool
  el_actions :: "app_action list"

definition App_new :: event_loop where
  "App_new = \<lparr>el_inputs = [], el_signal = Ended, el_poll_open = True, el_actions = []\<rparr>"

definition async_wait :: "bool \<Rightarrow> coroutine" where
  "async_wait is_open = (if is_open then Waiting else Ended)"

definition cancel :: "coroutine \<Rightarrow> coroutine" where
  "cancel c = (if c = Waiting then Ended else c)"

definition App_start_input :: "event_loop \<Rightarrow> event_loop" where
  "App_start_input s = s\<lparr>el_inputs := el_inputs s @ [Spawned]\<rparr>"

definition App_stop_input :: "event_loop \<Rightarrow> event_loop" where
  "App_stop_input s = s\<lparr>el_inputs := List.map cancel (el_inputs s), el_actions := el_actions s @ [EndWin]\<rparr>"

definition App_startup :: "event_loop \<Rightarrow> event_loop" where
  "App_startup s = (App_start_input s)\<lparr>el_signal := Spawned\<rparr>"

definition App_shutdown :: "event_loop \<Rightarrow> event_loop" where
  "App_shutdown s =
     s\<lparr>el_poll_open := False, el_inputs := List.map cancel (el_inputs s), el_signal := cancel (el_signal s)\<rparr>"

text \<open>The Lua functions take no arguments and return nothing.\<close>

definition l_shutdown :: "lua_value list \<Rightarrow> event_loop \<Rightarrow> lua_value list \<times> event_loop" where
  "l_shutdown args s = ([], App_shutdown s)"

definition l_start_input :: "lua_value list \<Rightarrow> event_loop \<Rightarrow> lua_value list \<times> event_loop" where
  "l_start_input args s = ([], App_start_input s)"

definition l_stop_input :: "lua_value list \<Rightarrow> event_loop \<Rightarrow> lua_value list \<times> event_loop" where
  "l_stop_input args s = ([], App_stop_input s)"

text \<open>
  The signal set is cancelled but not closed by a shutdown, so \<open>signal_thread\<close> can always wait again.
\<close>

text \<open>
  A coroutine resumed: to its first wait, out of the wait into its handlers, and back to the wait.
\<close>

fun resumed :: "bool \<Rightarrow> coroutine \<Rightarrow> coroutine" where
  "resumed is_open Spawned = async_wait is_open"
| "resumed is_open Ready = Running"
| "resumed is_open Running = async_wait is_open"
| "resumed is_open c = c"

definition idle :: "event_loop \<Rightarrow> bool" where
  "idle s \<longleftrightarrow> Running \<notin> set (el_inputs s) \<and> el_signal s \<noteq> Running"

inductive el_resume_input :: "event_loop \<Rightarrow> event_loop \<Rightarrow> bool" where
  resume_input: "i < length (el_inputs s) \<Longrightarrow> el_inputs s ! i = c \<Longrightarrow>
    c = Running \<or> idle s \<and> (c = Spawned \<or> c = Ready) \<Longrightarrow>
    el_resume_input s (s\<lparr>el_inputs := (el_inputs s)[i := resumed (el_poll_open s) c]\<rparr>)"

inductive el_resume_signal :: "event_loop \<Rightarrow> event_loop \<Rightarrow> bool" where
  resume_signal: "el_signal s = c \<Longrightarrow> c = Running \<or> idle s \<and> (c = Spawned \<or> c = Ready) \<Longrightarrow>
    el_resume_signal s (s\<lparr>el_signal := resumed True c\<rparr>)"

inductive el_ready :: "event_loop \<Rightarrow> event_loop \<Rightarrow> bool" where
  readable: "i < length (el_inputs s) \<Longrightarrow> el_inputs s ! i = Waiting \<Longrightarrow>
    el_ready s (s\<lparr>el_inputs := (el_inputs s)[i := Ready]\<rparr>)"
| signalled: "el_signal s = Waiting \<Longrightarrow> el_ready s (s\<lparr>el_signal := Ready\<rparr>)"

inductive_cases el_inputE: "el_resume_input s s'"
inductive_cases el_signalE: "el_resume_signal s s'"
inductive_cases el_readyE: "el_ready s s'"

text \<open>What may happen next; the functions called from Lua run inside of any handler.\<close>

inductive el_step :: "event_loop \<Rightarrow> event_loop \<Rightarrow> bool" where
  step_input: "el_resume_input s s' \<Longrightarrow> el_step s s'"
| step_signal: "el_resume_signal s s' \<Longrightarrow> el_step s s'"
| step_ready: "el_ready s s' \<Longrightarrow> el_step s s'"
| lua_start: "el_step s (snd (l_start_input args s))"
| lua_stop: "el_step s (snd (l_stop_input args s))"
| lua_shutdown: "el_step s (snd (l_shutdown args s))"

abbreviation el_steps :: "event_loop \<Rightarrow> event_loop \<Rightarrow> bool" where
  "el_steps \<equiv> el_step\<^sup>*\<^sup>*"

lemma el_steps_step [intro]: "el_steps s t \<Longrightarrow> el_step t u \<Longrightarrow> el_steps s u"
  by (rule rtranclp.rtrancl_into_rtrancl)

text \<open>Live coroutines; how often each can still be resumed once the descriptor is closed.\<close>

fun resumptions :: "coroutine \<Rightarrow> nat" where
  "resumptions Spawned = 1"
| "resumptions Waiting = 3"
| "resumptions Ready = 2"
| "resumptions Running = 1"
| "resumptions Ended = 0"

definition input_work :: "event_loop \<Rightarrow> nat" where
  "input_work s = sum_list (List.map resumptions (el_inputs s))"

definition closed :: "event_loop \<Rightarrow> bool" where
  "closed s \<longleftrightarrow> \<not> el_poll_open s \<and> Waiting \<notin> set (el_inputs s)"

lemma cancel_not_waiting [simp]: "Waiting \<notin> cancel ` A"
  by (auto simp: cancel_def split: if_splits)

lemma closed_shutdown: "closed (App_shutdown s)"
  by (simp add: closed_def App_shutdown_def)

lemma closed_step: "el_step s s' \<Longrightarrow> closed s \<Longrightarrow> closed s'"
proof (induction rule: el_step.induct)
  case (step_input s s')
  then show ?case
    by (elim el_inputE)
      (auto simp: closed_def async_wait_def dest!: set_update_subset_insert [THEN subsetD] split: if_splits)
next
  case (step_signal s s')
  then show ?case by (elim el_signalE) (simp add: closed_def)
next
  case (step_ready s s')
  then show ?case
    by (elim el_readyE) (auto simp: closed_def in_set_conv_nth)
qed (auto simp: closed_def App_start_input_def App_stop_input_def App_shutdown_def l_start_input_def
    l_stop_input_def l_shutdown_def)

lemma closed_steps: "el_steps s s' \<Longrightarrow> closed s \<Longrightarrow> closed s'"
  by (induction rule: rtranclp_induct) (auto intro: closed_step)

lemma sum_list_update_less:
  "i < length xs \<Longrightarrow> f y < f (xs ! i) \<Longrightarrow> sum_list (List.map f (xs[i := y])) < (sum_list (List.map f xs) :: nat)"
  by (induction xs arbitrary: i) (auto split: nat.splits)

lemma resume_work:
  assumes "el_resume_input s s'" "closed s"
  shows "input_work s' < input_work s"
  using assms(1)
proof (cases rule: el_resume_input.cases)
  case (resume_input i c)
  then have "resumptions (resumed False c) < resumptions (el_inputs s ! i)"
    by (auto simp: async_wait_def)
  with resume_input assms(2) show ?thesis
    by (simp add: input_work_def closed_def sum_list_update_less)
qed

lemma resume_work_run:
  "(el_resume_input ^^ n) s u \<Longrightarrow> closed s \<Longrightarrow> n + input_work u \<le> input_work s"
proof (induction n arbitrary: u)
  case (Suc n)
  then obtain t where t: "(el_resume_input ^^ n) s t" "el_resume_input t u" by auto
  have "el_resume_input\<^sup>*\<^sup>* s t" using t(1) by (rule relpowp_imp_rtranclp)
  then have "el_steps s t" by (induction rule: rtranclp_induct) (blast intro: step_input)+
  with Suc.prems(2) have "closed t" by (metis closed_steps)
  with resume_work [OF t(2)] Suc.IH [OF t(1) Suc.prems(2)] show ?case by linarith
qed simp

text \<open>
  C39: after a shutdown terminal input comes to an end: whatever happens next, no input coroutine waits
  for the terminal again, the coroutines there are can be resumed at most \<open>input_work\<close> times
  altogether, and they have all ended when that is used up.
\<close>

theorem shutdown_ends_input:
  assumes "el_steps (App_shutdown s) t" "(el_resume_input ^^ n) t u"
  shows "Waiting \<notin> set (el_inputs t) \<and> n + input_work u \<le> input_work t \<and>
    (input_work u = 0 \<longleftrightarrow> set (el_inputs u) \<subseteq> {Ended})"
proof (intro conjI)
  from closed_steps [OF assms(1) closed_shutdown] have t: "closed t" .
  then show "Waiting \<notin> set (el_inputs t)" by (simp add: closed_def)
  show "n + input_work u \<le> input_work t" by (rule resume_work_run [OF assms(2) t])
  have "resumptions c = 0 \<longleftrightarrow> c = Ended" for c by (cases c) simp_all
  then show "input_work u = 0 \<longleftrightarrow> set (el_inputs u) \<subseteq> {Ended}" by (auto simp: input_work_def)
qed

lemma shutdown_ends_input_witness:
  "set (el_inputs (App_shutdown (App_startup App_new)\<lparr>el_inputs := [Ended]\<rparr>)) \<subseteq> {Ended}"
proof -
  let ?t = "App_shutdown (App_startup App_new)" and ?u = "App_shutdown (App_startup App_new)\<lparr>el_inputs := [Ended]\<rparr>"
  have "el_resume_input ?t (?t\<lparr>el_inputs := (el_inputs ?t)[0 := resumed (el_poll_open ?t) Spawned]\<rparr>)"
    by (rule resume_input)
      (simp_all add: App_shutdown_def App_startup_def App_start_input_def App_new_def cancel_def idle_def)
  then have "(el_resume_input ^^ 1) ?t ?u"
    by (simp only: relpowp_1) (simp add: App_shutdown_def App_startup_def App_start_input_def App_new_def cancel_def async_wait_def)
  from shutdown_ends_input [OF _ this] show ?thesis by (simp add: input_work_def)
qed

section \<open>Stopping from inside of a handler\<close>

text \<open>
  A coroutine that is calling into Lua has no pending wait, so there is nothing \<open>stop_input\<close> or
  \<open>shutdown\<close> could cancel.
\<close>

definition running_key :: event_loop where
  "running_key = \<lparr>el_inputs = [Running], el_signal = Waiting, el_poll_open = True, el_actions = []\<rparr>"

definition running_signal :: event_loop where
  "running_signal = \<lparr>el_inputs = [Waiting], el_signal = Running, el_poll_open = True, el_actions = []\<rparr>"

lemmas el_defs = App_startup_def App_start_input_def App_new_def App_stop_input_def App_shutdown_def
  cancel_def async_wait_def running_key_def running_signal_def idle_def

lemma resume_inputI:
  "i < length (el_inputs s) \<Longrightarrow> el_inputs s ! i = Running \<or> idle s \<and> (el_inputs s ! i = Spawned \<or> el_inputs s ! i = Ready) \<Longrightarrow>
   t = s\<lparr>el_inputs := (el_inputs s)[i := resumed (el_poll_open s) (el_inputs s ! i)]\<rparr> \<Longrightarrow> el_step s t"
  using resume_input [of i s "el_inputs s ! i"] by (simp add: step_input)

lemma resume_signalI:
  "el_signal s = Running \<or> idle s \<and> (el_signal s = Spawned \<or> el_signal s = Ready) \<Longrightarrow>
   t = s\<lparr>el_signal := resumed True (el_signal s)\<rparr> \<Longrightarrow> el_step s t"
  using resume_signal [of s "el_signal s"] by (simp add: step_signal)

definition both_waiting :: event_loop where
  "both_waiting = \<lparr>el_inputs = [Waiting], el_signal = Waiting, el_poll_open = True, el_actions = []\<rparr>"

lemma startup_reaches: "el_steps (App_startup App_new) both_waiting"
proof -
  have "el_step (App_startup App_new) \<lparr>el_inputs = [Waiting], el_signal = Spawned, el_poll_open = True, el_actions = []\<rparr>"
    by (rule resume_inputI [of 0]) (simp_all add: el_defs)
  moreover have "el_step \<lparr>el_inputs = [Waiting], el_signal = Spawned, el_poll_open = True, el_actions = []\<rparr> both_waiting"
    by (rule resume_signalI) (simp_all add: el_defs both_waiting_def)
  ultimately show ?thesis by blast
qed

lemma startup_reaches_key: "el_steps (App_startup App_new) running_key"
proof -
  let ?r = "both_waiting\<lparr>el_inputs := [Ready]\<rparr>"
  have "el_step both_waiting ?r"
    using readable [of 0 both_waiting] by (intro step_ready) (simp add: both_waiting_def)
  moreover have "el_step ?r running_key"
    by (rule resume_inputI [of 0]) (simp_all add: el_defs both_waiting_def)
  ultimately show ?thesis using startup_reaches by blast
qed

lemma startup_reaches_signal: "el_steps (App_startup App_new) running_signal"
proof -
  let ?r = "both_waiting\<lparr>el_signal := Ready\<rparr>"
  have "el_step both_waiting ?r"
    using signalled [of both_waiting] by (intro step_ready) (simp add: both_waiting_def)
  moreover have "el_step ?r running_signal"
    by (rule resume_signalI) (simp_all add: el_defs both_waiting_def)
  ultimately show ?thesis using startup_reaches by blast
qed

text \<open>
  C40: stopping and starting the input from a key handler, the way the client suspends the terminal,
  leaves the old coroutine alive beside the new one, so that two of them read the terminal; and a
  shutdown from a signal handler (a reload or a resize) leaves the signal coroutine waiting, so that
  the event loop does not end.
\<close>

theorem stop_inside_handler:
  "(\<exists>s t. el_steps (App_startup App_new) s \<and> Running \<in> set (el_inputs s) \<and>
      el_steps (App_start_input (App_stop_input s)) t \<and> el_inputs t = [Waiting, Waiting]) \<and>
   (\<exists>s t. el_steps (App_startup App_new) s \<and> el_signal s = Running \<and>
      el_steps (App_shutdown s) t \<and> el_signal t = Waiting \<and> set (el_inputs t) \<subseteq> {Ended})"
proof (intro conjI exI)
  let ?s = "App_start_input (App_stop_input running_key)"
  let ?t = "\<lparr>el_inputs = [Waiting, Spawned], el_signal = Waiting, el_poll_open = True, el_actions = [EndWin]\<rparr>"
  have "el_step ?s ?t" by (rule resume_inputI [of 0]) (simp_all add: el_defs)
  moreover have "el_step ?t (?t\<lparr>el_inputs := [Waiting, Waiting]\<rparr>)"
    by (rule resume_inputI [of 1]) (simp_all add: el_defs)
  ultimately show "el_steps ?s (?t\<lparr>el_inputs := [Waiting, Waiting]\<rparr>)" by blast
  have "el_step (App_shutdown running_signal) ((App_shutdown running_signal)\<lparr>el_signal := Waiting\<rparr>)"
    by (rule resume_signalI) (simp_all add: el_defs)
  then show "el_steps (App_shutdown running_signal) ((App_shutdown running_signal)\<lparr>el_signal := Waiting\<rparr>)" by blast
qed (simp_all add: startup_reaches_key startup_reaches_signal, simp_all add: el_defs)

end
