(* ===== verification/Terminal.thy ===== *)
theory Terminal
  imports EventLoop
begin

text \<open>
  Setting up the terminal and putting it back: \<open>BracketedPaste\<close> of \<open>client/bracketed_paste.cpp\<close>, class
  \<open>NC\<close> and \<open>main\<close> of \<open>client/main.cpp\<close>.

  A run of the program is the list of what it does to the terminal, in order; the destructors run in
  the reverse order of the constructors.  \<open>mouse\<close> is the mouse mask, a number of ncurses' header.
\<close>

datatype term_effect =
    Puts string
  | Fflush
  | Ncurses string "int list"
  | DefineKey string int
  | Act app_action
  | OpenLua string
  | PrepareGlobals "(int \<times> string) list"
  | CloseLua
  | Usage

definition ESC :: char where "ESC = CHR 0x1B"

definition BracketedPaste_ctor :: "term_effect list" where
  "BracketedPaste_ctor = [Puts (ESC # ''[?2004h''), Puts (ESC # ''[?1004h''), Fflush]"

definition BracketedPaste_install :: "term_effect list" where
  "BracketedPaste_install =
     [DefineKey (ESC # ''[200~'') start_paste, DefineKey (ESC # ''[201~'') end_paste,
      DefineKey (ESC # ''[I'') focus_gained, DefineKey (ESC # ''[O'') focus_lost]"

definition BracketedPaste_dtor :: "term_effect list" where
  "BracketedPaste_dtor = [Puts (ESC # ''[?1004l''), Puts (ESC # ''[?2004l''), Fflush]"

text \<open>The member \<open>bp\<close> is constructed before the body of the constructor, and destroyed after that of the destructor.\<close>

definition NC_ctor :: "int \<Rightarrow> term_effect list" where
  "NC_ctor mouse =
     BracketedPaste_ctor @
     [Ncurses ''setlocale'' [], Ncurses ''initscr'' [], Ncurses ''start_color'' [], Ncurses ''use_default_colors'' [],
      Ncurses ''raw'' [], Ncurses ''noecho'' [], Ncurses ''nonl'' [], Ncurses ''curs_set'' [0],
      Ncurses ''mousemask'' [mouse], Ncurses ''set_escdelay'' [25], Ncurses ''nodelay'' [1],
      Ncurses ''intrflush'' [0], Ncurses ''keypad'' [1]] @
     BracketedPaste_install"

definition NC_dtor :: "term_effect list" where
  "NC_dtor = Act EndWin # BracketedPaste_dtor"

text \<open>
  The end of the program before \<open>main\<close> returns.  \<open>main\<close> catches nothing, so an exception that leaves the
  event loop is the end, as are \<open>os.exit\<close> in the Lua program and a \<open>SIGINT\<close> that is raised; the program
  does nothing more then, and no destructor runs.  \<open>stop\<close> is after how many of the effects that happens,
  the signal excepted; the second component says whether they all were reached.
\<close>

fun up_to_signal :: "term_effect list \<Rightarrow> term_effect list" where
  "up_to_signal [] = []"
| "up_to_signal (e # es) = (if e = Act RaiseSigint then [e] else e # up_to_signal es)"

definition ends :: "nat option \<Rightarrow> term_effect list \<Rightarrow> term_effect list \<times> bool" where
  "ends stop body =
     (up_to_signal (case stop of None \<Rightarrow> body | Some n \<Rightarrow> take n body),
      stop = None \<and> Act RaiseSigint \<notin> set body)"

text \<open>
  \<open>main\<close>: the exit code, if it returns, and the effects.  \<open>handlers\<close> is what the handlers do while the
  event loop runs, \<open>finalizers\<close> what the Lua program does when its state is closed, by the destructor
  of \<open>App\<close>; that of \<open>NC\<close> is last.
\<close>

definition main_body :: "string \<Rightarrow> app_env \<Rightarrow> app_action list \<Rightarrow> app_action list \<Rightarrow> string list \<Rightarrow> term_effect list" where
  "main_body script env handlers finalizers argv =
     (case reload env of (acts, loaded) \<Rightarrow>
        [OpenLua script, PrepareGlobals (lua_arg_table (argv[1 := script]))] @
        List.map Act acts @ (if loaded then List.map Act handlers else []) @
        CloseLua # List.map Act finalizers)"

definition run_main ::
  "string \<Rightarrow> int \<Rightarrow> app_env \<Rightarrow> app_action list \<Rightarrow> app_action list \<Rightarrow> nat option \<Rightarrow> string list \<Rightarrow>
   int option \<times> term_effect list" where
  "run_main datadir mouse env handlers finalizers stop argv =
     (case main_script datadir argv of
        None \<Rightarrow> (Some 1, [Usage])
      | Some script \<Rightarrow>
          (case ends stop (main_body script env handlers finalizers argv) of
             (body, True) \<Rightarrow> (Some 0, NC_ctor mouse @ body @ NC_dtor)
           | (body, False) \<Rightarrow> (None, NC_ctor mouse @ body)))"

section \<open>The terminal\<close>

text \<open>
  What the effects do: the modes the escape sequences of xterm switch on and off, whether curses has
  the screen (\<open>refresh\<close> takes it back after \<open>endwin\<close>), and the key definitions.  Nothing follows a
  \<open>SIGINT\<close> (what ncurses' own handler does about the screen is not of this program), and the Lua program
  is taken to write no escape sequences of its own.
\<close>

record terminal =
  tm_paste :: bool
  tm_focus :: bool
  tm_curses :: bool
  tm_keys :: "(string \<times> int) list"

definition write_sequence :: "string \<Rightarrow> terminal \<Rightarrow> terminal" where
  "write_sequence s t =
     (if s = ESC # ''[?2004h'' then t\<lparr>tm_paste := True\<rparr>
      else if s = ESC # ''[?2004l'' then t\<lparr>tm_paste := False\<rparr>
      else if s = ESC # ''[?1004h'' then t\<lparr>tm_focus := True\<rparr>
      else if s = ESC # ''[?1004l'' then t\<lparr>tm_focus := False\<rparr>
      else t)"

fun on_terminal :: "term_effect \<Rightarrow> terminal \<Rightarrow> terminal" where
  "on_terminal (Puts s) t = write_sequence s t"
| "on_terminal (Ncurses f args) t = (if f = ''initscr'' then t\<lparr>tm_curses := True\<rparr> else t)"
| "on_terminal (DefineKey s k) t = t\<lparr>tm_keys := (s, k) # tm_keys t\<rparr>"
| "on_terminal (Act EndWin) t = t\<lparr>tm_curses := False\<rparr>"
| "on_terminal (Act Refresh) t = t\<lparr>tm_curses := True\<rparr>"
| "on_terminal e t = t"

definition reports :: "terminal \<Rightarrow> bool" where
  "reports t \<longleftrightarrow> tm_paste t \<and> tm_focus t \<and>
     map_of (tm_keys t) (ESC # ''[200~'') = Some start_paste \<and> map_of (tm_keys t) (ESC # ''[201~'') = Some end_paste \<and>
     map_of (tm_keys t) (ESC # ''[I'') = Some focus_gained \<and> map_of (tm_keys t) (ESC # ''[O'') = Some focus_lost"

lemmas set_up_defs = NC_ctor_def NC_dtor_def BracketedPaste_ctor_def BracketedPaste_dtor_def BracketedPaste_install_def

lemma reports_ctor: "reports (fold on_terminal (NC_ctor mouse) t)"
  by (simp add: set_up_defs reports_def write_sequence_def)

lemma reports_act: "reports t \<Longrightarrow> reports (on_terminal (Act a) t)"
  by (cases a) (simp_all add: reports_def)

lemma reports_acts: "reports t \<Longrightarrow> reports (fold on_terminal (List.map Act acts) t)"
  by (induction acts arbitrary: t) (auto intro: reports_act)

lemma restored_dtor:
  "let t' = fold on_terminal NC_dtor t in \<not> tm_paste t' \<and> \<not> tm_focus t' \<and> \<not> tm_curses t'"
  by (simp add: set_up_defs write_sequence_def)

lemma up_to_signal_prefix: "\<exists>n. up_to_signal es = take n es"
proof (induction es)
  case (Cons e es)
  then obtain n where "up_to_signal es = take n es" ..
  then have "up_to_signal (e # es) = take (if e = Act RaiseSigint then 1 else Suc n) (e # es)" by simp
  then show ?case ..
qed simp

lemma up_to_signal_all: "Act RaiseSigint \<notin> set es \<Longrightarrow> up_to_signal es = es"
  by (induction es) auto

lemma ends_prefix: "\<exists>n. fst (ends stop body) = take n body"
proof -
  have "\<exists>n. fst (ends stop body) = take n (case stop of None \<Rightarrow> body | Some k \<Rightarrow> take k body)"
    using up_to_signal_prefix by (simp add: ends_def)
  then show ?thesis by (auto split: option.splits)
qed

text \<open>No effect of the body touches the modes and the keys.\<close>

lemma reports_body: "reports t \<Longrightarrow> reports (fold on_terminal (take n (main_body script env handlers finalizers argv)) t)"
proof -
  obtain acts loaded where l: "reload env = (acts, loaded)" by fastforce
  have step: "reports (on_terminal e t)" if "reports t" "e \<in> set (main_body script env handlers finalizers argv)" for e t
    using that reports_act by (auto simp: main_body_def l reports_def split: if_splits)
  have "reports t \<Longrightarrow> set es \<subseteq> set (main_body script env handlers finalizers argv) \<Longrightarrow> reports (fold on_terminal es t)" for es t
    by (induction es arbitrary: t) (auto intro: step)
  then show "reports t \<Longrightarrow> ?thesis" using set_take_subset by metis
qed

text \<open>
  C35: the terminal is given back, out of curses and with paste and focus reports off, exactly when the
  function \<open>main\<close> returns, whether the script loads or not and whatever its handlers and finalizers do; and it returns
  exactly when nothing stops the program before: no uncaught exception, no exit, and no \<open>SIGINT\<close> raised
  by a key that the module did not handle.  After any of these the reports are still on, since only the
  destructors switch them off.  As long as the Lua program can act they are on and arrive as the keys the
  input loop knows.  Without a mode on the command line the terminal is not touched.
\<close>

theorem terminal_restored:
  "let (code, effects) = run_main datadir mouse env handlers finalizers stop argv; t' = fold on_terminal effects t
   in case main_script datadir argv of
     None \<Rightarrow> code = Some 1 \<and> t' = t
   | Some script \<Rightarrow>
       (code = Some 0 \<longleftrightarrow> stop = None \<and> Act RaiseSigint \<notin> set (main_body script env handlers finalizers argv)) \<and>
       (if code = Some 0 then \<not> tm_paste t' \<and> \<not> tm_focus t' \<and> \<not> tm_curses t' else tm_paste t' \<and> tm_focus t') \<and>
       (\<exists>rest. effects = NC_ctor mouse @ rest \<and>
          (\<forall>before a after. rest = before @ Act a # after \<and> CloseLua \<notin> set before \<longrightarrow>
             reports (fold on_terminal (NC_ctor mouse @ before) t)))"
proof (cases "main_script datadir argv")
  case None
  then show ?thesis by (simp add: run_main_def)
next
  case (Some script)
  let ?body = "main_body script env handlers finalizers argv"
  obtain n reached all where e: "ends stop ?body = (reached, all)" and n: "reached = take n ?body"
    using ends_prefix [of stop ?body] by (metis prod.collapse)
  have all: "all \<longleftrightarrow> stop = None \<and> Act RaiseSigint \<notin> set ?body" using e by (auto simp: ends_def)
  define rest where "rest = (if all then reached @ NC_dtor else reached)"
  have run: "run_main datadir mouse env handlers finalizers stop argv = (if all then Some 0 else None, NC_ctor mouse @ rest)"
    by (simp add: run_main_def Some e rest_def)
  have r: "reports (fold on_terminal (take k ?body) (fold on_terminal (NC_ctor mouse) t))" for k
    by (rule reports_body [OF reports_ctor])
  have "reports (fold on_terminal (NC_ctor mouse @ before) t)"
    if split: "rest = before @ Act a # after" "CloseLua \<notin> set before" for before a after
  proof -
    have "CloseLua \<in> set reached" if "all"
      using that e by (auto simp: all ends_def up_to_signal_all main_body_def split: prod.splits)
    then have "length before \<le> length reached"
      using split by (cases all) (auto simp: rest_def append_eq_append_conv2)
    then have "before = take (length before) reached"
      using split(1) by (auto simp: rest_def append_eq_append_conv_if split: if_splits)
    then have "\<exists>k. before = take k ?body" using n by (metis take_take)
    then show ?thesis using r by auto
  qed
  moreover have "let t' = fold on_terminal (NC_ctor mouse @ rest) t in
      if all then \<not> tm_paste t' \<and> \<not> tm_focus t' \<and> \<not> tm_curses t' else tm_paste t' \<and> tm_focus t'"
    using restored_dtor r [of n] by (auto simp: rest_def Let_def n reports_def)
  ultimately show ?thesis using all by (auto simp: Some run Let_def)
qed

lemma terminal_restored_witness:
  "let env = \<lparr>ae_module = True, ae_call = \<lambda>_ _. None, ae_load = None, ae_run = None\<rparr>;
       t = \<lparr>tm_paste = False, tm_focus = True, tm_curses = False, tm_keys = []\<rparr>;
       run = (\<lambda>handlers. run_main ''/usr/share'' 4 env handlers [] None [''snowcone'', ''ircc'']);
       good = fold on_terminal (snd (run [Refresh])) t; bad = fold on_terminal (snd (run [Refresh, RaiseSigint])) t
   in \<not> tm_paste good \<and> \<not> tm_focus good \<and> \<not> tm_curses good \<and> tm_paste bad \<and> tm_focus bad"
proof -
  let ?env = "\<lparr>ae_module = True, ae_call = \<lambda>_ _. None, ae_load = None, ae_run = None\<rparr>"
  let ?t = "\<lparr>tm_paste = False, tm_focus = True, tm_curses = False, tm_keys = []\<rparr>"
  have s: "main_script ''/usr/share'' [''snowcone'', ''ircc''] = Some ''/usr/share/snowcone/ircc/init.lua''"
    by (simp add: main_script_def)
  have r: "reload ?env = ([RunScript], True)"
    by (simp add: reload_def safecall_def)
  note run = terminal_restored [where datadir = "''/usr/share''" and argv = "[''snowcone'', ''ircc'']" and mouse = 4
      and env = ?env and finalizers = "[]" and stop = None and t = ?t]
  show ?thesis
    using run [where handlers = "[Refresh]"] run [where handlers = "[Refresh, RaiseSigint]"] r
    by (auto simp: Let_def s main_body_def r split: prod.splits if_splits)
qed

end
