(* ===== verification/Toml.thy ===== *)
theory Toml
  imports LuaApi "HOL-Library.AList" "HOL-Library.Multiset"
begin

text \<open>
  \<open>mytoml/parse_toml.cpp\<close> and \<open>mytoml/to_toml.cpp\<close>: TOML values to Lua values and back.

  The parser and the formatter of the vendored toml11 are parameters here; \<open>TomlLoad\<close> puts the parser in.  A Lua table is
  the list of its entries; the order in which \<open>lua_next\<close> goes through a table is up to Lua, the
  parameter \<open>trv\<close> of the exporting functions.  The Lua stack of \<open>push_toml\<close> is explicit, with the
  room it has.
\<close>

datatype toml =
    TArray "toml list"
  | TTable "(string \<times> toml) list"
  | TBoolean bool
  | TFloating u64
  | TInteger int
  | TString string
  | TOther

text \<open>\<open>std::runtime_error\<close> and the exceptions of toml11, which derive from \<open>std::exception\<close> only.\<close>

datatype cpp_exception = RuntimeError string | TomlException string

section \<open>TOML to Lua\<close>

text \<open>
  The values on the stack, the top first, and how many there may be: a C function can count on
  \<open>LUA_MINSTACK\<close> slots above its arguments and has to ask for more with \<open>lua_checkstack\<close>, which nothing
  here does.  What a push without a free slot does is undefined.  An exception leaves the stack as it
  was when it was thrown.
\<close>

record lua_stack =
  ls_slots :: "lua_value list"
  ls_limit :: nat

datatype push_failure = Overrun | Throws string lua_stack

definition lua_push :: "lua_value \<Rightarrow> lua_stack \<Rightarrow> push_failure + lua_stack" where
  "lua_push v L =
     (if length (ls_slots L) < ls_limit L then Inr (L\<lparr>ls_slots := v # ls_slots L\<rparr>) else Inl Overrun)"

fun set_entry :: "lua_value \<Rightarrow> lua_value \<Rightarrow> lua_value \<Rightarrow> lua_value" where
  "set_entry k v (LTable es) = LTable (AList.update k v es)"
| "set_entry k v t = t"

definition lua_rawseti :: "int \<Rightarrow> lua_stack \<Rightarrow> lua_stack" where
  "lua_rawseti i L =
     (case ls_slots L of
        v # t # rest \<Rightarrow> L\<lparr>ls_slots := set_entry (LInt i) v t # rest\<rparr>
      | _ \<Rightarrow> L)"

definition lua_settable :: "lua_stack \<Rightarrow> lua_stack" where
  "lua_settable L =
     (case ls_slots L of
        v # k # t # rest \<Rightarrow> L\<lparr>ls_slots := set_entry k v t # rest\<rparr>
      | _ \<Rightarrow> L)"

fun push_toml :: "toml \<Rightarrow> lua_stack \<Rightarrow> push_failure + lua_stack"
  and push_array :: "toml list \<Rightarrow> int \<Rightarrow> lua_stack \<Rightarrow> push_failure + lua_stack"
  and push_table :: "(string \<times> toml) list \<Rightarrow> lua_stack \<Rightarrow> push_failure + lua_stack" where
  "push_toml (TArray xs) L = sbind (lua_push (LTable []) L) (\<lambda>L. push_array xs 1 L)"
| "push_toml (TTable es) L = sbind (lua_push (LTable []) L) (\<lambda>L. push_table es L)"
| "push_toml (TBoolean b) L = lua_push (LBool b) L"
| "push_toml (TFloating d) L = lua_push (LFloat d) L"
| "push_toml (TInteger i) L = lua_push (LInt i) L"
| "push_toml (TString s) L = lua_push (LStr s) L"
| "push_toml TOther L = Inl (Throws ''toml value not supported'' L)"
| "push_array [] i L = Inr L"
| "push_array (x # xs) i L = sbind (push_toml x L) (\<lambda>L. push_array xs (i + 1) (lua_rawseti i L))"
| "push_table [] L = Inr L"
| "push_table ((k, v) # es) L =
     sbind (lua_push (LStr k) L) (\<lambda>L. sbind (push_toml v L) (\<lambda>L. push_table es (lua_settable L)))"

text \<open>What Lua sees of a call: its results, or an exception that leaves the C++ function.\<close>

datatype lua_outcome = Results "lua_value list" | Raised lua_error | Uncaught cpp_exception

text \<open>The handler: \<open>luaL_pushfail\<close> and the message, on top of what \<open>push_toml\<close> left.\<close>

definition push_message :: "string \<Rightarrow> lua_stack \<Rightarrow> lua_outcome option" where
  "push_message what L =
     (case sbind (lua_push LNil L) (lua_push (LStr what)) of
        Inr L \<Rightarrow> Some (Results (rev (take 2 (ls_slots L)))) | Inl _ \<Rightarrow> None)"

text \<open>\<open>room\<close> is the number of slots Lua has left for the function; \<open>None\<close> is undefined behaviour.\<close>

definition l_parse_toml ::
  "nat \<Rightarrow> (string \<Rightarrow> cpp_exception + toml) \<Rightarrow> lua_conv \<Rightarrow> lua_value list \<Rightarrow> lua_outcome option" where
  "l_parse_toml room parse_str conv args =
     (let L = \<lparr>ls_slots = rev args, ls_limit = length args + room\<rparr>
      in case check_string_view conv args 1 of
           Inl e \<Rightarrow> Some (Raised e)
         | Inr src \<Rightarrow>
             (case parse_str src of
                Inl (RuntimeError what) \<Rightarrow> push_message what L
              | Inl (TomlException what) \<Rightarrow> Some (Uncaught (TomlException what))
              | Inr v \<Rightarrow>
                  (case push_toml v L of
                     Inr L \<Rightarrow> Some (Results (take 1 (ls_slots L)))
                   | Inl (Throws what L) \<Rightarrow> push_message what L
                   | Inl Overrun \<Rightarrow> None)))"

text \<open>The Lua value of a TOML value, and the number of stack slots that building it takes.\<close>

fun lua_of :: "toml \<Rightarrow> lua_value"
  and lua_of_array :: "toml list \<Rightarrow> int \<Rightarrow> (lua_value \<times> lua_value) list"
  and lua_of_table :: "(string \<times> toml) list \<Rightarrow> (lua_value \<times> lua_value) list" where
  "lua_of (TArray xs) = LTable (lua_of_array xs 1)"
| "lua_of (TTable es) = LTable (lua_of_table es)"
| "lua_of (TBoolean b) = LBool b"
| "lua_of (TFloating d) = LFloat d"
| "lua_of (TInteger i) = LInt i"
| "lua_of (TString s) = LStr s"
| "lua_of TOther = LNil"
| "lua_of_array [] i = []"
| "lua_of_array (x # xs) i = (LInt i, lua_of x) # lua_of_array xs (i + 1)"
| "lua_of_table [] = []"
| "lua_of_table ((k, v) # es) = (LStr k, lua_of v) # lua_of_table es"

fun slots_of :: "toml \<Rightarrow> nat"
  and slots_of_array :: "toml list \<Rightarrow> nat"
  and slots_of_table :: "(string \<times> toml) list \<Rightarrow> nat" where
  "slots_of (TArray xs) = Suc (slots_of_array xs)"
| "slots_of (TTable es) = Suc (slots_of_table es)"
| "slots_of v = 1"
| "slots_of_array [] = 0"
| "slots_of_array (x # xs) = max (slots_of x) (slots_of_array xs)"
| "slots_of_table [] = 0"
| "slots_of_table ((k, v) # es) = max (Suc (slots_of v)) (slots_of_table es)"

text \<open>No value of an unsupported type, and the keys of each table are distinct.\<close>

fun clean :: "toml \<Rightarrow> bool"
  and clean_array :: "toml list \<Rightarrow> bool"
  and clean_table :: "(string \<times> toml) list \<Rightarrow> bool" where
  "clean (TArray xs) = clean_array xs"
| "clean (TTable es) = (distinct (List.map fst es) \<and> clean_table es)"
| "clean TOther = False"
| "clean _ = True"
| "clean_array [] = True"
| "clean_array (x # xs) = (clean x \<and> clean_array xs)"
| "clean_table [] = True"
| "clean_table ((k, v) # es) = (clean v \<and> clean_table es)"

lemma update_fresh: "k \<notin> fst ` set es \<Longrightarrow> AList.update k v es = es @ [(k, v)]"
  by (induction es) auto

lemma lua_push_cases:
  "lua_push v L =
     (if length (ls_slots L) + 1 \<le> ls_limit L then Inr (L\<lparr>ls_slots := v # ls_slots L\<rparr>) else Inl Overrun)"
  by (simp add: lua_push_def)

text \<open>
  The stack is a record of two fields, so it is determined by them; \<open>es\<close> are the entries of the table
  under construction, \<open>i\<close> is above its integer keys.
\<close>

lemma push_toml_lua_of:
  "clean x \<Longrightarrow> push_toml x L =
     (if length (ls_slots L) + slots_of x \<le> ls_limit L then Inr (L\<lparr>ls_slots := lua_of x # ls_slots L\<rparr>)
      else Inl Overrun)"
  "clean_array xs \<Longrightarrow> ls_slots L = LTable es # rest \<Longrightarrow> (\<And>j. i \<le> j \<Longrightarrow> LInt j \<notin> fst ` set es) \<Longrightarrow>
   push_array xs i L =
     (if xs = [] \<or> Suc (length rest) + slots_of_array xs \<le> ls_limit L
      then Inr (L\<lparr>ls_slots := LTable (es @ lua_of_array xs i) # rest\<rparr>) else Inl Overrun)"
  "clean_table ts \<Longrightarrow> distinct (List.map fst ts) \<Longrightarrow> ls_slots L = LTable es # rest \<Longrightarrow>
   (\<And>k. k \<in> fst ` set ts \<Longrightarrow> LStr k \<notin> fst ` set es) \<Longrightarrow>
   push_table ts L =
     (if ts = [] \<or> Suc (length rest) + slots_of_table ts \<le> ls_limit L
      then Inr (L\<lparr>ls_slots := LTable (es @ lua_of_table ts) # rest\<rparr>) else Inl Overrun)"
proof (induction x L and xs i L and ts L arbitrary: and es rest and es rest
    rule: push_toml_push_array_push_table.induct)
  case (1 xs L)
  then show ?case by (cases xs) (auto simp: lua_push_cases)
next
  case (2 es L)
  then show ?case by (cases es) (auto simp: lua_push_cases)
next
  case (9 x xs i L es rest)
  let ?fits = "Suc (length rest) + slots_of x \<le> ls_limit L"
  let ?L = "L\<lparr>ls_slots := lua_of x # LTable es # rest\<rparr>"
  have x: "push_toml x L = (if ?fits then Inr ?L else Inl Overrun)" using "9.IH"(1) "9.prems"(1,2) by simp
  have r: "lua_rawseti i ?L = ?L\<lparr>ls_slots := LTable (es @ [(LInt i, lua_of x)]) # rest\<rparr>"
    using "9.prems"(2,3) by (simp add: lua_rawseti_def update_fresh)
  show ?case
  proof (cases ?fits)
    case True
    have "push_array xs (i + 1) (lua_rawseti i ?L) =
        (if xs = [] \<or> Suc (length rest) + slots_of_array xs \<le> ls_limit (lua_rawseti i ?L)
         then Inr (lua_rawseti i ?L\<lparr>ls_slots := LTable ((es @ [(LInt i, lua_of x)]) @ lua_of_array xs (i + 1)) # rest\<rparr>)
         else Inl Overrun)"
      using "9.prems" True x by (intro "9.IH"(2)) (auto simp: r)
    then show ?thesis using True by (cases xs) (auto simp: x r)
  qed (simp add: x)
next
  case (11 k v es L fs rest)
  let ?K = "L\<lparr>ls_slots := LStr k # ls_slots L\<rparr>"
  let ?fits = "Suc (length rest) + Suc (slots_of v) \<le> ls_limit L"
  let ?L = "L\<lparr>ls_slots := lua_of v # LStr k # LTable fs # rest\<rparr>"
  have "0 < slots_of v" by (cases v) simp_all
  have v: "sbind (lua_push (LStr k) L) (\<lambda>L. push_toml v L) = (if ?fits then Inr ?L else Inl Overrun)"
    using "11.IH"(1) "11.prems"(1,3) \<open>0 < slots_of v\<close> by (auto simp: lua_push_cases)
  have r: "lua_settable ?L = ?L\<lparr>ls_slots := LTable (fs @ [(LStr k, lua_of v)]) # rest\<rparr>"
    using "11.prems"(3,4) by (simp add: lua_settable_def update_fresh)
  show ?case
  proof (cases ?fits)
    case True
    then have k: "lua_push (LStr k) L = Inr ?K" using "11.prems"(3) by (simp add: lua_push_cases)
    with v True have v': "push_toml v ?K = Inr ?L" by simp
    have "push_table es (lua_settable ?L) =
        (if es = [] \<or> Suc (length rest) + slots_of_table es \<le> ls_limit (lua_settable ?L)
         then Inr (lua_settable ?L\<lparr>ls_slots := LTable ((fs @ [(LStr k, lua_of v)]) @ lua_of_table es) # rest\<rparr>)
         else Inl Overrun)"
      using "11.prems" k v' by (intro "11.IH"(2)) (auto simp: r)
    then show ?thesis using True by (cases es) (auto simp: k v' r)
  next
    case False
    then have "push_table ((k, v) # es) L = Inl Overrun"
      using v by (cases "lua_push (LStr k) L") auto
    with False show ?thesis by simp
  qed
qed (auto simp: lua_push_cases)

text \<open>
  parsing from Lua gives the Lua value of the parsed document, an array as a sequence from index 1
  and a table under its own keys, when there are slots enough to build it, one for each array and two for
  each table that is being filled.  A syntax error is not reported to Lua: it is thrown as an exception
  of toml11, which is no \<open>std::runtime_error\<close>, and passes the handler by.
\<close>

theorem parse_toml_outcome:
  assumes "check_string_view conv args 1 = Inr src"
    "case parse_str src of Inr x \<Rightarrow> clean x | Inl e \<Rightarrow> (\<exists>w. e = TomlException w)"
  shows "l_parse_toml room parse_str conv args =
    (case parse_str src of
       Inr x \<Rightarrow> if slots_of x \<le> room then Some (Results [lua_of x]) else None
     | Inl e \<Rightarrow> Some (Uncaught e))"
  using assms by (cases "parse_str src") (auto simp: l_parse_toml_def push_toml_lua_of(1))

lemma parse_toml_outcome_witness:
  "l_parse_toml 20 (\<lambda>_. Inr (TTable [(''a'', TArray [TInteger 1, TBoolean True])])) plain_conv [LStr ''a=[1,true]'']
     = Some (Results [LTable [(LStr ''a'', LTable [(LInt 1, LInt 1), (LInt 2, LBool True)])]]) \<and>
   l_parse_toml 20 (\<lambda>_. Inl (TomlException ''bad'')) plain_conv [LStr ''a='']
     = Some (Uncaught (TomlException ''bad''))"
proof
  have arg: "check_string_view plain_conv [LStr s] 1 = Inr s" for s
    by (simp add: check_string_view_def lua_arg_def plain_conv_def)
  show "l_parse_toml 20 (\<lambda>_. Inr (TTable [(''a'', TArray [TInteger 1, TBoolean True])])) plain_conv [LStr ''a=[1,true]'']
     = Some (Results [LTable [(LStr ''a'', LTable [(LInt 1, LInt 1), (LInt 2, LBool True)])]])"
    by (subst parse_toml_outcome [OF arg]) simp_all
  show "l_parse_toml 20 (\<lambda>_. Inl (TomlException ''bad'')) plain_conv [LStr ''a='']
     = Some (Uncaught (TomlException ''bad''))"
    by (subst parse_toml_outcome [OF arg]) simp_all
qed

text \<open>A document of \<open>n\<close> nested arrays, and the stack a C function can use without asking for more.\<close>

fun nested :: "nat \<Rightarrow> toml" where
  "nested 0 = TInteger 0"
| "nested (Suc n) = TArray [nested n]"

definition LUA_MINSTACK :: nat where "LUA_MINSTACK = 20"

lemma nested_simps: "clean (nested n)" "slots_of (nested n) = Suc n"
  by (induction n) simp_all

text \<open>Nested arrays are built as long as there are fewer than slots: with the guaranteed ones, up to 19.\<close>

theorem push_toml_stack:
  "check_string_view conv args 1 = Inr src \<Longrightarrow>
   l_parse_toml room (\<lambda>_. Inr (nested n)) conv args = (if n < room then Some (Results [lua_of (nested n)]) else None)"
  by (simp add: parse_toml_outcome nested_simps Suc_le_eq)

lemma push_toml_stack_witness:
  "l_parse_toml LUA_MINSTACK (\<lambda>_. Inr (nested 20)) plain_conv [LStr ''...''] = None"
proof -
  have "check_string_view plain_conv [LStr ''...''] 1 = Inr ''...''"
    by (simp add: check_string_view_def lua_arg_def plain_conv_def)
  from push_toml_stack [OF this, of LUA_MINSTACK 20] show ?thesis by (simp add: LUA_MINSTACK_def)
qed

section \<open>Lua to TOML\<close>

text \<open>
  \<open>lua_next\<close>: \<open>None\<close> is the Lua error for a key the table does not have, \<open>Some None\<close> the end.
\<close>

fun after_key :: "(lua_value \<times> lua_value) list \<Rightarrow> lua_value \<Rightarrow> (lua_value \<times> lua_value) option option" where
  "after_key [] k = None"
| "after_key (e # es) k = (if fst e = k then Some (case es of [] \<Rightarrow> None | e # _ \<Rightarrow> Some e) else after_key es k)"

definition lua_next :: "(lua_value \<times> lua_value) list \<Rightarrow> lua_value \<Rightarrow> (lua_value \<times> lua_value) option option" where
  "lua_next es k = (if k = LNil then Some (case es of [] \<Rightarrow> None | e # _ \<Rightarrow> Some e) else after_key es k)"

fun lua_isinteger :: "lua_value \<Rightarrow> bool" where
  "lua_isinteger (LInt i) = True"
| "lua_isinteger _ = False"

datatype export_error = Thrown string | LuaThrown string

text \<open>The loop that determines the size of an array: number of entries and largest key.\<close>

fun array_size :: "(lua_value \<times> lua_value) list \<Rightarrow> int \<Rightarrow> int \<Rightarrow> export_error + int \<times> int" where
  "array_size [] entries max_key = Inr (entries, max_key)"
| "array_size ((k, v) # es) entries max_key =
     (case k of
        LInt i \<Rightarrow>
          if i < 1 then Inl (Thrown ''non-positive array index'')
          else array_size es (entries + 1) (if i > max_key then i else max_key)
      | _ \<Rightarrow> Inl (Thrown ''bad array index type''))"

definition lua_geti :: "(lua_value \<times> lua_value) list \<Rightarrow> int \<Rightarrow> lua_value" where
  "lua_geti es i = (case map_of es (LInt i) of None \<Rightarrow> LNil | Some v \<Rightarrow> v)"

definition array_values :: "(lua_value \<times> lua_value) list \<Rightarrow> export_error + lua_value list" where
  "array_values es =
     sbind (array_size es 0 0) (\<lambda>(entries, max_key).
       if entries \<noteq> max_key then Inl (Thrown ''incomplete array'')
       else Inr (List.map (lua_geti es) [1..entries]))"

text \<open>
  The exporting functions with fuel for their calls and loop rounds; \<open>None\<close> is running out of it.
  \<open>lua_tolstring\<close> turns a number into a string where it is on the stack, so the key that \<open>lua_next\<close>
  gets afterwards is the string.  Nothing asks for stack slots here either; they are taken to suffice,
  one for every array and two for every table the value is nested in.
\<close>

fun export_value :: "nat \<Rightarrow> ((lua_value \<times> lua_value) list \<Rightarrow> (lua_value \<times> lua_value) list) \<Rightarrow> lua_conv \<Rightarrow>
    lua_value \<Rightarrow> (export_error + toml) option"
  and export_array :: "nat \<Rightarrow> ((lua_value \<times> lua_value) list \<Rightarrow> (lua_value \<times> lua_value) list) \<Rightarrow> lua_conv \<Rightarrow>
    lua_value list \<Rightarrow> toml list \<Rightarrow> (export_error + toml) option"
  and export_table :: "nat \<Rightarrow> ((lua_value \<times> lua_value) list \<Rightarrow> (lua_value \<times> lua_value) list) \<Rightarrow> lua_conv \<Rightarrow>
    (lua_value \<times> lua_value) list \<Rightarrow> lua_value \<times> lua_value \<Rightarrow> (string \<times> toml) list \<Rightarrow> (export_error + toml) option" where
  "export_value 0 trv conv v = None"
| "export_value (Suc n) trv conv v =
     (case v of
        LBool b \<Rightarrow> Some (Inr (TInteger (if b then 1 else 0)))
      | LInt i \<Rightarrow> Some (Inr (TInteger i))
      | LFloat d \<Rightarrow> Some (Inr (TFloating d))
      | LStr s \<Rightarrow> Some (Inr (TString s))
      | LTable t \<Rightarrow>
          (case trv t of
             [] \<Rightarrow> Some (Inr (TTable []))
           | e # es \<Rightarrow>
               if lua_isinteger (fst e) then
                 (case array_values (e # es) of
                    Inl err \<Rightarrow> Some (Inl err)
                  | Inr vs \<Rightarrow> export_array n trv conv vs [])
               else export_table n trv conv (e # es) e [])
      | _ \<Rightarrow> Some (Inl (Thrown ''unsupported value type'')))"
| "export_array 0 trv conv vs a = None"
| "export_array (Suc n) trv conv vs a =
     (case vs of
        [] \<Rightarrow> Some (Inr (TArray a))
      | v # vs \<Rightarrow>
          (case export_value n trv conv v of
             None \<Rightarrow> None
           | Some (Inl err) \<Rightarrow> Some (Inl err)
           | Some (Inr x) \<Rightarrow> export_array n trv conv vs (a @ [x])))"
| "export_table 0 trv conv es kv t = None"
| "export_table (Suc n) trv conv es kv t =
     (case lua_tostr conv (fst kv) of
        None \<Rightarrow> Some (Inl (Thrown ''non-string table key''))
      | Some str \<Rightarrow>
          (case export_value n trv conv (snd kv) of
             None \<Rightarrow> None
           | Some (Inl err) \<Rightarrow> Some (Inl err)
           | Some (Inr x) \<Rightarrow>
               (case lua_next es (LStr str) of
                  None \<Rightarrow> Some (Inl (LuaThrown ''invalid key to next''))
                | Some None \<Rightarrow> Some (Inr (TTable (if str \<in> fst ` set t then t else t @ [(str, x)])))
                | Some (Some kv) \<Rightarrow> export_table n trv conv es kv (if str \<in> fst ` set t then t else t @ [(str, x)]))))"

declare export_value.simps(2) [simp del] export_array.simps(2) [simp del] export_table.simps(2) [simp del]

definition l_to_toml ::
  "nat \<Rightarrow> ((lua_value \<times> lua_value) list \<Rightarrow> (lua_value \<times> lua_value) list) \<Rightarrow> (toml \<Rightarrow> string + string) \<Rightarrow> lua_conv \<Rightarrow>
   lua_value list \<Rightarrow> lua_outcome option" where
  "l_to_toml fuel trv format conv args =
     map_option (\<lambda>r.
       (case r of
          Inl (Thrown what) \<Rightarrow> Results [LNil, LStr what]
        | Inl (LuaThrown what) \<Rightarrow> Raised (LuaErr (LStr what))
        | Inr value \<Rightarrow>
            (case format value of
               Inl what \<Rightarrow> Results [LNil, LStr what]
             | Inr output \<Rightarrow> Results [LStr output])))
       (export_value fuel trv conv (case lua_arg args 1 of None \<Rightarrow> LNil | Some v \<Rightarrow> v))"

section \<open>The round trip\<close>

lemma export_mono_Suc:
  "export_value n trv conv v = Some r \<Longrightarrow> export_value (Suc n) trv conv v = Some r"
  "export_array n trv conv vs a = Some r \<Longrightarrow> export_array (Suc n) trv conv vs a = Some r"
  "export_table n trv conv es kv t = Some r \<Longrightarrow> export_table (Suc n) trv conv es kv t = Some r"
proof (induction n trv conv v and n trv conv vs a and n trv conv es kv t
    arbitrary: r and r and r rule: export_value_export_array_export_table.induct)
  case (2 n trv conv v)
  note prem = "2.prems" [unfolded export_value.simps(2)]
  show ?case
    by (subst export_value.simps(2), use prem "2.IH" in
        \<open>auto split: lua_value.splits list.splits sum.splits if_splits\<close>)
next
  case (4 n trv conv vs a)
  note prem = "4.prems" [unfolded export_array.simps(2)]
  show ?case
    by (subst export_array.simps(2), use prem "4.IH" in
        \<open>auto split: list.splits option.splits sum.splits\<close>)
next
  case (6 n trv conv es kv t)
  note prem = "6.prems" [unfolded export_table.simps(2)]
  show ?case
  proof (cases "lua_tostr conv (fst kv)")
    case None
    with prem show ?thesis by (simp add: export_table.simps(2))
  next
    case str: (Some str)
    with prem obtain res where res: "export_value n trv conv (snd kv) = Some res"
      by (cases "export_value n trv conv (snd kv)") simp_all
    note res' = "6.IH"(1) [OF str res]
    show ?thesis
    proof (cases res)
      case (Inl e)
      with prem res res' str show ?thesis by (subst export_table.simps(2)) auto
    next
      case x: (Inr x)
      show ?thesis
      proof (cases "\<exists>kv'. lua_next es (LStr str) = Some (Some kv')")
        case True
        then obtain kv' where nx: "lua_next es (LStr str) = Some (Some kv')" ..
        have "export_table n trv conv es kv' (if str \<in> fst ` set t then t else t @ [(str, x)]) = Some r"
          using prem str res x nx by simp
        from "6.IH"(2) [OF str res x nx refl this] show ?thesis
          by (subst export_table.simps(2)) (simp only: str res' x nx option.case sum.case)
      next
        case False
        then have "lua_next es (LStr str) = None \<or> lua_next es (LStr str) = Some None"
          by (metis not_None_eq)
        with prem str res res' x show ?thesis by (elim disjE; subst export_table.simps(2); simp)
      qed
    qed
  qed
qed simp_all

lemma export_mono:
  assumes "n \<le> m"
  shows "export_value n trv conv v = Some r \<Longrightarrow> export_value m trv conv v = Some r"
    "export_array n trv conv vs a = Some r \<Longrightarrow> export_array m trv conv vs a = Some r"
    "export_table n trv conv es kv t = Some r \<Longrightarrow> export_table m trv conv es kv t = Some r"
  using assms by (induction m rule: dec_induct) (blast intro: export_mono_Suc)+

text \<open>
  What exporting the Lua value of a TOML value gives: a boolean becomes an integer, an empty array an
  empty table, and the entries of a table come in another order.
\<close>

inductive exports_to :: "toml \<Rightarrow> toml \<Rightarrow> bool" where
  ex_bool: "exports_to (TBoolean b) (TInteger (if b then 1 else 0))"
| ex_float: "exports_to (TFloating d) (TFloating d)"
| ex_int: "exports_to (TInteger i) (TInteger i)"
| ex_string: "exports_to (TString s) (TString s)"
| ex_empty: "exports_to (TArray []) (TTable [])"
| ex_array: "xs \<noteq> [] \<Longrightarrow> list_all2 exports_to xs ys \<Longrightarrow> exports_to (TArray xs) (TArray ys)"
| ex_table: "list_all2 (\<lambda>p q. fst p = fst q \<and> exports_to (snd p) (snd q)) ts us \<Longrightarrow> mset us' = mset us \<Longrightarrow>
    exports_to (TTable ts) (TTable us')"

lemma lua_of_table_map: "lua_of_table ts = List.map (\<lambda>p. (LStr (fst p), lua_of (snd p))) ts"
  by (induction ts) auto

lemma lua_of_array_zip: "lua_of_array xs i = zip (List.map LInt [i..i + int (length xs) - 1]) (List.map lua_of xs)"
proof (induction xs arbitrary: i)
  case (Cons x xs)
  then show ?case by (subst upto_rec1) (simp_all add: algebra_simps)
qed simp

lemma clean_all: "clean_array xs = list_all clean xs" "clean_table ts = list_all (\<lambda>p. clean (snd p)) ts"
  by (induction xs, simp_all) (induction ts, auto)

lemma mset_map_ordered: "mset es = mset (List.map f ts) \<Longrightarrow> \<exists>ts'. mset ts' = mset ts \<and> es = List.map f ts'"
proof (induction es arbitrary: ts)
  case (Cons e es)
  then have "e \<in> set (List.map f ts)" by (metis list.set_intros(1) set_mset_mset)
  then obtain t where "t \<in> set ts" "e = f t" by auto
  then obtain a b where ts: "ts = a @ t # b" by (meson split_list)
  with Cons.prems \<open>e = f t\<close> have "mset es = mset (List.map f (a @ b))" by simp
  from Cons.IH [OF this] obtain ts' where "mset ts' = mset (a @ b)" "es = List.map f ts'" by blast
  with ts \<open>e = f t\<close> show ?case by (intro exI [of _ "t # ts'"]) simp
qed simp

lemma after_key_split:
  "k \<notin> fst ` set pre \<Longrightarrow> after_key (pre @ (k, v) # post) k = Some (case post of [] \<Rightarrow> None | e # _ \<Rightarrow> Some e)"
  by (induction pre) auto

lemma array_size_max:
  "fst ` set es \<subseteq> LInt ` {1..} \<Longrightarrow> \<exists>M. array_size es a m = Inr (a + int (length es), M) \<and> m \<le> M \<and>
     (\<forall>i. LInt i \<in> fst ` set es \<longrightarrow> i \<le> M) \<and> (M = m \<or> LInt M \<in> fst ` set es)"
proof (induction es arbitrary: a m)
  case (Cons e es)
  then obtain i where i: "fst e = LInt i" "1 \<le> i" by auto
  from Cons.IH [of "a + 1" "if i > m then i else m"] Cons.prems obtain M where
    "array_size es (a + 1) (if i > m then i else m) = Inr (a + 1 + int (length es), M)"
    "(if i > m then i else m) \<le> M" "\<forall>i. LInt i \<in> fst ` set es \<longrightarrow> i \<le> M"
    "M = (if i > m then i else m) \<or> LInt M \<in> fst ` set es" by auto
  with i show ?case
    by (intro exI [of _ M], cases e) (auto simp: algebra_simps split: if_splits)
qed simp

lemma array_values_perm:
  assumes "mset es = mset (lua_of_array xs 1)"
  shows "array_values es = Inr (List.map lua_of xs)"
proof -
  let ?n = "int (length xs)" and ?z = "lua_of_array xs 1"
  have z: "?z = zip (List.map LInt [1..?n]) (List.map lua_of xs)" by (simp add: lua_of_array_zip)
  then have keys: "fst ` set ?z = LInt ` {1..?n}" "distinct (List.map fst ?z)"
    using distinct_map [of LInt "[1..?n]"] by (simp_all flip: set_map add: inj_on_def) auto
  have es: "set es = set ?z" "length es = length xs" using assms
    by (metis set_mset_mset, metis z length_map length_upto length_zip min.idem mset_eq_length nat_int
        add_diff_cancel_left' diff_add_cancel)
  have dist: "distinct (List.map fst es)"
    using keys(2) mset_map [of fst es] mset_map [of fst ?z] assms by (metis mset_eq_imp_distinct_iff)
  have "fst ` set es \<subseteq> LInt ` {1..}" unfolding es(1) keys(1) by auto
  from array_size_max [OF this, of 0 0] obtain M where M: "array_size es 0 0 = Inr (0 + int (length es), M)"
      "0 \<le> M" "\<forall>i. LInt i \<in> fst ` set es \<longrightarrow> i \<le> M" "M = 0 \<or> LInt M \<in> fst ` set es" by blast
  have "M = ?n"
  proof (cases "xs = []")
    case True
    with M es keys show ?thesis by auto
  next
    case False
    then have "?n \<le> M" using M(3) keys(1) es(1) by (auto simp: Suc_le_eq)
    with M(4) keys(1) es(1) False show ?thesis by auto
  qed
  moreover have "lua_geti es i = lua_of (xs ! nat (i - 1))" if "i \<in> set [1..?n]" for i
  proof -
    have "map_of es = map_of ?z" using map_of_inject_set [OF dist keys(2)] es(1) by blast
    moreover have "?z ! nat (i - 1) = (LInt i, lua_of (xs ! nat (i - 1)))" "nat (i - 1) < length ?z"
      using that by (auto simp: z nth_upto)
    then have "map_of ?z (LInt i) = Some (lua_of (xs ! nat (i - 1)))"
      using map_of_eq_Some_iff [OF keys(2)] by (metis nth_mem)
    ultimately show ?thesis by (simp add: lua_geti_def)
  qed
  then have "List.map (lua_geti es) [1..?n] = List.map lua_of xs"
    by (intro nth_equalityI) (auto simp: nth_upto)
  ultimately show ?thesis by (simp add: array_values_def M(1) es(2))
qed

lemma export_array_elements:
  "\<forall>x \<in> set xs. \<exists>n y. export_value n trv conv (lua_of x) = Some (Inr y) \<and> exports_to x y \<Longrightarrow>
   \<exists>n ys. export_array n trv conv (List.map lua_of xs) a = Some (Inr (TArray (a @ ys))) \<and> list_all2 exports_to xs ys"
proof (induction xs arbitrary: a)
  case Nil
  then show ?case by (intro exI [of _ "Suc 0"] exI [of _ "[]"]) (simp add: export_array.simps(2))
next
  case (Cons x xs)
  then obtain n y where n: "export_value n trv conv (lua_of x) = Some (Inr y)" "exports_to x y" by auto
  have "\<forall>x \<in> set xs. \<exists>n y. export_value n trv conv (lua_of x) = Some (Inr y) \<and> exports_to x y"
    using Cons.prems by simp
  from Cons.IH [OF this, of "a @ [y]"] obtain m ys where
    m: "export_array m trv conv (List.map lua_of xs) (a @ [y]) = Some (Inr (TArray (a @ y # ys)))"
      "list_all2 exports_to xs ys" by auto
  have "export_array (Suc (max n m)) trv conv (List.map lua_of (x # xs)) a = Some (Inr (TArray (a @ y # ys)))"
    using export_mono(1) [OF max.cobounded1 n(1)] export_mono(2) [OF max.cobounded2 m(1)]
    by (simp add: export_array.simps(2))
  with n(2) m(2) show ?case by (intro exI conjI) (assumption, simp)
qed

abbreviation lua_entry :: "string \<times> toml \<Rightarrow> lua_value \<times> lua_value" where
  "lua_entry p \<equiv> (LStr (fst p), lua_of (snd p))"

abbreviation entry_exports :: "string \<times> toml \<Rightarrow> string \<times> toml \<Rightarrow> bool" where
  "entry_exports p q \<equiv> fst p = fst q \<and> exports_to (snd p) (snd q)"

lemma export_table_entries:
  assumes "\<And>s. lua_tostr conv (LStr s) = Some s"
  shows "distinct (List.map fst (pre @ p # post)) \<Longrightarrow> fst ` set acc = fst ` set pre \<Longrightarrow>
   \<forall>q \<in> set (p # post). \<exists>n y. export_value n trv conv (lua_of (snd q)) = Some (Inr y) \<and> exports_to (snd q) y \<Longrightarrow>
   \<exists>n us. export_table n trv conv (List.map lua_entry (pre @ p # post)) (lua_entry p) acc = Some (Inr (TTable (acc @ us))) \<and>
     list_all2 entry_exports (p # post) us"
proof (induction post arbitrary: pre p acc)
  case Nil
  then obtain n y where n: "export_value n trv conv (lua_of (snd p)) = Some (Inr y)" "exports_to (snd p) y" by auto
  have "LStr (fst p) \<notin> fst ` set (List.map lua_entry pre)" using Nil.prems(1) by force
  from after_key_split [OF this, of "lua_of (snd p)" "[]"]
  have nx: "lua_next (List.map lua_entry (pre @ [p])) (LStr (fst p)) = Some None" by (simp add: lua_next_def)
  have "fst p \<notin> fst ` set acc" unfolding Nil.prems(2) using Nil.prems(1) by auto
  then have "export_table (Suc n) trv conv (List.map lua_entry (pre @ [p])) (lua_entry p) acc =
      Some (Inr (TTable (acc @ [(fst p, y)])))"
    using n(1) nx assms by (simp add: export_table.simps(2))
  with n(2) show ?case by (intro exI conjI) (assumption, simp)
next
  case (Cons q post)
  then obtain n y where n: "export_value n trv conv (lua_of (snd p)) = Some (Inr y)" "exports_to (snd p) y" by auto
  have "LStr (fst p) \<notin> fst ` set (List.map lua_entry pre)" using Cons.prems(1) by force
  from after_key_split [OF this, of "lua_of (snd p)" "List.map lua_entry (q # post)"]
  have nx: "lua_next (List.map lua_entry (pre @ p # q # post)) (LStr (fst p)) = Some (Some (lua_entry q))"
    by (simp add: lua_next_def)
  have fresh: "fst p \<notin> fst ` set acc" unfolding Cons.prems(2) using Cons.prems(1) by auto
  have "\<exists>m us. export_table m trv conv (List.map lua_entry ((pre @ [p]) @ q # post)) (lua_entry q) (acc @ [(fst p, y)]) =
      Some (Inr (TTable ((acc @ [(fst p, y)]) @ us))) \<and> list_all2 entry_exports (q # post) us"
    using Cons.prems by (intro Cons.IH) auto
  then obtain m us where m: "export_table m trv conv (List.map lua_entry (pre @ p # q # post)) (lua_entry q)
      (acc @ [(fst p, y)]) = Some (Inr (TTable (acc @ (fst p, y) # us)))" "list_all2 entry_exports (q # post) us"
    by auto
  have "export_table (Suc (max n m)) trv conv (List.map lua_entry (pre @ p # q # post)) (lua_entry p) acc =
      Some (Inr (TTable (acc @ (fst p, y) # us)))"
    using export_mono(1) [OF max.cobounded1 n(1)] export_mono(3) [OF max.cobounded2 m(1)] nx fresh assms
    by (simp add: export_table.simps(2) del: List.list.map)
  with n(2) m(2) show ?case by (intro exI conjI) (assumption, simp)
qed

lemma export_lua_of:
  assumes conv: "\<And>s. lua_tostr conv (LStr s) = Some s" and trv: "\<And>es. mset (trv es) = mset es"
  shows "clean x \<Longrightarrow> \<exists>n y. export_value n trv conv (lua_of x) = Some (Inr y) \<and> exports_to x y"
proof (induction x)
  case (TArray xs)
  let ?es = "trv (lua_of_array xs 1)"
  show ?case
  proof (cases xs)
    case Nil
    then have "?es = []" using trv [of "[]"] by simp
    with Nil show ?thesis
      by (intro exI [of _ "Suc 0"] exI [of _ "TTable []"]) (simp add: export_value.simps(2) ex_empty)
  next
    case (Cons x' xs')
    have mset: "mset ?es = mset (lua_of_array xs 1)" by (rule trv)
    then obtain e es where es: "?es = e # es" using Cons by (cases ?es) auto
    have "e \<in> set (lua_of_array xs 1)" using mset es by (metis list.set_intros(1) set_mset_mset)
    then have int: "lua_isinteger (fst e)" by (auto simp: lua_of_array_zip set_zip)
    have "\<exists>n ys. export_array n trv conv (List.map lua_of xs) [] = Some (Inr (TArray ([] @ ys))) \<and> list_all2 exports_to xs ys"
      using TArray by (intro export_array_elements) (auto simp: clean_all list_all_iff)
    then obtain n ys where "export_array n trv conv (List.map lua_of xs) [] = Some (Inr (TArray ys))"
      "list_all2 exports_to xs ys" by auto
    with es int array_values_perm [OF mset] Cons show ?thesis
      by (intro exI [of _ "Suc n"] exI [of _ "TArray ys"]) (simp add: export_value.simps(2) ex_array)
  qed
next
  case (TTable ts)
  from mset_map_ordered [of "trv (lua_of_table ts)" lua_entry ts] trv [of "lua_of_table ts"]
  obtain ts' where ts': "mset ts' = mset ts" "trv (lua_of_table ts) = List.map lua_entry ts'"
    by (auto simp: lua_of_table_map)
  have dist: "distinct (List.map fst ts')"
    using TTable.prems ts'(1) by (metis clean.simps(2) mset_eq_imp_distinct_iff mset_map)
  have ok: "\<forall>q \<in> set ts'. \<exists>n y. export_value n trv conv (lua_of (snd q)) = Some (Inr y) \<and> exports_to (snd q) y"
  proof
    fix q assume "q \<in> set ts'"
    then have "q \<in> set ts" using ts'(1) by (metis set_mset_mset)
    with TTable.prems TTable.IH [of q "snd q"]
    show "\<exists>n y. export_value n trv conv (lua_of (snd q)) = Some (Inr y) \<and> exports_to (snd q) y"
      by (auto simp: clean_all list_all_iff snds.simps)
  qed
  have "\<exists>n us. export_value n trv conv (lua_of (TTable ts)) = Some (Inr (TTable us)) \<and> list_all2 entry_exports ts' us"
  proof (cases ts')
    case Nil
    with ts' show ?thesis by (intro exI [of _ "Suc 0"] exI [of _ "[]"]) (simp add: export_value.simps(2))
  next
    case (Cons p post)
    from export_table_entries [OF conv, of "[]" p post "[]" trv] dist ok Cons
    obtain n us where "export_table n trv conv (List.map lua_entry ts') (lua_entry p) [] = Some (Inr (TTable us))"
      "list_all2 entry_exports ts' us" by auto
    with ts'(2) Cons show ?thesis
      by (intro exI [of _ "Suc n"] exI [of _ us]) (simp add: export_value.simps(2))
  qed
  then obtain n us where n: "export_value n trv conv (lua_of (TTable ts)) = Some (Inr (TTable us))"
    "list_all2 entry_exports ts' us" by blast
  from list_all2_reorder_left_invariance [OF n(2) ts'(1) [symmetric]] obtain us'
    where "list_all2 entry_exports ts us'" "mset us' = mset us" by blast
  then have "exports_to (TTable ts) (TTable us)" using ex_table [of ts us' us] by simp
  with n(1) show ?case by blast
next
  case (TBoolean b)
  have "export_value (Suc 0) trv conv (lua_of (TBoolean b)) = Some (Inr (TInteger (if b then 1 else 0)))"
    by (simp add: export_value.simps(2))
  then show ?case using ex_bool by blast
next
  case (TFloating d)
  have "export_value (Suc 0) trv conv (lua_of (TFloating d)) = Some (Inr (TFloating d))"
    by (simp add: export_value.simps(2))
  then show ?case using ex_float by blast
next
  case (TInteger i)
  have "export_value (Suc 0) trv conv (lua_of (TInteger i)) = Some (Inr (TInteger i))"
    by (simp add: export_value.simps(2))
  then show ?case using ex_int by blast
next
  case (TString s)
  have "export_value (Suc 0) trv conv (lua_of (TString s)) = Some (Inr (TString s))"
    by (simp add: export_value.simps(2))
  then show ?case using ex_string by blast
qed simp

text \<open>
  C37: exporting what parsing produced, where the Lua stack has room for its nesting, terminates, in
  whatever order Lua goes through its tables, and gives
  the document back up to the order of table entries, but for two losses the relation \<open>exports_to\<close> shows:
  a boolean comes back as the integer 0 or 1 and an empty array as an empty table.
\<close>

theorem toml_roundtrip:
  assumes "clean x" "\<And>s. lua_tostr conv (LStr s) = Some s" "\<And>es. mset (trv es) = mset es"
  shows "\<exists>n. \<forall>fuel \<ge> n. \<exists>y. export_value fuel trv conv (lua_of x) = Some (Inr y) \<and> exports_to x y"
proof -
  obtain n y where n: "export_value n trv conv (lua_of x) = Some (Inr y)" "exports_to x y"
    using export_lua_of [OF assms(2,3,1)] by blast
  show ?thesis using export_mono(1) [OF _ n(1)] n(2) by blast
qed

lemma toml_roundtrip_witness:
  "\<exists>n y. export_value n rev plain_conv (lua_of (TTable [(''a'', TBoolean True), (''b'', TArray [TString ''x''])])) =
     Some (Inr y)"
proof -
  have "clean (TTable [(''a'', TBoolean True), (''b'', TArray [TString ''x''])])" by simp
  moreover have "\<And>s. lua_tostr plain_conv (LStr s) = Some s" by (simp add: plain_conv_def)
  ultimately obtain n where "\<forall>fuel \<ge> n. \<exists>y. export_value fuel rev plain_conv
      (lua_of (TTable [(''a'', TBoolean True), (''b'', TArray [TString ''x''])])) = Some (Inr y) \<and>
      exports_to (TTable [(''a'', TBoolean True), (''b'', TArray [TString ''x''])]) y"
    using toml_roundtrip [of _ plain_conv rev] by (metis mset_rev)
  then show ?thesis by blast
qed

text \<open>
  a table with both the key 1 and its text as a key makes the export loop for ever when Lua
  comes to the text first: the number is turned into that text in place, and the traversal goes on
  from there again.  With another number among string keys the traversal ends in a Lua error.
\<close>

theorem export_mixed_keys:
  assumes "lua_tostr conv (LInt 1) = Some s" "lua_tostr conv (LStr s) = Some s" "s \<noteq> k"
    "lua_tostr conv (LStr k) = Some k"
  shows "export_value fuel (\<lambda>es. es) conv (LTable [(LStr s, LInt 0), (LInt 1, LInt 0)]) = None \<and>
    export_value (Suc (Suc (Suc (Suc fuel)))) (\<lambda>es. es) conv (LTable [(LStr k, LInt 0), (LInt 1, LInt 0)]) =
      Some (Inl (LuaThrown ''invalid key to next''))"
proof
  let ?es = "[(LStr s, LInt 0), (LInt 1, LInt 0)]"
  have "export_table n (\<lambda>es. es) conv ?es kv t = None" if "kv \<in> set ?es" for n kv t
    using that
  proof (induction n arbitrary: kv t)
    case (Suc n)
    have "export_value n (\<lambda>es. es) conv (LInt 0) = (if n = 0 then None else Some (Inr (TInteger 0)))"
      by (cases n) (simp_all add: export_value.simps(2))
    with Suc assms(1,2) show ?case
      by (subst export_table.simps(2)) (auto simp: lua_next_def)
  qed simp
  then show "export_value fuel (\<lambda>es. es) conv (LTable ?es) = None"
    by (cases fuel) (simp_all add: export_value.simps(2))
  show "export_value (Suc (Suc (Suc (Suc fuel)))) (\<lambda>es. es) conv (LTable [(LStr k, LInt 0), (LInt 1, LInt 0)]) =
      Some (Inl (LuaThrown ''invalid key to next''))"
    using assms by (simp add: export_table.simps(2) export_value.simps(2) lua_next_def)
qed

definition one_conv :: lua_conv where
  "one_conv = plain_conv\<lparr>lua_tostr := \<lambda>v. if v = LInt 1 then Some ''1'' else plain_tostr v\<rparr>"

lemma export_mixed_keys_witness:
  "export_value 100 (\<lambda>es. es) one_conv (LTable [(LStr ''1'', LInt 0), (LInt 1, LInt 0)]) = None"
  using export_mixed_keys [of one_conv "''1''" "''x''" 100] by (simp add: one_conv_def)

end
