(* ===== verification/TomlScan.thy ===== *)
theory TomlScan
  imports LuaApi "HOL-Library.Sublist"
begin

text \<open>
  The scanner layer of \<open>mytoml/toml11/toml.hpp\<close>: locations in the source, regions, and the scanner
  combinators the grammar is written in.

  A location is the source and the place in it with its line and column.  A scanner moves the location
  over what it recognises.  The loop of \<open>repeat_at_least\<close> does not end when the repeated scanner
  succeeds without moving, so scanning may diverge: its result is an option, \<open>None\<close> for a scan that
  does not return.  Inside of it \<open>None\<close> is the region that is not ok.

  The reference the scanners are compared with is \<open>munch\<close>, the number of characters a scanner takes
  from the front of a string.
\<close>

section \<open>Locations and regions\<close>

record location =
  loc_source :: string
  loc_at :: nat
  loc_line :: nat
  loc_column :: nat

definition start_loc :: "string \<Rightarrow> location" where
  "start_loc src = \<lparr>loc_source = src, loc_at = 0, loc_line = 1, loc_column = 1\<rparr>"

definition loc_eof :: "location \<Rightarrow> bool" where
  "loc_eof loc \<longleftrightarrow> length (loc_source loc) \<le> loc_at loc"

definition current :: "location \<Rightarrow> char" where
  "current loc = (if loc_eof loc then NUL else loc_source loc ! loc_at loc)"

fun advance_impl :: "nat \<Rightarrow> location \<Rightarrow> location" where
  "advance_impl 0 loc = loc"
| "advance_impl (Suc n) loc =
     advance_impl n
       (if loc_source loc ! loc_at loc = LF
        then loc\<lparr>loc_line := loc_line loc + 1, loc_column := 1, loc_at := loc_at loc + 1\<rparr>
        else loc\<lparr>loc_column := loc_column loc + 1, loc_at := loc_at loc + 1\<rparr>)"

definition advance :: "nat \<Rightarrow> location \<Rightarrow> location" where
  "advance n loc =
     (if loc_at loc + n < length (loc_source loc) then advance_impl n loc
      else advance_impl (length (loc_source loc) - loc_at loc) loc)"

text \<open>\<open>retrace\<close> corrects the column only where it goes back over a newline.\<close>

definition calc_column_number :: "location \<Rightarrow> nat" where
  "calc_column_number loc = length (takeWhile (\<lambda>c. c \<noteq> LF) (rev (take (loc_at loc) (loc_source loc)))) + 1"

definition retrace :: "location \<Rightarrow> location" where
  "retrace loc =
     (if loc_at loc = 0 then loc\<lparr>loc_at := 0, loc_line := 1, loc_column := 1\<rparr>
      else
        let loc = loc\<lparr>loc_at := loc_at loc - 1\<rparr> in
        if loc_source loc ! loc_at loc = LF
        then loc\<lparr>loc_line := loc_line loc - 1, loc_column := calc_column_number loc\<rparr>
        else loc)"

record region =
  reg_source :: string
  reg_first :: nat
  reg_last :: nat

definition mk_region :: "location \<Rightarrow> location \<Rightarrow> region" where
  "mk_region first loc = \<lparr>reg_source = loc_source first, reg_first = loc_at first, reg_last = loc_at loc\<rparr>"

definition reg_string :: "region \<Rightarrow> string" where
  "reg_string reg = take (reg_last reg - reg_first reg) (drop (reg_first reg) (reg_source reg))"

definition reg_length :: "region \<Rightarrow> nat" where
  "reg_length reg = reg_last reg - reg_first reg"

section \<open>Scanners\<close>

datatype scanner =
    character char
  | character_either string
  | character_in_range char char
  | literal string
  | sequence "scanner list"
  | either "scanner list"
  | repeat_exact nat scanner
  | repeat_at_least nat scanner
  | maybe scanner
  | non_ascii_key_char

type_synonym scan_result = "(region option \<times> location) option"

definition scan_char :: "(char \<Rightarrow> bool) \<Rightarrow> location \<Rightarrow> scan_result" where
  "scan_char P loc =
     (if loc_eof loc then Some (None, loc)
      else if P (current loc) then
        let first = loc; loc = advance 1 loc in Some (Some (mk_region first loc), loc)
      else Some (None, loc))"

fun scan_literal :: "string \<Rightarrow> location \<Rightarrow> location option" where
  "scan_literal [] loc = Some loc"
| "scan_literal (c # cs) loc =
     (if loc_eof loc \<or> c \<noteq> current loc then None else scan_literal cs (advance 1 loc))"

text \<open>The loops of the combinators, over the scanning function of the scanner they repeat.\<close>

fun repeat_exactly :: "nat \<Rightarrow> (location \<Rightarrow> scan_result) \<Rightarrow> location \<Rightarrow> location option option" where
  "repeat_exactly 0 f loc = Some (Some loc)"
| "repeat_exactly (Suc n) f loc =
     (case f loc of
        None \<Rightarrow> None
      | Some (None, _) \<Rightarrow> Some None
      | Some (Some reg, loc) \<Rightarrow> repeat_exactly n f loc)"

partial_function (option) repeat_more :: "(location \<Rightarrow> scan_result) \<Rightarrow> location \<Rightarrow> location option" where
  "repeat_more f loc =
     (if loc_eof loc then Some loc
      else
        let checkpoint = loc in
        case f loc of
          None \<Rightarrow> None
        | Some (None, _) \<Rightarrow> Some checkpoint
        | Some (Some reg, loc) \<Rightarrow> repeat_more f loc)"

declare repeat_more.simps [code]

text \<open>A code point in UTF-8; \<open>0xFFFFFFFF\<close> for what is none.\<close>

definition low_bits :: "nat \<Rightarrow> char \<Rightarrow> u32" where
  "low_bits n b = ucast (uint8 b AND mask n)"

definition read_utf8 :: "location \<Rightarrow> u32 \<times> location" where
  "read_utf8 loc =
     (let b1 = current loc; loc = advance 1 loc in
      if uint8 b1 < 0x80 then (ucast (uint8 b1), loc)
      else if drop_bit 5 (uint8 b1) = 6 then
        let b2 = current loc; loc = advance 1 loc;
            codep = push_bit 6 (low_bits 5 b1) + low_bits 6 b2 in
        if codep < 0x80 then (0xFFFFFFFF, loc) else (codep, loc)
      else if drop_bit 4 (uint8 b1) = 14 then
        let b2 = current loc; loc = advance 1 loc in
        if loc_eof loc then (0xFFFFFFFF, loc) else
        let b3 = current loc; loc = advance 1 loc;
            codep = push_bit 12 (low_bits 4 b1) + push_bit 6 (low_bits 6 b2) + low_bits 6 b3 in
        if codep < 0x800 then (0xFFFFFFFF, loc) else (codep, loc)
      else if drop_bit 3 (uint8 b1) = 30 then
        let b2 = current loc; loc = advance 1 loc in
        if loc_eof loc then (0xFFFFFFFF, loc) else
        let b3 = current loc; loc = advance 1 loc in
        if loc_eof loc then (0xFFFFFFFF, loc) else
        let b4 = current loc; loc = advance 1 loc;
            codep = push_bit 18 (low_bits 3 b1) + push_bit 12 (low_bits 6 b2) +
              push_bit 6 (low_bits 6 b3) + low_bits 6 b4 in
        if codep < 0x10000 then (0xFFFFFFFF, loc) else (codep, loc)
      else (0xFFFFFFFF, loc))"

definition key_code_point :: "u32 \<Rightarrow> bool" where
  "key_code_point cp \<longleftrightarrow>
     cp = 0xB2 \<or> cp = 0xB3 \<or> cp = 0xB9 \<or> (0xBC \<le> cp \<and> cp \<le> 0xBE) \<or>
     (0xC0 \<le> cp \<and> cp \<le> 0xD6) \<or> (0xD8 \<le> cp \<and> cp \<le> 0xF6) \<or> (0xF8 \<le> cp \<and> cp \<le> 0x37D) \<or>
     (0x37F \<le> cp \<and> cp \<le> 0x1FFF) \<or> (0x200C \<le> cp \<and> cp \<le> 0x200D) \<or> (0x203F \<le> cp \<and> cp \<le> 0x2040) \<or>
     (0x2070 \<le> cp \<and> cp \<le> 0x218F) \<or> (0x2460 \<le> cp \<and> cp \<le> 0x24FF) \<or> (0x2C00 \<le> cp \<and> cp \<le> 0x2FEF) \<or>
     (0x3001 \<le> cp \<and> cp \<le> 0xD7FF) \<or> (0xF900 \<le> cp \<and> cp \<le> 0xFDCF) \<or> (0xFDF0 \<le> cp \<and> cp \<le> 0xFFFD) \<or>
     (0x10000 \<le> cp \<and> cp \<le> 0xEFFFF)"

definition scan_key_char :: "location \<Rightarrow> scan_result" where
  "scan_key_char loc =
     (if loc_eof loc then Some (None, loc)
      else
        let first = loc; (cp, loc) = read_utf8 loc in
        if cp = 0xFFFFFFFF then Some (None, loc)
        else if key_code_point cp then Some (Some (mk_region first loc), loc)
        else Some (None, first))"

fun toml_scan :: "scanner \<Rightarrow> location \<Rightarrow> scan_result"
  and scan_sequence :: "scanner list \<Rightarrow> location \<Rightarrow> location option option"
  and scan_either :: "scanner list \<Rightarrow> location \<Rightarrow> scan_result" where
  "toml_scan (character c) loc = scan_char (\<lambda>d. d = c) loc"
| "toml_scan (character_either cs) loc = scan_char (\<lambda>d. d \<in> set cs) loc"
| "toml_scan (character_in_range a b) loc = scan_char (\<lambda>d. uint8 a \<le> uint8 d \<and> uint8 d \<le> uint8 b) loc"
| "toml_scan (literal cs) loc =
     (case scan_literal cs loc of
        None \<Rightarrow> Some (None, loc)
      | Some loc' \<Rightarrow> Some (Some (mk_region loc loc'), loc'))"
| "toml_scan (sequence ss) loc =
     (case scan_sequence ss loc of
        None \<Rightarrow> None
      | Some None \<Rightarrow> Some (None, loc)
      | Some (Some loc') \<Rightarrow> Some (Some (mk_region loc loc'), loc'))"
| "toml_scan (either ss) loc = scan_either ss loc"
| "toml_scan (repeat_exact n s) loc =
     (case repeat_exactly n (toml_scan s) loc of
        None \<Rightarrow> None
      | Some None \<Rightarrow> Some (None, loc)
      | Some (Some loc') \<Rightarrow> Some (Some (mk_region loc loc'), loc'))"
| "toml_scan (repeat_at_least n s) loc =
     (case repeat_exactly n (toml_scan s) loc of
        None \<Rightarrow> None
      | Some None \<Rightarrow> Some (None, loc)
      | Some (Some loc') \<Rightarrow>
          (case repeat_more (toml_scan s) loc' of
             None \<Rightarrow> None
           | Some loc' \<Rightarrow> Some (Some (mk_region loc loc'), loc')))"
| "toml_scan (maybe s) loc =
     (case toml_scan s loc of
        None \<Rightarrow> None
      | Some (None, _) \<Rightarrow> Some (Some (mk_region loc loc), loc)
      | Some (Some reg, loc') \<Rightarrow> Some (Some (mk_region loc loc'), loc'))"
| "toml_scan non_ascii_key_char loc = scan_key_char loc"
| "scan_sequence [] loc = Some (Some loc)"
| "scan_sequence (s # ss) loc =
     (case toml_scan s loc of
        None \<Rightarrow> None
      | Some (None, _) \<Rightarrow> Some None
      | Some (Some reg, loc) \<Rightarrow> scan_sequence ss loc)"
| "scan_either [] loc = Some (None, loc)"
| "scan_either (s # ss) loc =
     (case toml_scan s loc of
        None \<Rightarrow> None
      | Some (Some reg, loc) \<Rightarrow> Some (Some reg, loc)
      | Some (None, loc) \<Rightarrow> scan_either ss loc)"

section \<open>Moving through the source\<close>

definition loc_ok :: "location \<Rightarrow> bool" where
  "loc_ok loc \<longleftrightarrow> loc_at loc \<le> length (loc_source loc)"

definition loc_rest :: "location \<Rightarrow> string" where
  "loc_rest loc = drop (loc_at loc) (loc_source loc)"

named_theorems loc_simps \<open>locations and their distance to the end of the source\<close>

lemma start_loc_simps [loc_simps, simp]:
  "loc_source (start_loc s) = s" "loc_at (start_loc s) = 0" "loc_ok (start_loc s)" "loc_rest (start_loc s) = s"
  by (simp_all add: start_loc_def loc_ok_def loc_rest_def)

lemma advance_impl_simps [loc_simps]:
  "loc_source (advance_impl n loc) = loc_source loc"
  "loc_at (advance_impl n loc) = loc_at loc + n"
  by (induction n loc rule: advance_impl.induct) auto

lemma advance_impl_add: "advance_impl (m + n) loc = advance_impl n (advance_impl m loc)"
  by (induction m loc rule: advance_impl.induct) auto

lemma advance_impl_rest: "loc_ok loc \<Longrightarrow> advance n loc = advance_impl (min n (length (loc_rest loc))) loc"
  by (cases "loc_at loc + n < length (loc_source loc)")
    (simp_all add: advance_def loc_ok_def loc_rest_def min.absorb1 min.absorb2)

lemma advance_0 [simp]: "loc_ok loc \<Longrightarrow> advance 0 loc = loc"
  by (simp add: advance_impl_rest)

lemma advance_source [loc_simps, simp]: "loc_source (advance n loc) = loc_source loc"
  by (simp add: advance_def loc_simps)

lemma advance_at [loc_simps]: "loc_ok loc \<Longrightarrow> loc_at (advance n loc) = loc_at loc + min n (length (loc_rest loc))"
  by (simp add: advance_impl_rest loc_simps)

lemma advance_ok [loc_simps, simp]: "loc_ok loc \<Longrightarrow> loc_ok (advance n loc)"
  by (auto simp: loc_ok_def loc_simps advance_at loc_rest_def)

lemma advance_rest [loc_simps, simp]: "loc_ok loc \<Longrightarrow> loc_rest (advance n loc) = drop n (loc_rest loc)"
  unfolding loc_rest_def [of "advance n loc"] advance_source
  by (cases "n \<le> length (loc_rest loc)") (auto simp: advance_at loc_rest_def add.commute)

lemma advance_advance [simp]: "loc_ok loc \<Longrightarrow> advance n (advance m loc) = advance (m + n) loc"
proof -
  assume ok: "loc_ok loc"
  let ?L = "length (loc_rest loc)"
  have "advance n (advance m loc) = advance_impl (min n (?L - m)) (advance_impl (min m ?L) loc)"
    using advance_impl_rest [of "advance m loc" n] advance_ok [OF ok, of m] advance_rest [OF ok, of m]
    by (simp add: advance_impl_rest [OF ok, symmetric])
  moreover have "min m ?L + min n (?L - m) = min (m + n) ?L" by simp
  ultimately show ?thesis using ok advance_impl_rest [of loc "m + n"]
    by (simp flip: advance_impl_add)
qed

lemma loc_eof_rest [loc_simps]: "loc_eof loc \<longleftrightarrow> loc_rest loc = []"
  by (simp add: loc_eof_def loc_rest_def)

lemma current_rest [loc_simps]: "current loc = (case loc_rest loc of [] \<Rightarrow> NUL | c # _ \<Rightarrow> c)"
  by (auto simp: current_def loc_eof_def loc_rest_def Cons_nth_drop_Suc [symmetric])

lemma reg_string_advance [simp]:
  "loc_ok loc \<Longrightarrow> reg_string (mk_region loc (advance n loc)) = take n (loc_rest loc)"
  by (simp add: reg_string_def mk_region_def advance_at) (simp add: loc_rest_def min_def)

lemma reg_length_advance [simp]:
  "loc_ok loc \<Longrightarrow> reg_length (mk_region loc (advance n loc)) = min n (length (loc_rest loc))"
  by (simp add: reg_length_def mk_region_def advance_at)

section \<open>What a scanner takes\<close>

text \<open>
  The reference: how many characters a scanner takes from the front of a string, if it matches.
  Alternatives are tried in order and repetitions take all they can.
\<close>

fun munch_times :: "nat \<Rightarrow> (string \<Rightarrow> nat option) \<Rightarrow> string \<Rightarrow> nat option" where
  "munch_times 0 f xs = Some 0"
| "munch_times (Suc n) f xs =
     (case f xs of None \<Rightarrow> None | Some k \<Rightarrow> map_option (\<lambda>m. k + m) (munch_times n f (drop k xs)))"

function munch_many :: "(string \<Rightarrow> nat option) \<Rightarrow> string \<Rightarrow> nat" where
  "munch_many f xs =
     (if xs = [] then 0
      else case f xs of
        None \<Rightarrow> 0
      | Some 0 \<Rightarrow> 0
      | Some (Suc k) \<Rightarrow> Suc k + munch_many f (drop (Suc k) xs))"
  by pat_completeness auto
termination by (relation "measure (length \<circ> snd)") auto

declare munch_many.simps [simp del]

definition munch_char :: "(char \<Rightarrow> bool) \<Rightarrow> string \<Rightarrow> nat option" where
  "munch_char P xs = (case xs of [] \<Rightarrow> None | c # _ \<Rightarrow> if P c then Some 1 else None)"

lemma munch_char_simps [simp]:
  "munch_char P [] = None"
  "munch_char P (c # cs) = (if P c then Some (Suc 0) else None)"
  by (simp_all add: munch_char_def)

fun munch :: "scanner \<Rightarrow> string \<Rightarrow> nat option"
  and munch_sequence :: "scanner list \<Rightarrow> string \<Rightarrow> nat option"
  and munch_either :: "scanner list \<Rightarrow> string \<Rightarrow> nat option" where
  "munch (character c) xs = munch_char (\<lambda>d. d = c) xs"
| "munch (character_either cs) xs = munch_char (\<lambda>d. d \<in> set cs) xs"
| "munch (character_in_range a b) xs = munch_char (\<lambda>d. uint8 a \<le> uint8 d \<and> uint8 d \<le> uint8 b) xs"
| "munch (literal cs) xs = (if prefix cs xs then Some (length cs) else None)"
| "munch (sequence ss) xs = munch_sequence ss xs"
| "munch (either ss) xs = munch_either ss xs"
| "munch (repeat_exact n s) xs = munch_times n (munch s) xs"
| "munch (repeat_at_least n s) xs =
     map_option (\<lambda>k. k + munch_many (munch s) (drop k xs)) (munch_times n (munch s) xs)"
| "munch (maybe s) xs = Some (case munch s xs of None \<Rightarrow> 0 | Some k \<Rightarrow> k)"
| "munch non_ascii_key_char xs = None"
| "munch_sequence [] xs = Some 0"
| "munch_sequence (s # ss) xs =
     (case munch s xs of None \<Rightarrow> None | Some k \<Rightarrow> map_option (\<lambda>m. k + m) (munch_sequence ss (drop k xs)))"
| "munch_either [] xs = None"
| "munch_either (s # ss) xs = (case munch s xs of None \<Rightarrow> munch_either ss xs | Some k \<Rightarrow> Some k)"

text \<open>
  A scanner that always consumes something when it succeeds, and one all of whose repetitions repeat
  such a scanner.  The scanner for the code points of bare keys, an extension, leaves the location
  after bytes that are not UTF-8 and has no place here.
\<close>

fun consumes :: "scanner \<Rightarrow> bool" where
  "consumes (literal cs) = (cs \<noteq> [])"
| "consumes (sequence ss) = list_ex consumes ss"
| "consumes (either ss) = list_all consumes ss"
| "consumes (repeat_exact n s) = (0 < n \<and> consumes s)"
| "consumes (repeat_at_least n s) = (0 < n \<and> consumes s)"
| "consumes (maybe s) = False"
| "consumes _ = True"

fun well_behaved :: "scanner \<Rightarrow> bool" where
  "well_behaved (sequence ss) = list_all well_behaved ss"
| "well_behaved (either ss) = list_all well_behaved ss"
| "well_behaved (repeat_exact n s) = well_behaved s"
| "well_behaved (repeat_at_least n s) = (consumes s \<and> well_behaved s)"
| "well_behaved (maybe s) = well_behaved s"
| "well_behaved non_ascii_key_char = False"
| "well_behaved _ = True"

lemma munch_times_le:
  assumes "\<And>xs k. f xs = Some k \<Longrightarrow> k \<le> length xs"
  shows "munch_times n f xs = Some k \<Longrightarrow> k \<le> length xs"
proof (induction n arbitrary: xs k)
  case (Suc n)
  then obtain i j where "f xs = Some i" "munch_times n f (drop i xs) = Some j" "k = i + j"
    by (auto split: option.splits)
  with Suc.IH [of "drop i xs" j] assms [of xs i] show ?case by simp
qed simp

lemma munch_many_le:
  assumes "\<And>xs k. f xs = Some k \<Longrightarrow> k \<le> length xs"
  shows "munch_many f xs \<le> length xs"
proof (induction xs rule: length_induct)
  case (1 xs)
  show ?case
  proof (cases "xs = [] \<or> f xs = None \<or> f xs = Some 0")
    case True
    then show ?thesis by (auto simp: munch_many.simps [of f xs])
  next
    case False
    then obtain k where k: "f xs = Some (Suc k)" by (metis not0_implies_Suc not_None_eq)
    have "length (drop (Suc k) xs) < length xs" using False by simp
    with 1 have "munch_many f (drop (Suc k) xs) \<le> length (drop (Suc k) xs)" by blast
    with False k assms [of xs "Suc k"] show ?thesis by (simp add: munch_many.simps [of f xs])
  qed
qed

lemma munch_le:
  "munch s xs = Some k \<Longrightarrow> k \<le> length xs"
  "munch_sequence ss xs = Some k \<Longrightarrow> k \<le> length xs"
  "munch_either ss xs = Some k \<Longrightarrow> k \<le> length xs"
proof (induction s xs and ss xs and ss xs arbitrary: k and k and k
    rule: munch_munch_sequence_munch_either.induct)
  case (7 n s xs)
  then show ?case using munch_times_le [of "munch s" n xs k] by simp
next
  case (8 n s xs)
  then obtain i where i: "munch_times n (munch s) xs = Some i" "k = i + munch_many (munch s) (drop i xs)" by auto
  show ?case
    using munch_times_le [of "munch s", OF _ i(1)] munch_many_le [of "munch s" "drop i xs"] 8(1,2) i(2) by force
next
  case (12 s ss xs)
  then obtain i j where "munch s xs = Some i" "munch_sequence ss (drop i xs) = Some j" "k = i + j"
    by (auto split: option.splits)
  with 12 show ?case by (metis add_le_mono1 diff_add length_drop nat_add_left_cancel_le le_add_diff_inverse)
qed (auto simp: munch_char_def prefix_length_le split: list.splits if_splits option.splits)

lemma consumes_munch:
  "munch s xs = Some k \<Longrightarrow> consumes s \<Longrightarrow> well_behaved s \<Longrightarrow> 0 < k"
  "munch_sequence ss xs = Some k \<Longrightarrow> list_ex consumes ss \<Longrightarrow> list_all well_behaved ss \<Longrightarrow> 0 < k"
  "munch_either ss xs = Some k \<Longrightarrow> list_all consumes ss \<Longrightarrow> list_all well_behaved ss \<Longrightarrow> 0 < k"
proof (induction s xs and ss xs and ss xs arbitrary: k and k and k
    rule: munch_munch_sequence_munch_either.induct)
  case (7 n s xs)
  then show ?case by (cases n) (auto split: option.splits)
next
  case (8 n s xs)
  then show ?case by (cases n) (fastforce split: option.splits)+
next
  case (12 s ss xs)
  then obtain i j where "munch s xs = Some i" "munch_sequence ss (drop i xs) = Some j" "k = i + j"
    by (auto split: option.splits)
  with 12 show ?case by auto
qed (auto simp: munch_char_def split: list.splits if_splits option.splits)

section \<open>Scanning is munching\<close>

text \<open>The result of a scan that takes \<open>k\<close> characters, or none.\<close>

definition scanned :: "location \<Rightarrow> nat option \<Rightarrow> region option \<times> location" where
  "scanned loc r =
     (case r of None \<Rightarrow> (None, loc) | Some k \<Rightarrow> (Some (mk_region loc (advance k loc)), advance k loc))"

lemma scanned_simps [simp]:
  "scanned loc None = (None, loc)"
  "scanned loc (Some k) = (Some (mk_region loc (advance k loc)), advance k loc)"
  by (simp_all add: scanned_def)

lemma scan_char_munch: "loc_ok loc \<Longrightarrow> scan_char P loc = Some (scanned loc (munch_char P (loc_rest loc)))"
  by (auto simp: scan_char_def munch_char_def loc_eof_rest current_rest Let_def split: list.splits)

lemma scan_literal_munch:
  "loc_ok loc \<Longrightarrow>
   scan_literal cs loc = (if prefix cs (loc_rest loc) then Some (advance (length cs) loc) else None)"
proof (induction cs arbitrary: loc)
  case (Cons c cs)
  then show ?case
    by (cases "loc_rest loc") (auto simp: loc_eof_rest current_rest Let_def)
qed simp

lemma repeat_exactly_munch:
  assumes "\<And>loc. loc_ok loc \<Longrightarrow> f loc = Some (scanned loc (g (loc_rest loc)))"
  shows "loc_ok loc \<Longrightarrow>
    repeat_exactly n f loc = Some (map_option (\<lambda>k. advance k loc) (munch_times n g (loc_rest loc)))"
proof (induction n arbitrary: loc)
  case (Suc n)
  then show ?case
    by (cases "g (loc_rest loc)") (auto simp: assms option.map_comp o_def)
qed simp

lemma repeat_more_munch:
  assumes f: "\<And>loc. loc_ok loc \<Longrightarrow> f loc = Some (scanned loc (g (loc_rest loc)))"
    and g: "\<And>xs k. g xs = Some k \<Longrightarrow> 0 < k"
  shows "loc_ok loc \<Longrightarrow> repeat_more f loc = Some (advance (munch_many g (loc_rest loc)) loc)"
proof (induction "loc_rest loc" arbitrary: loc rule: length_induct)
  case (1 loc)
  show ?case
  proof (cases "loc_rest loc = [] \<or> g (loc_rest loc) = None")
    case True
    then show ?thesis using "1.prems" f
      by (auto simp: repeat_more.simps [of f loc] munch_many.simps [of g "loc_rest loc"] loc_eof_rest)
  next
    case False
    then obtain k where k: "g (loc_rest loc) = Some (Suc k)" using g by (metis gr0_implies_Suc option.exhaust)
    have less: "length (loc_rest (advance (Suc k) loc)) < length (loc_rest loc)"
      using False "1.prems" by simp
    have "repeat_more f (advance (Suc k) loc) =
        Some (advance (munch_many g (loc_rest (advance (Suc k) loc))) (advance (Suc k) loc))"
      using "1.hyps" less "1.prems" by (metis advance_ok)
    then show ?thesis using False "1.prems" k f
      by (simp add: repeat_more.simps [of f loc] munch_many.simps [of g "loc_rest loc"] loc_eof_rest)
  qed
qed

lemma scan_munch:
  "well_behaved s \<Longrightarrow> loc_ok loc \<Longrightarrow> toml_scan s loc = Some (scanned loc (munch s (loc_rest loc)))"
  "list_all well_behaved ss \<Longrightarrow> loc_ok loc \<Longrightarrow>
   scan_sequence ss loc = Some (map_option (\<lambda>k. advance k loc) (munch_sequence ss (loc_rest loc)))"
  "list_all well_behaved ss \<Longrightarrow> loc_ok loc \<Longrightarrow>
   scan_either ss loc = Some (scanned loc (munch_either ss (loc_rest loc)))"
proof (induction s loc and ss loc and ss loc rule: toml_scan_scan_sequence_scan_either.induct)
  case (5 ss loc)
  then show ?case by (cases "munch_sequence ss (loc_rest loc)") auto
next
  case (7 n s loc)
  then have "repeat_exactly n (toml_scan s) loc =
      Some (map_option (\<lambda>k. advance k loc) (munch_times n (munch s) (loc_rest loc)))"
    by (intro repeat_exactly_munch) auto
  then show ?case by (cases "munch_times n (munch s) (loc_rest loc)") auto
next
  case (8 n s loc)
  then have "repeat_exactly n (toml_scan s) loc =
      Some (map_option (\<lambda>k. advance k loc) (munch_times n (munch s) (loc_rest loc)))"
    by (intro repeat_exactly_munch) auto
  moreover have "repeat_more (toml_scan s) (advance k loc) =
      Some (advance (munch_many (munch s) (drop k (loc_rest loc))) (advance k loc))" for k
    using 8 consumes_munch(1) [of s] repeat_more_munch [of "toml_scan s" "munch s" "advance k loc"] by auto
  ultimately show ?case using 8 by (cases "munch_times n (munch s) (loc_rest loc)") auto
next
  case (9 s loc)
  then show ?case by (cases "munch s (loc_rest loc)") auto
next
  case (12 s ss loc)
  then show ?case by (cases "munch s (loc_rest loc)") (auto simp: option.map_comp o_def)
next
  case (14 s ss loc)
  then show ?case by (cases "munch s (loc_rest loc)") auto
qed (auto simp: scan_char_munch scan_literal_munch)

section \<open>The language of a scanner\<close>

text \<open>What a scanner means as a regular expression, with all ways to match.\<close>

definition conc :: "string set \<Rightarrow> string set \<Rightarrow> string set" where
  "conc A B = {xs @ ys | xs ys. xs \<in> A \<and> ys \<in> B}"

fun power_lang :: "nat \<Rightarrow> string set \<Rightarrow> string set" where
  "power_lang 0 A = {[]}"
| "power_lang (Suc n) A = conc A (power_lang n A)"

fun lang :: "scanner \<Rightarrow> string set"
  and lang_sequence :: "scanner list \<Rightarrow> string set" where
  "lang (character c) = {[c]}"
| "lang (character_either cs) = {[c] | c. c \<in> set cs}"
| "lang (character_in_range a b) = {[c] | c. uint8 a \<le> uint8 c \<and> uint8 c \<le> uint8 b}"
| "lang (literal cs) = {cs}"
| "lang (sequence ss) = lang_sequence ss"
| "lang (either ss) = (\<Union>s \<in> set ss. lang s)"
| "lang (repeat_exact n s) = power_lang n (lang s)"
| "lang (repeat_at_least n s) = (\<Union>m. power_lang (n + m) (lang s))"
| "lang (maybe s) = insert [] (lang s)"
| "lang non_ascii_key_char = {}"
| "lang_sequence [] = {[]}"
| "lang_sequence (s # ss) = conc (lang s) (lang_sequence ss)"

lemma concI: "xs \<in> A \<Longrightarrow> ys \<in> B \<Longrightarrow> xs @ ys \<in> conc A B"
  by (auto simp: conc_def)

lemma power_lang_add: "power_lang (m + n) A = conc (power_lang m A) (power_lang n A)"
proof (induction m)
  case (Suc m)
  then show ?case by (auto simp: conc_def) (metis append_assoc)+
qed (auto simp: conc_def)

lemma take_split: "k \<le> length xs \<Longrightarrow> take (k + m) xs = take k xs @ take m (drop k xs)"
  by (simp add: take_add)

lemma munch_times_lang:
  assumes "\<And>xs k. f xs = Some k \<Longrightarrow> k \<le> length xs \<and> take k xs \<in> A"
  shows "munch_times n f xs = Some k \<Longrightarrow> take k xs \<in> power_lang n A"
proof (induction n arbitrary: xs k)
  case (Suc n)
  then obtain i j where "f xs = Some i" "munch_times n f (drop i xs) = Some j" "k = i + j"
    by (auto split: option.splits)
  with Suc.IH [of "drop i xs" j] assms [of xs i] show ?case by (simp add: take_split concI)
qed simp

lemma munch_many_lang:
  assumes f: "\<And>xs k. f xs = Some k \<Longrightarrow> k \<le> length xs \<and> take k xs \<in> A"
  shows "\<exists>m. take (munch_many f xs) xs \<in> power_lang m A"
proof (induction xs rule: length_induct)
  case (1 xs)
  show ?case
  proof (cases "xs = [] \<or> f xs = None \<or> f xs = Some 0")
    case True
    then have "take (munch_many f xs) xs \<in> power_lang 0 A" by (auto simp: munch_many.simps [of f xs])
    then show ?thesis by blast
  next
    case False
    then obtain k where k: "f xs = Some (Suc k)" by (metis not0_implies_Suc not_None_eq)
    have "length (drop (Suc k) xs) < length xs" using False by simp
    with 1 obtain m where m: "take (munch_many f (drop (Suc k) xs)) (drop (Suc k) xs) \<in> power_lang m A" by blast
    have "munch_many f xs = Suc k + munch_many f (drop (Suc k) xs)"
      using False k by (simp add: munch_many.simps [of f xs])
    then have "take (munch_many f xs) xs \<in> power_lang (Suc m) A"
      using concI [OF conjunct2 [OF f [OF k]] m] conjunct1 [OF f [OF k]] by (simp only: take_split power_lang.simps)
    then show ?thesis by blast
  qed
qed

lemma munch_lang:
  "munch s xs = Some k \<Longrightarrow> take k xs \<in> lang s"
  "munch_sequence ss xs = Some k \<Longrightarrow> take k xs \<in> lang_sequence ss"
  "munch_either ss xs = Some k \<Longrightarrow> take k xs \<in> (\<Union>s \<in> set ss. lang s)"
proof (induction s xs and ss xs and ss xs arbitrary: k and k and k
    rule: munch_munch_sequence_munch_either.induct)
  case (7 n s xs)
  then show ?case using munch_times_lang [of "munch s" "lang s" n xs k] munch_le(1) by auto
next
  case (8 n s xs)
  then obtain i where i: "munch_times n (munch s) xs = Some i" "k = i + munch_many (munch s) (drop i xs)" by auto
  have f: "\<And>xs k. munch s xs = Some k \<Longrightarrow> k \<le> length xs \<and> take k xs \<in> lang s" using 8(1) munch_le(1) by blast
  from munch_times_le [OF conjunct1 [OF f] i(1)] have "i \<le> length xs" by blast
  moreover obtain m where "take (munch_many (munch s) (drop i xs)) (drop i xs) \<in> power_lang m (lang s)"
    using munch_many_lang [OF f] by blast
  ultimately have "take k xs \<in> power_lang (n + m) (lang s)"
    using munch_times_lang [OF f i(1)] by (simp add: i(2) take_split power_lang_add concI)
  then show ?case by auto
next
  case (12 s ss xs)
  then obtain i j where "munch s xs = Some i" "munch_sequence ss (drop i xs) = Some j" "k = i + j"
    by (auto split: option.splits)
  with 12 munch_le(1) [of s xs i] show ?case by (simp add: take_split concI)
qed (auto simp: munch_char_def split: list.splits if_splits option.splits elim!: prefixE)

end
