(* ===== verification/TomlSyntax.thy ===== *)
theory TomlSyntax
  imports TomlScan
begin

text \<open>
  The grammar of \<open>mytoml/toml11/toml.hpp\<close>: \<open>spec\<close> with the features of a TOML version, and the
  scanners of namespace \<open>syntax\<close>, under the names they have there with the prefix \<open>sx_\<close>.  A scanner
  is built once and cached in the source; here it is a function of the \<open>spec\<close>.
\<close>

record spec =
  version :: "nat \<times> nat \<times> nat"
  v1_1_0_allow_newlines_in_inline_tables :: bool
  v1_1_0_allow_trailing_comma_in_inline_tables :: bool
  v1_1_0_add_escape_sequence_e :: bool
  v1_1_0_add_escape_sequence_x :: bool
  v1_1_0_make_seconds_optional :: bool
  ext_allow_control_characters_in_comments :: bool
  ext_allow_non_english_in_bare_keys :: bool
  ext_hex_float :: bool
  ext_num_suffix :: bool
  ext_null_value :: bool

fun semver_less :: "nat \<times> nat \<times> nat \<Rightarrow> nat \<times> nat \<times> nat \<Rightarrow> bool" where
  "semver_less (a, b, c) (a', b', c') \<longleftrightarrow>
     a < a' \<or> (a = a' \<and> b < b') \<or> (a = a' \<and> b = b' \<and> c < c')"

definition spec_v :: "nat \<Rightarrow> nat \<Rightarrow> nat \<Rightarrow> spec" where
  "spec_v mjr mnr p =
     (let v = (mjr, mnr, p); v11 = \<not> semver_less v (1, 1, 0) in
      \<lparr>version = v,
       v1_1_0_allow_newlines_in_inline_tables = v11,
       v1_1_0_allow_trailing_comma_in_inline_tables = v11,
       v1_1_0_add_escape_sequence_e = v11,
       v1_1_0_add_escape_sequence_x = v11,
       v1_1_0_make_seconds_optional = v11,
       ext_allow_control_characters_in_comments = False,
       ext_allow_non_english_in_bare_keys = False,
       ext_hex_float = False,
       ext_num_suffix = False,
       ext_null_value = False\<rparr>)"

section \<open>Characters\<close>

definition utf8_2bytes :: scanner where
  "utf8_2bytes = sequence [character_in_range (CHR 0xC2) (CHR 0xDF), character_in_range (CHR 0x80) (CHR 0xBF)]"

definition utf8_3bytes :: scanner where
  "utf8_3bytes = sequence [
     either [
       sequence [character (CHR 0xE0), character_in_range (CHR 0xA0) (CHR 0xBF)],
       sequence [character_in_range (CHR 0xE1) (CHR 0xEC), character_in_range (CHR 0x80) (CHR 0xBF)],
       sequence [character (CHR 0xED), character_in_range (CHR 0x80) (CHR 0x9F)],
       sequence [character_in_range (CHR 0xEE) (CHR 0xEF), character_in_range (CHR 0x80) (CHR 0xBF)]],
     character_in_range (CHR 0x80) (CHR 0xBF)]"

definition utf8_4bytes :: scanner where
  "utf8_4bytes = sequence [
     either [
       sequence [character (CHR 0xF0), character_in_range (CHR 0x90) (CHR 0xBF)],
       sequence [character_in_range (CHR 0xF1) (CHR 0xF3), character_in_range (CHR 0x80) (CHR 0xBF)],
       sequence [character (CHR 0xF4), character_in_range (CHR 0x80) (CHR 0x8F)]],
     character_in_range (CHR 0x80) (CHR 0xBF),
     character_in_range (CHR 0x80) (CHR 0xBF)]"

definition non_ascii :: scanner where
  "non_ascii = either [utf8_2bytes, utf8_3bytes, utf8_4bytes]"

definition sx_wschar :: scanner where
  "sx_wschar = character_either [SP, CHR 0x09]"

definition sx_ws :: scanner where
  "sx_ws = repeat_at_least 0 sx_wschar"

definition sx_newline :: scanner where
  "sx_newline = either [character LF, literal [CR, LF]]"

definition allowed_comment_char :: "spec \<Rightarrow> scanner" where
  "allowed_comment_char s =
     (if ext_allow_control_characters_in_comments s then
        either [character_in_range (CHR 0x01) (CHR 0x09), character_in_range (CHR 0x0E) (CHR 0x7F), non_ascii]
      else
        either [character (CHR 0x09), character_in_range (CHR 0x20) (CHR 0x7E), non_ascii])"

definition sx_comment :: "spec \<Rightarrow> scanner" where
  "sx_comment s = sequence [character (CHR ''#''), repeat_at_least 0 (allowed_comment_char s)]"

definition sx_boolean :: scanner where
  "sx_boolean = either [literal ''true'', literal ''false'']"

definition sx_digit :: scanner where
  "sx_digit = character_in_range (CHR ''0'') (CHR ''9'')"

definition sx_alpha :: scanner where
  "sx_alpha = either [character_in_range (CHR ''a'') (CHR ''z''), character_in_range (CHR ''A'') (CHR ''Z'')]"

definition sx_hexdig :: scanner where
  "sx_hexdig = either [sx_digit, character_in_range (CHR ''a'') (CHR ''f''), character_in_range (CHR ''A'') (CHR ''F'')]"

section \<open>Numbers\<close>

definition num_suffix :: scanner where
  "num_suffix = sequence [
     character (CHR ''_''),
     either [sx_alpha, non_ascii],
     repeat_at_least 0 (either [
       sequence [character (CHR ''_''), either [sx_alpha, sx_digit, non_ascii]],
       either [sx_alpha, sx_digit, non_ascii]])]"

text \<open>Digits with underscores between them, after the first digit.\<close>

definition spaced :: "scanner \<Rightarrow> scanner" where
  "spaced d = either [d, sequence [character (CHR ''_''), d]]"

definition sx_dec_int :: scanner where
  "sx_dec_int = sequence [
     maybe (character_either ''+-''),
     either [
       sequence [character_in_range (CHR ''1'') (CHR ''9''), repeat_at_least 1 (spaced sx_digit)],
       sx_digit]]"

definition sx_hex_int :: scanner where
  "sx_hex_int = sequence [literal ''0x'', sx_hexdig, repeat_at_least 0 (spaced sx_hexdig)]"

definition sx_digit07 :: scanner where
  "sx_digit07 = character_in_range (CHR ''0'') (CHR ''7'')"

definition sx_oct_int :: scanner where
  "sx_oct_int = sequence [literal ''0o'', sx_digit07, repeat_at_least 0 (spaced sx_digit07)]"

definition sx_digit01 :: scanner where
  "sx_digit01 = character_either ''01''"

definition sx_bin_int :: scanner where
  "sx_bin_int = sequence [literal ''0b'', sx_digit01, repeat_at_least 0 (spaced sx_digit01)]"

definition sx_integer :: scanner where
  "sx_integer = either [sx_hex_int, sx_oct_int, sx_bin_int, sx_dec_int]"

definition zero_prefixable_int :: scanner where
  "zero_prefixable_int = sequence [sx_digit, repeat_at_least 0 (spaced sx_digit)]"

definition fractional_part :: scanner where
  "fractional_part = sequence [character (CHR ''.''), zero_prefixable_int]"

definition exponent_part :: scanner where
  "exponent_part = sequence [character_either ''eE'', maybe (character_either ''+-''), zero_prefixable_int]"

definition sx_hex_floating :: scanner where
  "sx_hex_floating = sequence [
     maybe (character_either ''+-''),
     character (CHR ''0''),
     character_either ''xX'',
     either [
       sequence [repeat_at_least 0 sx_hexdig, character (CHR ''.''), repeat_at_least 1 sx_hexdig],
       sequence [repeat_at_least 1 sx_hexdig, maybe (character (CHR ''.''))]],
     character_either ''pP'',
     maybe (character_either ''+-''),
     repeat_at_least 1 (character_in_range (CHR ''0'') (CHR ''9''))]"

definition sx_floating :: scanner where
  "sx_floating = either [
     sequence [
       sx_dec_int,
       either [exponent_part, sequence [fractional_part, maybe exponent_part]]],
     sequence [maybe (character_either ''+-''), either [literal ''inf'', literal ''nan'']]]"

section \<open>Dates and times\<close>

definition sx_local_date :: scanner where
  "sx_local_date = sequence [
     repeat_exact 4 sx_digit, character (CHR ''-''), repeat_exact 2 sx_digit, character (CHR ''-''),
     repeat_exact 2 sx_digit]"

definition sx_local_time :: "spec \<Rightarrow> scanner" where
  "sx_local_time s =
     (if v1_1_0_make_seconds_optional s then
        sequence [
          repeat_exact 2 sx_digit, character (CHR '':''), repeat_exact 2 sx_digit,
          maybe (sequence [
            character (CHR '':''), repeat_exact 2 sx_digit,
            maybe (sequence [character (CHR ''.''), repeat_at_least 1 sx_digit])])]
      else
        sequence [
          repeat_exact 2 sx_digit, character (CHR '':''), repeat_exact 2 sx_digit,
          character (CHR '':''), repeat_exact 2 sx_digit,
          maybe (sequence [character (CHR ''.''), repeat_at_least 1 sx_digit])])"

definition sx_time_offset :: scanner where
  "sx_time_offset = either [
     character_either ''zZ'',
     sequence [character_either ''+-'', repeat_exact 2 sx_digit, character (CHR '':''), repeat_exact 2 sx_digit]]"

definition sx_full_time :: "spec \<Rightarrow> scanner" where
  "sx_full_time s = sequence [sx_local_time s, sx_time_offset]"

definition sx_time_delim :: scanner where
  "sx_time_delim = character_either ''Tt ''"

definition sx_local_datetime :: "spec \<Rightarrow> scanner" where
  "sx_local_datetime s = sequence [sx_local_date, sx_time_delim, sx_local_time s]"

definition sx_offset_datetime :: "spec \<Rightarrow> scanner" where
  "sx_offset_datetime s = sequence [sx_local_date, sx_time_delim, sx_full_time s]"

section \<open>Strings\<close>

abbreviation DQ :: char where "DQ \<equiv> CHR 0x22"
abbreviation SQ :: char where "SQ \<equiv> CHR 0x27"
abbreviation BSL :: char where "BSL \<equiv> CHR 0x5C"

definition escaped_x2 :: scanner where
  "escaped_x2 = sequence [character (CHR ''x''), repeat_exact 2 sx_hexdig]"

definition escaped_u4 :: scanner where
  "escaped_u4 = sequence [character (CHR ''u''), repeat_exact 4 sx_hexdig]"

definition escaped_U8 :: scanner where
  "escaped_U8 = sequence [character (CHR ''U''), repeat_exact 8 sx_hexdig]"

definition escape_char :: "spec \<Rightarrow> scanner" where
  "escape_char s = character_either
     (if v1_1_0_add_escape_sequence_e s then [DQ, BSL] @ ''bfnrte'' else [DQ, BSL] @ ''bfnrt'')"

definition sx_escaped :: "spec \<Rightarrow> scanner" where
  "sx_escaped s = sequence [
     character BSL,
     if v1_1_0_add_escape_sequence_x s
     then either [escape_char s, escaped_u4, escaped_U8, escaped_x2]
     else either [escape_char s, escaped_u4, escaped_U8]]"

definition basic_unescaped :: scanner where
  "basic_unescaped = either [
     sx_wschar, character (CHR 0x21), character_in_range (CHR 0x23) (CHR 0x5B),
     character_in_range (CHR 0x5D) (CHR 0x7E), non_ascii]"

definition sx_basic_char :: "spec \<Rightarrow> scanner" where
  "sx_basic_char s = either [basic_unescaped, sx_escaped s]"

definition sx_basic_string :: "spec \<Rightarrow> scanner" where
  "sx_basic_string s = sequence [character DQ, repeat_at_least 0 (sx_basic_char s), character DQ]"

definition sx_escaped_newline :: scanner where
  "sx_escaped_newline = sequence [
     character BSL, sx_ws, sx_newline, repeat_at_least 0 (either [sx_wschar, sx_newline])]"

definition sx_ml_basic_string :: "spec \<Rightarrow> scanner" where
  "sx_ml_basic_string s =
     (let mlb_content = either [sx_basic_char s, sx_newline, sx_escaped_newline];
          mlb_quotes = either [literal [DQ, DQ], character DQ] in
      sequence [
        literal [DQ, DQ, DQ],
        maybe sx_newline,
        repeat_at_least 0 mlb_content,
        repeat_at_least 0 (sequence [mlb_quotes, repeat_at_least 1 mlb_content]),
        literal [DQ, DQ, DQ],
        maybe mlb_quotes])"

definition sx_literal_char :: scanner where
  "sx_literal_char = either [
     character (CHR 0x09), character_in_range (CHR 0x20) (CHR 0x26), character_in_range (CHR 0x28) (CHR 0x7E),
     non_ascii]"

definition sx_literal_string :: scanner where
  "sx_literal_string = sequence [character SQ, repeat_at_least 0 sx_literal_char, character SQ]"

definition sx_ml_literal_string :: scanner where
  "sx_ml_literal_string =
     (let mll_quotes = either [literal [SQ, SQ], character SQ];
          mll_content = either [sx_literal_char, sx_newline] in
      sequence [
        literal [SQ, SQ, SQ],
        maybe sx_newline,
        repeat_at_least 0 mll_content,
        repeat_at_least 0 (sequence [mll_quotes, repeat_at_least 1 mll_content]),
        literal [SQ, SQ, SQ],
        maybe mll_quotes])"

section \<open>Keys\<close>

definition sx_unquoted_key :: "spec \<Rightarrow> scanner" where
  "sx_unquoted_key s = repeat_at_least 1
     (if ext_allow_non_english_in_bare_keys s
      then either [sx_alpha, sx_digit, character (CHR 0x2D), character (CHR 0x5F), non_ascii_key_char]
      else either [sx_alpha, sx_digit, character (CHR 0x2D), character (CHR 0x5F)])"

definition sx_quoted_key :: "spec \<Rightarrow> scanner" where
  "sx_quoted_key s = either [sx_basic_string s, sx_literal_string]"

definition sx_simple_key :: "spec \<Rightarrow> scanner" where
  "sx_simple_key s = either [sx_unquoted_key s, sx_quoted_key s]"

definition sx_dot_sep :: scanner where
  "sx_dot_sep = sequence [sx_ws, character (CHR ''.''), sx_ws]"

definition sx_dotted_key :: "spec \<Rightarrow> scanner" where
  "sx_dotted_key s = sequence [
     sx_simple_key s, repeat_at_least 1 (sequence [sx_dot_sep, sx_simple_key s])]"

definition sx_key :: "spec \<Rightarrow> scanner" where
  "sx_key s = either [sx_dotted_key s, sx_simple_key s]"

definition sx_keyval_sep :: scanner where
  "sx_keyval_sep = sequence [sx_ws, character (CHR ''=''), sx_ws]"

definition sx_std_table :: "spec \<Rightarrow> scanner" where
  "sx_std_table s = sequence [character (CHR ''[''), sx_ws, sx_key s, sx_ws, character (CHR '']'')]"

definition sx_array_table :: "spec \<Rightarrow> scanner" where
  "sx_array_table s = sequence [literal ''[['', sx_ws, sx_key s, sx_ws, literal '']]'']"

definition sx_null_value :: scanner where
  "sx_null_value = literal ''null''"

section \<open>The grammar as a whole\<close>

definition grammar :: "spec \<Rightarrow> scanner list" where
  "grammar s = [
     non_ascii, sx_wschar, sx_ws, sx_newline, sx_comment s, sx_boolean, sx_digit, sx_alpha, sx_hexdig, num_suffix,
     sx_dec_int, sx_hex_int, sx_oct_int, sx_bin_int, sx_integer, sx_hex_floating, sx_floating,
     sx_local_date, sx_local_time s, sx_time_offset, sx_full_time s, sx_time_delim, sx_local_datetime s, sx_offset_datetime s,
     escaped_x2, escaped_u4, escaped_U8, sx_escaped s, sx_basic_char s, sx_basic_string s,
     sx_escaped_newline, sx_ml_basic_string s, sx_literal_char, sx_literal_string, sx_ml_literal_string,
     sx_unquoted_key s, sx_quoted_key s, sx_simple_key s, sx_dot_sep, sx_dotted_key s, sx_key s, sx_keyval_sep,
     sx_std_table s, sx_array_table s, sx_null_value]"

named_theorems syntax_defs \<open>the scanners of the grammar\<close>

lemmas char_syntax_defs [syntax_defs] =
  utf8_2bytes_def utf8_3bytes_def utf8_4bytes_def non_ascii_def sx_wschar_def sx_ws_def sx_newline_def
  allowed_comment_char_def sx_comment_def sx_boolean_def sx_digit_def sx_alpha_def sx_hexdig_def

lemmas number_syntax_defs [syntax_defs] =
  num_suffix_def spaced_def sx_dec_int_def sx_hex_int_def sx_digit07_def sx_oct_int_def sx_digit01_def sx_bin_int_def
  sx_integer_def zero_prefixable_int_def fractional_part_def exponent_part_def sx_hex_floating_def sx_floating_def

lemmas time_syntax_defs [syntax_defs] =
  sx_local_date_def sx_local_time_def sx_time_offset_def sx_full_time_def sx_time_delim_def sx_local_datetime_def
  sx_offset_datetime_def

lemmas string_syntax_defs [syntax_defs] =
  escaped_x2_def escaped_u4_def escaped_U8_def escape_char_def sx_escaped_def basic_unescaped_def sx_basic_char_def
  sx_basic_string_def sx_escaped_newline_def sx_ml_basic_string_def sx_literal_char_def sx_literal_string_def
  sx_ml_literal_string_def

lemmas key_syntax_defs [syntax_defs] =
  sx_unquoted_key_def sx_quoted_key_def sx_simple_key_def sx_dot_sep_def sx_dotted_key_def sx_key_def sx_keyval_sep_def
  sx_std_table_def sx_array_table_def sx_null_value_def

lemma grammar_well_behaved:
  "\<not> ext_allow_non_english_in_bare_keys s \<Longrightarrow> list_all well_behaved (grammar s)"
  by (simp add: grammar_def syntax_defs Let_def)

lemma well_behaved_grammar [simp]:
  "s \<in> set (grammar sp) \<Longrightarrow> \<not> ext_allow_non_english_in_bare_keys sp \<Longrightarrow> well_behaved s"
  using grammar_well_behaved [of sp] by (simp add: list_all_iff)

text \<open>
  C14: every scan of the grammar returns, in the source at or behind where it started: on failure the
  location is where it was, on success the region is what lies between, it is a word of the scanner's
  language, and it is what the reference takes.
\<close>

theorem grammar_scans:
  assumes "s \<in> set (grammar sp)" "\<not> ext_allow_non_english_in_bare_keys sp" "loc_ok loc"
  shows "\<exists>r loc'. toml_scan s loc = Some (r, loc') \<and>
    (case r of
       None \<Rightarrow> munch s (loc_rest loc) = None \<and> loc' = loc
     | Some reg \<Rightarrow> munch s (loc_rest loc) = Some (length (reg_string reg)) \<and>
         loc_rest loc = reg_string reg @ loc_rest loc' \<and> loc' = advance (length (reg_string reg)) loc \<and>
         reg_string reg \<in> lang s)"
proof -
  have scan: "toml_scan s loc = Some (scanned loc (munch s (loc_rest loc)))"
    using assms by (intro scan_munch(1)) auto
  show ?thesis
  proof (cases "munch s (loc_rest loc)")
    case (Some k)
    then show ?thesis using scan assms(3) munch_le(1) [OF Some] munch_lang(1) [OF Some]
      by (simp add: min_def)
  qed (use scan in simp)
qed

lemma grammar_scans_witness:
  "\<exists>reg loc'. toml_scan sx_dec_int (start_loc ''42,'') = Some (Some reg, loc') \<and> reg_string reg = ''42''"
proof -
  have g: "sx_dec_int \<in> set (grammar (spec_v 1 1 0))" "\<not> ext_allow_non_english_in_bare_keys (spec_v 1 1 0)"
    by (simp_all add: grammar_def spec_v_def Let_def)
  have m: "munch sx_dec_int ''42,'' = Some 2" by code_simp
  show ?thesis
    using grammar_scans [OF g, of "start_loc ''42,''"] m by (auto split: option.splits)
qed

end
