(* ===== verification/TomlScalar.thy ===== *)
theory TomlScalar
  imports TomlSyntax
begin

text \<open>
  The values of \<open>mytoml/toml11/toml.hpp\<close> and the parsers of those that are no arrays or tables.

  A parser reads at a location and moves it, also when it fails.  Its result is \<open>Ret\<close> a value, \<open>Err\<close>
  an error, of which only the title is kept, or \<open>Undefined\<close> for undefined behaviour; \<open>None\<close> stands
  for a parser that does not return.  Comments, indentation and how a number was written only matter
  to a program that writes the document back and are left out; the format of arrays and tables decides
  what may be added to them and is kept.

  Reading a \<open>double\<close> from text is the work of the standard library's streams and a parameter \<open>rdf\<close> (its
  first argument tells hexadecimal floats apart); reading integers from streams is modelled.
\<close>

section \<open>Values\<close>

datatype array_format = default_format | array_oneline | array_multiline | array_of_tables

datatype table_format = multiline | oneline | dotted | multiline_oneline | implicit

record local_date =
  year :: int
  month :: int
  day :: int

record local_time =
  hour :: int
  minute :: int
  second :: int
  millisecond :: int
  microsecond :: int
  nanosecond :: int

record time_offset =
  off_hour :: int
  off_minute :: int

datatype toml_value =
    VEmpty
  | VBoolean bool
  | VInteger int
  | VFloating u64
  | VString string
  | VOffsetDatetime local_date local_time time_offset
  | VLocalDatetime local_date local_time
  | VLocalDate local_date
  | VLocalTime local_time
  | VArray array_format "toml_value list"
  | VTable table_format "(string \<times> toml_value) list"

section \<open>Results\<close>

type_synonym toml_error = string

datatype 'a toml_result = Ret 'a location | Err toml_error location | Undefined

type_synonym 'a parsed = "'a toml_result option"

fun pbind :: "'a parsed \<Rightarrow> ('a \<Rightarrow> location \<Rightarrow> 'b parsed) \<Rightarrow> 'b parsed" where
  "pbind None f = None"
| "pbind (Some Undefined) f = Some Undefined"
| "pbind (Some (Err e loc)) f = Some (Err e loc)"
| "pbind (Some (Ret x loc)) f = f x loc"

text \<open>Scan a region, or fail with an error where the scan stopped.\<close>

definition scan_or :: "toml_error \<Rightarrow> scanner \<Rightarrow> location \<Rightarrow> region parsed" where
  "scan_or e s loc =
     (case toml_scan s loc of
        None \<Rightarrow> None
      | Some (None, loc) \<Rightarrow> Some (Err e loc)
      | Some (Some reg, loc) \<Rightarrow> Some (Ret reg loc))"

definition scan_ok :: "scanner \<Rightarrow> location \<Rightarrow> bool parsed" where
  "scan_ok s loc =
     (case toml_scan s loc of
        None \<Rightarrow> None
      | Some (reg, loc) \<Rightarrow> Some (Ret (reg \<noteq> None) loc))"

section \<open>Integers\<close>

definition isdigit :: "char \<Rightarrow> bool" where
  "isdigit c \<longleftrightarrow> 48 \<le> (of_char c :: nat) \<and> (of_char c :: nat) \<le> 57"

text \<open>
  Reading an integer from a stream: a sign, digits as far as they go, and failure when there is none
  or the number does not fit.
\<close>

definition digit_value :: "char \<Rightarrow> nat option" where
  "digit_value c =
     (let n = of_char c in
      if 48 \<le> n \<and> n \<le> 57 then Some (n - 48)
      else if 97 \<le> n \<and> n \<le> 102 then Some (n - 87)
      else if 65 \<le> n \<and> n \<le> 70 then Some (n - 55)
      else None)"

fun stream_digits :: "nat \<Rightarrow> string \<Rightarrow> nat list" where
  "stream_digits base [] = []"
| "stream_digits base (c # cs) =
     (case digit_value c of
        None \<Rightarrow> []
      | Some d \<Rightarrow> if d < base then d # stream_digits base cs else [])"

definition digits_value :: "nat \<Rightarrow> nat list \<Rightarrow> int" where
  "digits_value base ds = foldl (\<lambda>n d. int base * n + int d) 0 ds"

definition read_stream :: "int \<Rightarrow> int \<Rightarrow> nat \<Rightarrow> string \<Rightarrow> int option" where
  "read_stream lo hi base cs =
     (let neg = (cs \<noteq> [] \<and> hd cs = CHR ''-'');
          ds = stream_digits base (if cs \<noteq> [] \<and> hd cs \<in> {CHR ''+'', CHR ''-''} then tl cs else cs);
          v = digits_value base ds;
          i = (if neg then - v else v) in
      if ds = [] \<or> i < lo \<or> hi < i then None else Some i)"

abbreviation INT64_MIN :: int where "INT64_MIN \<equiv> - (2 ^ 63)"
abbreviation INT64_MAX :: int where "INT64_MAX \<equiv> 2 ^ 63 - 1"

definition from_string_int :: "string \<Rightarrow> int option" where
  "from_string_int cs = read_stream (- (2 ^ 31)) (2 ^ 31 - 1) 10 cs"

definition read_dec_int :: "string \<Rightarrow> toml_error + int" where
  "read_dec_int cs =
     (case read_stream INT64_MIN INT64_MAX 10 cs of
        None \<Rightarrow> Inl ''toml::parse_dec_integer: too large integer: current max digits = 2^63''
      | Some i \<Rightarrow> Inr i)"

definition read_hex_int :: "string \<Rightarrow> toml_error + int" where
  "read_hex_int cs =
     (case read_stream INT64_MIN INT64_MAX 16 cs of
        None \<Rightarrow> Inl ''toml::parse_hex_integer: too large integer: current max value = 2^63''
      | Some i \<Rightarrow> Inr i)"

definition read_oct_int :: "string \<Rightarrow> toml_error + int" where
  "read_oct_int cs =
     (case read_stream INT64_MIN INT64_MAX 8 cs of
        None \<Rightarrow> Inl ''toml::parse_oct_integer: too large integer: current max value = 2^63''
      | Some i \<Rightarrow> Inr i)"

text \<open>
  Binary integers are added up bit by bit from the end, in signed 64-bit arithmetic; \<open>None\<close> is its
  overflow, undefined behaviour.  \<open>base\<close> becomes 0 when more digits follow the largest power.
\<close>

definition signed64 :: "int \<Rightarrow> int option" where
  "signed64 i = (if INT64_MIN \<le> i \<and> i \<le> INT64_MAX then Some i else None)"

fun bin_loop :: "string \<Rightarrow> int \<Rightarrow> int \<Rightarrow> (int \<times> int) option" where
  "bin_loop [] val base = Some (val, base)"
| "bin_loop (c # cs) val base =
     (if c = CHR ''1'' then
        Option.bind (signed64 (val + base)) (\<lambda>val.
          if INT64_MAX div 2 < base \<and> cs \<noteq> [] then bin_loop cs val 0
          else Option.bind (signed64 (base * 2)) (\<lambda>base. bin_loop cs val base))
      else
        if INT64_MAX div 2 < base \<and> cs \<noteq> [] then bin_loop cs val 0
        else Option.bind (signed64 (base * 2)) (\<lambda>base. bin_loop cs val base))"

definition read_bin_int :: "string \<Rightarrow> (toml_error + int) option" where
  "read_bin_int cs =
     (case bin_loop (rev cs) 0 1 of
        None \<Rightarrow> None
      | Some (val, base) \<Rightarrow>
          Some (if base = 0 then Inl ''toml::parse_bin_integer: too large integer: current max value = 2^63''
                else Inr val))"

definition read_int :: "string \<Rightarrow> nat \<Rightarrow> (toml_error + int) option" where
  "read_int cs base =
     (if base = 2 then read_bin_int cs
      else if base = 8 then Some (read_oct_int cs)
      else if base = 16 then Some (read_hex_int cs)
      else Some (read_dec_int cs))"

definition no_underscores :: "string \<Rightarrow> string" where
  "no_underscores cs = filter (\<lambda>c. c \<noteq> CHR ''_'') cs"

text \<open>The value read, or its error with the location put back to the beginning.\<close>

definition int_result :: "location \<Rightarrow> location \<Rightarrow> (toml_error + int) option \<Rightarrow> toml_value parsed" where
  "int_result first loc r =
     (case r of
        None \<Rightarrow> Some Undefined
      | Some (Inl e) \<Rightarrow> Some (Err e first)
      | Some (Inr i) \<Rightarrow> Some (Ret (VInteger i) loc))"

definition or_zero :: "string \<Rightarrow> string" where
  "or_zero cs = (if cs = [] then ''0'' else cs)"

definition parse_bin_integer :: "location \<Rightarrow> toml_value parsed" where
  "parse_bin_integer loc =
     (let first = loc in
      pbind (scan_or ''toml::parse_bin_integer: invalid integer: bin_int must be like: 0b0101, 0b1111_0000''
        sx_bin_int loc) (\<lambda>reg loc.
      let str = dropWhile (\<lambda>c. c \<noteq> CHR ''1'') (drop 2 (reg_string reg)) in
      int_result first loc (read_int (or_zero (no_underscores str)) 2)))"

definition parse_oct_integer :: "location \<Rightarrow> toml_value parsed" where
  "parse_oct_integer loc =
     (let first = loc in
      pbind (scan_or ''toml::parse_oct_integer: invalid integer: oct_int must be like: 0o775, 0o04_44''
        sx_oct_int loc) (\<lambda>reg loc.
      let str = dropWhile (\<lambda>c. \<not> (c \<noteq> CHR ''0'' \<and> c \<noteq> CHR ''_'')) (drop 2 (reg_string reg)) in
      int_result first loc (read_int (or_zero (no_underscores str)) 8)))"

definition parse_hex_integer :: "location \<Rightarrow> toml_value parsed" where
  "parse_hex_integer loc =
     (let first = loc in
      pbind (scan_or ''toml::parse_hex_integer: invalid integer: hex_int must be like: 0xC0FFEE, 0xdead_beef''
        sx_hex_int loc) (\<lambda>reg loc.
      let str = dropWhile (\<lambda>c. \<not> (c \<noteq> CHR ''0'' \<and> c \<noteq> CHR ''_'')) (drop 2 (reg_string reg)) in
      int_result first loc (read_int (or_zero (no_underscores str)) 16)))"

definition parse_dec_integer :: "spec \<Rightarrow> location \<Rightarrow> toml_value parsed" where
  "parse_dec_integer sp loc =
     (let first = loc in
      pbind (scan_or ''toml::parse_dec_integer: invalid integer: dec_int must be like: 42, 123_456_789''
        sx_dec_int loc) (\<lambda>reg loc.
      case read_int (no_underscores (reg_string reg)) 10 of
        None \<Rightarrow> Some Undefined
      | Some (Inl e) \<Rightarrow> Some (Err e first)
      | Some (Inr i) \<Rightarrow>
          if ext_num_suffix sp \<and> current loc = CHR ''_'' then
            (case toml_scan num_suffix loc of
               None \<Rightarrow> None
             | Some (None, _) \<Rightarrow>
                 Some (Err ''toml::parse_dec_integer: invalid suffix: should be `_ non-digit-graph (graph | _graph)`'' first)
             | Some (Some _, loc) \<Rightarrow> Some (Ret (VInteger i) loc))
          else Some (Ret (VInteger i) loc)))"

definition parse_integer :: "spec \<Rightarrow> location \<Rightarrow> toml_value parsed" where
  "parse_integer sp loc =
     (let first = loc;
          loc = (if \<not> loc_eof loc \<and> (current loc = CHR ''+'' \<or> current loc = CHR ''-'') then advance 1 loc else loc) in
      if \<not> loc_eof loc \<and> current loc = CHR ''0'' then
        let loc = advance 1 loc in
        if loc_eof loc then parse_dec_integer sp first
        else
          let prefix = current loc in
          if prefix = CHR ''b'' then parse_bin_integer first
          else if prefix = CHR ''o'' then parse_oct_integer first
          else if prefix = CHR ''x'' then parse_hex_integer first
          else if isdigit prefix then
            Some (Err ''toml::parse_integer: leading zero in an decimal integer is not allowed'' first)
          else parse_dec_integer sp first
      else parse_dec_integer sp first)"

section \<open>Booleans and floating point numbers\<close>

definition parse_boolean :: "location \<Rightarrow> toml_value parsed" where
  "parse_boolean loc =
     pbind (scan_or ''toml::parse_boolean: invalid boolean: boolean must be `true` or `false`, in lowercase.''
       sx_boolean loc) (\<lambda>reg loc.
     Some (Ret (VBoolean (reg_string reg = ''true'')) loc))"

definition parse_null :: "spec \<Rightarrow> location \<Rightarrow> toml_value parsed" where
  "parse_null sp loc =
     (if \<not> ext_null_value sp then Some (Err ''toml::parse_null: invalid spec: spec.ext_null_value must be true.'' loc)
      else pbind (scan_or ''toml::parse_null: invalid null: null must be lowercase.'' sx_null_value loc)
        (\<lambda>reg loc. Some (Ret VEmpty loc)))"

definition float_inf :: u64 where "float_inf = 0x7FF0000000000000"
definition float_nan :: u64 where "float_nan = 0x7FF8000000000000"
definition float_negative :: "u64 \<Rightarrow> u64" where "float_negative d = d OR 0x8000000000000000"

definition parse_floating :: "(bool \<Rightarrow> string \<Rightarrow> u64 option) \<Rightarrow> spec \<Rightarrow> location \<Rightarrow> toml_value parsed" where
  "parse_floating rdf sp loc =
     (let first = loc in
      pbind (if ext_hex_float sp then scan_ok (literal ''0x'') loc else Some (Ret False loc)) (\<lambda>is_hex _.
      pbind (if is_hex
             then scan_or ''toml::parse_floating: invalid hex floating: float must be like: 0xABCp-3f'' sx_hex_floating first
             else scan_or ''toml::parse_floating: invalid floating: float must be like: -3.14159_26535, 6.022e+23, inf, or nan (lowercase).''
               sx_floating first) (\<lambda>reg loc.
      let str = no_underscores (reg_string reg);
          val = (if str = ''inf'' \<or> str = ''+inf'' then Some float_inf
                 else if str = ''-inf'' then Some (float_negative float_inf)
                 else if str = ''nan'' \<or> str = ''+nan'' then Some float_nan
                 else if str = ''-nan'' then Some (float_negative float_nan)
                 else rdf is_hex str) in
      case val of
        None \<Rightarrow> Some (Err ''toml::parse_floating: failed to read floating point value from stream'' loc)
      | Some d \<Rightarrow>
          if ext_num_suffix sp \<and> current loc = CHR ''_'' then
            (case toml_scan num_suffix loc of
               None \<Rightarrow> None
             | Some (None, _) \<Rightarrow>
                 Some (Err ''toml::parse_floating: invalid suffix: should be `_ non-digit-graph (graph | _graph)`'' first)
             | Some (Some _, loc) \<Rightarrow> Some (Ret (VFloating d) loc))
          else Some (Ret (VFloating d) loc))))"

section \<open>Dates and times\<close>

definition substr :: "string \<Rightarrow> nat \<Rightarrow> nat \<Rightarrow> string" where
  "substr cs i n = take n (drop i cs)"

definition parse_local_date_only :: "location \<Rightarrow> local_date parsed" where
  "parse_local_date_only loc =
     pbind (scan_or ''toml::parse_local_date: invalid date: date must be like: 1234-05-06, yyyy-mm-dd.''
       sx_local_date loc) (\<lambda>reg loc.
     let str = reg_string reg in
     case from_string_int (substr str 0 4) of
       None \<Rightarrow> Some (Err ''toml::parse_local_date: failed to read year'' loc)
     | Some y \<Rightarrow>
     case from_string_int (substr str 5 2) of
       None \<Rightarrow> Some (Err ''toml::parse_local_date: failed to read month'' loc)
     | Some m \<Rightarrow>
     case from_string_int (substr str 8 2) of
       None \<Rightarrow> Some (Err ''toml::parse_local_date: failed to read day'' loc)
     | Some d \<Rightarrow>
       let is_leap = (y mod 4 = 0 \<and> (y mod 100 \<noteq> 0 \<or> y mod 400 = 0));
           max_day = (if m = 2 then if is_leap then 29 else 28
                      else if m = 4 \<or> m = 6 \<or> m = 9 \<or> m = 11 then 30 else 31) in
       if m < 1 \<or> 12 < m \<or> d < 1 \<or> max_day < d
       then Some (Err ''toml::parse_local_date: invalid date.'' loc)
       else Some (Ret \<lparr>year = y, month = m - 1, day = d\<rparr> loc))"

definition parse_local_date :: "location \<Rightarrow> toml_value parsed" where
  "parse_local_date loc = pbind (parse_local_date_only loc) (\<lambda>d loc. Some (Ret (VLocalDate d) loc))"

definition local_time_of :: "spec \<Rightarrow> string \<Rightarrow> location \<Rightarrow> local_time parsed" where
  "local_time_of sp str loc =
     (case from_string_int (substr str 0 2) of
       None \<Rightarrow> Some (Err ''toml::parse_local_time: failed to read hour'' loc)
     | Some h \<Rightarrow>
     case from_string_int (substr str 3 2) of
       None \<Rightarrow> Some (Err ''toml::parse_local_time: failed to read minute'' loc)
     | Some mi \<Rightarrow>
     if h < 0 \<or> 24 \<le> h \<or> mi < 0 \<or> 60 \<le> mi then Some (Err ''toml::parse_local_time: invalid time.'' loc)
     else if length str = 5 \<and> v1_1_0_make_seconds_optional sp then
       Some (Ret \<lparr>hour = h, minute = mi, second = 0, millisecond = 0, microsecond = 0, nanosecond = 0\<rparr> loc)
     else
     case from_string_int (substr str 6 2) of
       None \<Rightarrow> Some (Err ''toml::parse_local_time: failed to read second'' loc)
     | Some sec \<Rightarrow>
     if sec < 0 \<or> 60 < sec then Some (Err ''toml::parse_local_time: invalid time.'' loc)
     else if length str = 8 then
       Some (Ret \<lparr>hour = h, minute = mi, second = sec, millisecond = 0, microsecond = 0, nanosecond = 0\<rparr> loc)
     else
       let frac = drop 9 str; frac = frac @ replicate (9 - length frac) (CHR ''0'') in
     case from_string_int (substr frac 0 3) of
       None \<Rightarrow> Some (Err ''toml::parse_local_time: failed to read milliseconds'' loc)
     | Some ms \<Rightarrow>
     case from_string_int (substr frac 3 3) of
       None \<Rightarrow> Some (Err ''toml::parse_local_time: failed to read microseconds'' loc)
     | Some us \<Rightarrow>
     case from_string_int (substr frac 6 3) of
       None \<Rightarrow> Some (Err ''toml::parse_local_time: failed to read nanoseconds'' loc)
     | Some ns \<Rightarrow>
       Some (Ret \<lparr>hour = h, minute = mi, second = sec, millisecond = ms, microsecond = us, nanosecond = ns\<rparr> loc))"

definition parse_local_time_only :: "spec \<Rightarrow> location \<Rightarrow> local_time parsed" where
  "parse_local_time_only sp loc =
     pbind (scan_or
       (if v1_1_0_make_seconds_optional sp
        then ''toml::parse_local_time: invalid time: time must be HH:MM(:SS.sss) (seconds are optional)''
        else ''toml::parse_local_time: invalid time: time must be HH:MM:SS(.sss) (subseconds are optional)'')
       (sx_local_time sp) loc) (\<lambda>reg loc.
     local_time_of sp (reg_string reg) loc)"

definition parse_local_time :: "spec \<Rightarrow> location \<Rightarrow> toml_value parsed" where
  "parse_local_time sp loc = pbind (parse_local_time_only sp loc) (\<lambda>t loc. Some (Ret (VLocalTime t) loc))"

text \<open>The date, a delimiter and the time.\<close>

definition parse_date_and_time :: "toml_error \<Rightarrow> spec \<Rightarrow> location \<Rightarrow> (local_date \<times> local_time) parsed" where
  "parse_date_and_time e sp loc =
     pbind (parse_local_date_only loc) (\<lambda>d loc.
     if current loc = CHR ''T'' \<or> current loc = CHR ''t'' \<or> current loc = SP then
       pbind (parse_local_time_only sp (advance 1 loc)) (\<lambda>t loc. Some (Ret (d, t) loc))
     else Some (Err e loc))"

definition parse_local_datetime :: "spec \<Rightarrow> location \<Rightarrow> toml_value parsed" where
  "parse_local_datetime sp loc =
     pbind (parse_date_and_time ''toml::parse_local_datetime: expect date-time delimiter `T`, `t` or ` `(space).'' sp loc)
       (\<lambda>(d, t) loc. Some (Ret (VLocalDatetime d t) loc))"

definition time_offset_of :: "string \<Rightarrow> location \<Rightarrow> time_offset parsed" where
  "time_offset_of str loc =
     (if hd str = CHR ''+'' \<or> hd str = CHR ''-'' then
        case from_string_int (substr str 1 2) of
          None \<Rightarrow> Some (Err ''toml::parse_offset_datetime: Failed to read offset hour part'' loc)
        | Some h \<Rightarrow>
        case from_string_int (substr str 4 2) of
          None \<Rightarrow> Some (Err ''toml::parse_offset_datetime: Failed to read offset minute part'' loc)
        | Some mi \<Rightarrow>
          let offset = (if hd str = CHR ''+'' then \<lparr>off_hour = h, off_minute = mi\<rparr> else \<lparr>off_hour = - h, off_minute = - mi\<rparr>) in
          if off_hour offset < -24 \<or> 24 < off_hour offset \<or> off_minute offset < -60 \<or> 60 < off_minute offset
          then Some (Err ''toml::parse_offset_datetime: too large offset: |hour| <= 24, |minute| <= 60'' loc)
          else Some (Ret offset loc)
      else Some (Ret \<lparr>off_hour = 0, off_minute = 0\<rparr> loc))"

definition parse_offset_datetime :: "spec \<Rightarrow> location \<Rightarrow> toml_value parsed" where
  "parse_offset_datetime sp loc =
     pbind (parse_date_and_time ''toml::parse_offset_datetime: expect date-time delimiter `T` or ` `(space).'' sp loc)
       (\<lambda>(d, t) loc.
     pbind (scan_or ''toml::parse_offset_datetime: invalid offset: offset must be like: Z, +01:00, or -10:00.''
       sx_time_offset loc) (\<lambda>reg loc.
     pbind (time_offset_of (reg_string reg) loc) (\<lambda>offset loc.
     Some (Ret (VOffsetDatetime d t offset) loc))))"

section \<open>Strings\<close>

definition encode_codepoint :: "u32 \<Rightarrow> toml_error + string" where
  "encode_codepoint cp =
     (if cp < 0x80 then Inr [to_char cp]
      else if cp < 0x800 then
        Inr [to_char (0xC0 OR drop_bit 6 cp), to_char (0x80 OR (cp AND 0x3F))]
      else if cp < 0x10000 then
        if 0xD800 \<le> cp \<and> cp \<le> 0xDFFF then Inl ''toml::parse_utf8_codepoint: [0xD800, 0xDFFF] is not a valid UTF-8''
        else Inr [to_char (0xE0 OR drop_bit 12 cp), to_char (0x80 OR (drop_bit 6 cp AND 0x3F)), to_char (0x80 OR (cp AND 0x3F))]
      else if cp < 0x110000 then
        Inr [to_char (0xF0 OR drop_bit 18 cp), to_char (0x80 OR (drop_bit 12 cp AND 0x3F)),
             to_char (0x80 OR (drop_bit 6 cp AND 0x3F)), to_char (0x80 OR (cp AND 0x3F))]
      else Inl ''toml::parse_utf8_codepoint: input codepoint is too large.'')"

definition parse_utf8_codepoint :: "region \<Rightarrow> toml_error + string" where
  "parse_utf8_codepoint reg = encode_codepoint (word_of_int (digits_value 16 (stream_digits 16 (tl (reg_string reg)))))"

text \<open>A code point after \<open>\x\<close>, \<open>\u\<close> or \<open>\U\<close>.\<close>

definition parse_escaped_codepoint :: "toml_error \<Rightarrow> scanner \<Rightarrow> location \<Rightarrow> string parsed" where
  "parse_escaped_codepoint e s loc =
     pbind (scan_or e s loc) (\<lambda>reg loc.
     case parse_utf8_codepoint reg of Inl e \<Rightarrow> Some (Err e loc) | Inr utf8 \<Rightarrow> Some (Ret utf8 loc))"

definition parse_escape_sequence :: "spec \<Rightarrow> location \<Rightarrow> string parsed" where
  "parse_escape_sequence sp loc =
     (let loc = advance 1 loc; c = current loc in
      if c = BSL then Some (Ret [BSL] (advance 1 loc))
      else if c = DQ then Some (Ret [DQ] (advance 1 loc))
      else if c = CHR ''b'' then Some (Ret [CHR 0x08] (advance 1 loc))
      else if c = CHR ''f'' then Some (Ret [CHR 0x0C] (advance 1 loc))
      else if c = CHR ''n'' then Some (Ret [LF] (advance 1 loc))
      else if c = CHR ''r'' then Some (Ret [CR] (advance 1 loc))
      else if c = CHR ''t'' then Some (Ret [CHR 0x09] (advance 1 loc))
      else if v1_1_0_add_escape_sequence_e sp \<and> c = CHR ''e'' then Some (Ret [CHR 0x1B] (advance 1 loc))
      else if v1_1_0_add_escape_sequence_x sp \<and> c = CHR ''x'' then
        parse_escaped_codepoint ''toml::parse_escape_sequence: invalid token found in UTF-8 codepoint xhh'' escaped_x2 loc
      else if c = CHR ''u'' then
        parse_escaped_codepoint ''toml::parse_escape_sequence: invalid token found in UTF-8 codepoint uhhhh'' escaped_u4 loc
      else if c = CHR ''U'' then
        parse_escaped_codepoint ''toml::parse_escape_sequence: invalid token found in UTF-8 codepoint Uhhhhhhhh'' escaped_U8 loc
      else Some (Err ''toml::parse_escape_sequence: unknown escape sequence.'' loc))"

text \<open>
  The loops over the text between the quotes.  An escape sequence is parsed in a temporary location of
  its own; the loop goes on behind what that has moved.
\<close>

partial_function (option) basic_string_loop :: "spec \<Rightarrow> string \<Rightarrow> string \<Rightarrow> (toml_error + string) option" where
  "basic_string_loop sp str val =
     (case str of
        [] \<Rightarrow> Some (Inr val)
      | c # str' \<Rightarrow>
          if c = BSL then
            (case parse_escape_sequence sp (start_loc str) of
               None \<Rightarrow> None
             | Some Undefined \<Rightarrow> None
             | Some (Err e _) \<Rightarrow> Some (Inl e)
             | Some (Ret esc loc2) \<Rightarrow> basic_string_loop sp (drop (loc_at loc2) str) (val @ esc))
          else basic_string_loop sp str' (val @ [c]))"

declare basic_string_loop.simps [code]

partial_function (option) ml_basic_string_loop :: "spec \<Rightarrow> string \<Rightarrow> string \<Rightarrow> (toml_error + string) option" where
  "ml_basic_string_loop sp str val =
     (case str of
        [] \<Rightarrow> Some (Inr val)
      | c # str' \<Rightarrow>
          if c = BSL then
            (case toml_scan sx_escaped_newline (start_loc str) of
               None \<Rightarrow> None
             | Some (Some _, loc2) \<Rightarrow> ml_basic_string_loop sp (drop (loc_at loc2) str) val
             | Some (None, loc2) \<Rightarrow>
                 (case parse_escape_sequence sp loc2 of
                    None \<Rightarrow> None
                  | Some Undefined \<Rightarrow> None
                  | Some (Err e _) \<Rightarrow> Some (Inl e)
                  | Some (Ret esc loc2) \<Rightarrow> ml_basic_string_loop sp (drop (loc_at loc2) str) (val @ esc)))
          else ml_basic_string_loop sp str' (val @ [c]))"

declare ml_basic_string_loop.simps [code]

definition loop_result :: "location \<Rightarrow> (toml_error + string) option \<Rightarrow> string parsed" where
  "loop_result loc r =
     (case r of None \<Rightarrow> None | Some (Inl e) \<Rightarrow> Some (Err e loc) | Some (Inr val) \<Rightarrow> Some (Ret val loc))"

text \<open>The first newline after the opening quotes of a multi-line string is dropped.\<close>

definition skip_first_newline :: "string \<Rightarrow> string" where
  "skip_first_newline str =
     (if length str \<ge> 1 \<and> str ! 0 = LF then drop 1 str
      else if length str \<ge> 2 \<and> str ! 0 = CR \<and> str ! 1 = LF then drop 2 str
      else str)"

definition unquoted :: "nat \<Rightarrow> string \<Rightarrow> string" where
  "unquoted n str = take (length (drop n str) - n) (drop n str)"

definition parse_ml_basic_string :: "spec \<Rightarrow> location \<Rightarrow> string parsed" where
  "parse_ml_basic_string sp loc =
     pbind (scan_or ''toml::parse_ml_basic_string: invalid string format'' (sx_ml_basic_string sp) loc) (\<lambda>reg loc.
     loop_result loc (ml_basic_string_loop sp (skip_first_newline (unquoted 3 (reg_string reg))) []))"

definition parse_basic_string_only :: "spec \<Rightarrow> location \<Rightarrow> string parsed" where
  "parse_basic_string_only sp loc =
     pbind (scan_or ''toml::parse_basic_string: invalid string format'' (sx_basic_string sp) loc) (\<lambda>reg loc.
     loop_result loc (basic_string_loop sp (unquoted 1 (reg_string reg)) []))"

definition parse_ml_literal_string :: "location \<Rightarrow> string parsed" where
  "parse_ml_literal_string loc =
     pbind (scan_or ''toml::parse_ml_literal_string: invalid string format'' sx_ml_literal_string loc) (\<lambda>reg loc.
     Some (Ret (skip_first_newline (unquoted 3 (reg_string reg))) loc))"

definition parse_literal_string_only :: "location \<Rightarrow> string parsed" where
  "parse_literal_string_only loc =
     pbind (scan_or ''toml::parse_literal_string: invalid string format'' sx_literal_string loc) (\<lambda>reg loc.
     Some (Ret (unquoted 1 (reg_string reg)) loc))"

definition parse_string :: "spec \<Rightarrow> location \<Rightarrow> toml_value parsed" where
  "parse_string sp loc =
     (let first = loc in
      if \<not> loc_eof loc \<and> current loc = DQ then
        pbind (scan_ok (literal [DQ, DQ, DQ]) loc) (\<lambda>ml _.
        pbind (if ml then parse_ml_basic_string sp first else parse_basic_string_only sp first) (\<lambda>str loc.
        Some (Ret (VString str) loc)))
      else if \<not> loc_eof loc \<and> current loc = SQ then
        pbind (scan_ok (literal [SQ, SQ, SQ]) loc) (\<lambda>ml _.
        pbind (if ml then parse_ml_literal_string first else parse_literal_string_only first) (\<lambda>str loc.
        Some (Ret (VString str) loc)))
      else Some (Err ''toml::parse_string: not a string'' loc))"

end
