(* ===== verification/TomlText.thy ===== *)
theory TomlText
  imports TomlScalar
begin

text \<open>
  Text in TOML: the characters beyond ASCII that the grammar admits are the UTF-8 encodings of code
  points, as \<open>parse_utf8_codepoint\<close> writes them for escape sequences.
\<close>

section \<open>Encoding code points\<close>

lemma uint8_le [simp]: "uint8 a \<le> uint8 b \<longleftrightarrow> (of_char a :: nat) \<le> of_char b"
  by (simp add: word_le_nat_alt unat_uint8)

lemma unat_low6: "unat ((w :: u32) AND 0x3F) = unat w mod 64"
proof -
  have "w AND 0x3F = take_bit 6 w" by (simp add: take_bit_eq_mask mask_eq_exp_minus_1)
  also have "\<dots> = w mod 64" by (simp add: take_bit_eq_mod)
  finally show ?thesis by (simp add: unat_mod)
qed

lemma unat_drop_div: "unat (drop_bit n (w :: u32)) = unat w div 2 ^ n"
proof -
  have "take_bit 32 (unat w) = unat w" using unsigned_less [of w, where 'a = nat] by (simp add: take_bit_nat_eq_self)
  then show ?thesis using unsigned_drop_bit_eq [of n w, where 'a = nat] by (simp add: drop_bit_eq_div)
qed

lemma unat_lead:
  fixes w b :: u32
  assumes "unat w < 2 ^ n" "unat b * 2 ^ n < 2 ^ 32"
  shows "unat (push_bit n b OR w) = unat b * 2 ^ n + unat w"
  using unat_shift_or [of b n w] assms by simp

lemma lead_bytes:
  fixes w :: u32
  shows "unat w < 32 \<Longrightarrow> unat (0xC0 OR w) = 0xC0 + unat w"
    "unat w < 16 \<Longrightarrow> unat (0xE0 OR w) = 0xE0 + unat w"
    "unat w < 8 \<Longrightarrow> unat (0xF0 OR w) = 0xF0 + unat w"
    "unat w < 64 \<Longrightarrow> unat (0x80 OR w) = 0x80 + unat w"
  using unat_lead [of w 6 3] unat_lead [of w 4 14] unat_lead [of w 3 30] unat_lead [of w 6 2] by simp_all

text \<open>The encoding as arithmetic on code points.\<close>

definition encode_nat :: "nat \<Rightarrow> toml_error + string" where
  "encode_nat n =
     (let bs = (\<lambda>xs. List.map (char_of :: nat \<Rightarrow> char) xs) in
      if n < 0x80 then Inr (bs [n])
      else if n < 0x800 then Inr (bs [0xC0 + n div 64, 0x80 + n mod 64])
      else if n < 0x10000 then
        if 0xD800 \<le> n \<and> n \<le> 0xDFFF then Inl ''toml::parse_utf8_codepoint: [0xD800, 0xDFFF] is not a valid UTF-8''
        else Inr (bs [0xE0 + n div 4096, 0x80 + n div 64 mod 64, 0x80 + n mod 64])
      else if n < 0x110000 then
        Inr (bs [0xF0 + n div 262144, 0x80 + n div 4096 mod 64, 0x80 + n div 64 mod 64, 0x80 + n mod 64])
      else Inl ''toml::parse_utf8_codepoint: input codepoint is too large.'')"

lemma encode_codepoint_nat: "encode_codepoint cp = encode_nat (unat cp)"
proof -
  have cont: "unat (0x80 OR (w AND 0x3F)) = 0x80 + unat w mod 64" for w :: u32
    using lead_bytes(4) [of "w AND 0x3F"] by (simp add: unat_low6)
  have c: "unat cp < 0x800 \<Longrightarrow> unat (0xC0 OR drop_bit 6 cp) = 0xC0 + unat cp div 64"
    "unat cp < 0x10000 \<Longrightarrow> unat (0xE0 OR drop_bit 12 cp) = 0xE0 + unat cp div 4096"
    "unat cp < 0x110000 \<Longrightarrow> unat (0xF0 OR drop_bit 18 cp) = 0xF0 + unat cp div 262144"
    using lead_bytes(1-3) by (simp_all add: unat_drop_div less_mult_imp_div_less)
  show ?thesis
    by (simp add: encode_codepoint_def encode_nat_def Let_def to_char_def word_less_nat_alt word_le_nat_alt c cont unat_drop_div)
qed


abbreviation cont_byte :: "char \<Rightarrow> bool" where
  "cont_byte c \<equiv> 0x80 \<le> (of_char c :: nat) \<and> (of_char c :: nat) \<le> 0xBF"

lemma munch_2bytes:
  "munch utf8_2bytes xs =
     (case xs of
        a # b # _ \<Rightarrow> if 0xC2 \<le> (of_char a :: nat) \<and> (of_char a :: nat) \<le> 0xDF \<and> cont_byte b then Some 2 else None
      | _ \<Rightarrow> None)"
  by (auto simp: utf8_2bytes_def split: list.splits)

definition lead3 :: "nat \<Rightarrow> nat \<Rightarrow> bool" where
  "lead3 a b \<longleftrightarrow> (a = 0xE0 \<and> 0xA0 \<le> b \<and> b \<le> 0xBF) \<or> (0xE1 \<le> a \<and> a \<le> 0xEC \<and> 0x80 \<le> b \<and> b \<le> 0xBF) \<or>
     (a = 0xED \<and> 0x80 \<le> b \<and> b \<le> 0x9F) \<or> (0xEE \<le> a \<and> a \<le> 0xEF \<and> 0x80 \<le> b \<and> b \<le> 0xBF)"

definition lead4 :: "nat \<Rightarrow> nat \<Rightarrow> bool" where
  "lead4 a b \<longleftrightarrow> (a = 0xF0 \<and> 0x90 \<le> b \<and> b \<le> 0xBF) \<or> (0xF1 \<le> a \<and> a \<le> 0xF3 \<and> 0x80 \<le> b \<and> b \<le> 0xBF) \<or>
     (a = 0xF4 \<and> 0x80 \<le> b \<and> b \<le> 0x8F)"

lemma lead_char_eq: "(c = CHR 0xE0) = ((of_char c :: nat) = 0xE0)" "(c = CHR 0xED) = ((of_char c :: nat) = 0xED)"
  "(c = CHR 0xF0) = ((of_char c :: nat) = 0xF0)" "(c = CHR 0xF4) = ((of_char c :: nat) = 0xF4)"
  using of_char_eq_iff [of c "CHR 0xE0", where 'a = nat] of_char_eq_iff [of c "CHR 0xED", where 'a = nat]
    of_char_eq_iff [of c "CHR 0xF0", where 'a = nat] of_char_eq_iff [of c "CHR 0xF4", where 'a = nat] by auto

lemma munch_3bytes:
  "munch utf8_3bytes xs =
     (case xs of
        a # b # c # _ \<Rightarrow> if lead3 (of_char a) (of_char b) \<and> cont_byte c then Some 3 else None
      | _ \<Rightarrow> None)"
  by (auto simp: utf8_3bytes_def lead3_def lead_char_eq split: list.splits)

lemma munch_4bytes:
  "munch utf8_4bytes xs =
     (case xs of
        a # b # c # d # _ \<Rightarrow> if lead4 (of_char a) (of_char b) \<and> cont_byte c \<and> cont_byte d then Some 4 else None
      | _ \<Rightarrow> None)"
  by (auto simp: utf8_4bytes_def lead4_def lead_char_eq split: list.splits)


lemma munch_non_ascii:
  "munch non_ascii xs =
     (case munch utf8_2bytes xs of Some k \<Rightarrow> Some k
      | None \<Rightarrow> (case munch utf8_3bytes xs of Some k \<Rightarrow> Some k | None \<Rightarrow> munch utf8_4bytes xs))"
  by (simp add: non_ascii_def split: option.splits)

lemma encode_nat_codepoint:
  "(\<exists>cp. 0x80 \<le> cp \<and> encode_codepoint cp = Inr bs) \<longleftrightarrow> (\<exists>n \<ge> 0x80. encode_nat n = Inr bs)"
proof
  assume "\<exists>n \<ge> 0x80. encode_nat n = Inr bs"
  then obtain n where n: "0x80 \<le> n" "encode_nat n = Inr bs" by blast
  then have "n < 0x110000" by (auto simp: encode_nat_def Let_def split: if_splits)
  then have "unat (word_of_nat n :: u32) = n" by (simp add: unat_of_nat)
  with n show "\<exists>cp. 0x80 \<le> cp \<and> encode_codepoint cp = Inr bs"
    by (intro exI [of _ "word_of_nat n"]) (simp add: encode_codepoint_nat word_le_nat_alt)
qed (auto simp: encode_codepoint_nat word_le_nat_alt)

lemma nat_le_split: "(a :: nat) \<le> b \<Longrightarrow> \<exists>p. b = a + p"
  by (rule le_Suc_ex)

lemma mod_64: "r < 64 \<Longrightarrow> (64 * k + r) mod 64 = (r :: nat)"
  by simp

lemma mod_64_le: "n mod 64 \<le> (63 :: nat)"
  using mod_less_divisor [of 64 n] by simp

lemma encode_exists_2:
  assumes "0xC2 \<le> (of_char a :: nat)" "(of_char a :: nat) \<le> 0xDF" "cont_byte b"
  shows "\<exists>n \<ge> 0x80. encode_nat n = Inr [a, b]"
proof -
  obtain p q where pq: "(of_char a :: nat) = 0xC0 + p" "(of_char b :: nat) = 0x80 + q"
    using assms nat_le_split [of "0xC0" "of_char a"] nat_le_split [of "0x80" "of_char b"] by fastforce
  then have b: "2 \<le> p" "p < 32" "q < 64" using assms by auto
  then have "(64 * p + q) div 64 = p" "(64 * p + q) mod 64 = q" by simp_all
  then have "encode_nat (64 * p + q) = Inr [char_of (0xC0 + p), char_of (0x80 + q)]"
    using b by (simp add: encode_nat_def Let_def)
  moreover have "char_of (0xC0 + p) = a" "char_of (0x80 + q) = b" using pq by (metis char_of_char)+
  ultimately show ?thesis using b by (intro exI [of _ "64 * p + q"]) simp
qed

lemma encode_exists_3:
  assumes "lead3 (of_char a) (of_char b)" "cont_byte c"
  shows "\<exists>n \<ge> 0x80. encode_nat n = Inr [a, b, c]"
proof -
  obtain p q r where pq: "(of_char a :: nat) = 0xE0 + p" "(of_char b :: nat) = 0x80 + q" "(of_char c :: nat) = 0x80 + r"
    using assms nat_le_split [of "0xE0" "of_char a"] nat_le_split [of "0x80" "of_char b"] nat_le_split [of "0x80" "of_char c"]
    unfolding lead3_def by fastforce
  let ?n = "4096 * p + 64 * q + r"
  have b: "p < 16" "q < 64" "r < 64" "p = 0 \<Longrightarrow> 32 \<le> q" "p = 13 \<Longrightarrow> q < 32"
    using assms pq by (auto simp: lead3_def)
  have "?n div 4096 = p" by (rule div_nat_eqI) (use b in \<open>simp_all add: algebra_simps\<close>)
  moreover have "?n div 64 = 64 * p + q" by (rule div_nat_eqI) (use b in \<open>simp_all add: algebra_simps\<close>)
  moreover have "?n mod 64 = r" using mod_64 [OF b(3), of "64 * p + q"] by (simp add: algebra_simps)
  ultimately have d: "?n div 4096 = p" "?n div 64 mod 64 = q" "?n mod 64 = r" using b(1-3) by simp_all
  have lo: "0x800 \<le> ?n" using b(4) by (cases "p = 0") linarith+
  have hi: "?n < 0x10000" using b(1-3) by linarith
  have sur: "?n < 0xD800 \<or> 0xDFFF < ?n" using b by (cases "p = 13") linarith+
  have "encode_nat ?n = Inr [char_of (0xE0 + p), char_of (0x80 + q), char_of (0x80 + r)]"
    unfolding encode_nat_def Let_def d using lo hi sur by simp linarith
  moreover have "0x80 \<le> ?n" using lo by linarith
  ultimately show ?thesis using pq by (metis char_of_char)
qed

lemma encode_exists_4:
  assumes "lead4 (of_char a) (of_char b)" "cont_byte c" "cont_byte d"
  shows "\<exists>n \<ge> 0x80. encode_nat n = Inr [a, b, c, d]"
proof -
  obtain m p q r where pq: "(of_char a :: nat) = 0xF0 + m" "(of_char b :: nat) = 0x80 + p" "(of_char c :: nat) = 0x80 + q"
      "(of_char d :: nat) = 0x80 + r"
    using assms nat_le_split [of "0xF0" "of_char a"] nat_le_split [of "0x80" "of_char b"] nat_le_split [of "0x80" "of_char c"]
      nat_le_split [of "0x80" "of_char d"]
    unfolding lead4_def by fastforce
  let ?n = "262144 * m + 4096 * p + 64 * q + r"
  have b: "m < 5" "p < 64" "q < 64" "r < 64" "m = 0 \<Longrightarrow> 16 \<le> p" "m = 4 \<Longrightarrow> p < 16"
    using assms pq by (auto simp: lead4_def)
  have "?n div 262144 = m" by (rule div_nat_eqI) (use b in \<open>simp_all add: algebra_simps\<close>)
  moreover have "?n div 4096 = 64 * m + p" by (rule div_nat_eqI) (use b in \<open>simp_all add: algebra_simps\<close>)
  moreover have "?n div 64 = 64 * (64 * m + p) + q" by (rule div_nat_eqI) (use b in \<open>simp_all add: algebra_simps\<close>)
  moreover have "?n mod 64 = r" "(64 * (64 * m + p) + q) mod 64 = q" "(64 * m + p) mod 64 = p"
    using mod_64 [OF b(4), of "4096 * m + 64 * p + q"] mod_64 [OF b(3), of "64 * m + p"] mod_64 [OF b(2), of m]
    by (simp_all add: algebra_simps)
  ultimately have d: "?n div 262144 = m" "?n div 4096 mod 64 = p" "?n div 64 mod 64 = q" "?n mod 64 = r" by metis+
  have lo: "0x10000 \<le> ?n" using b(5) by (cases "m = 0") linarith+
  have hi: "?n < 0x110000" using b by (cases "m = 4") linarith+
  have "encode_nat ?n = Inr [char_of (0xF0 + m), char_of (0x80 + p), char_of (0x80 + q), char_of (0x80 + r)]"
    unfolding encode_nat_def Let_def d using lo hi by simp
  moreover have "0x80 \<le> ?n" using lo by linarith
  ultimately show ?thesis using pq by (metis char_of_char)
qed


lemma take_length_prefix: "k \<le> length xs \<Longrightarrow> take k xs = ys \<Longrightarrow> \<exists>zs. xs = ys @ zs \<and> k = length ys"
  by (metis append_take_drop_id length_take min.absorb2)

lemma encode_munch:
  assumes "0x80 \<le> n" "encode_nat n = Inr bs"
  shows "munch non_ascii (bs @ zs) = Some (length bs)"
proof -
  have [simp]: "(of_char (char_of m :: char) :: nat) = m" if "m < 256" for m using that by simp
  consider "n < 0x800" | "0x800 \<le> n" "n < 0x10000" | "0x10000 \<le> n" "n < 0x110000"
    using assms(2) by (auto simp: encode_nat_def Let_def not_less split: if_splits)
  then show ?thesis
  proof cases
    case 1
    with assms have "bs = [char_of (0xC0 + n div 64), char_of (0x80 + n mod 64)]" by (simp add: encode_nat_def Let_def)
    moreover have "0xC0 + n div 64 < 0xE0" "0xC2 \<le> 0xC0 + n div 64" "n mod 64 \<le> 63"
      using 1 assms(1) mod_64_le [of n] by (simp_all add: less_mult_imp_div_less)
    ultimately show ?thesis by (simp add: munch_non_ascii munch_2bytes)
  next
    case 2
    then have "n < 0xD800 \<or> 0xDFFF < n" using assms(2) by (auto simp: encode_nat_def Let_def split: if_splits)
    moreover define p q where "p = n div 4096" and "q = n div 64 mod 64"
    have n: "n = 4096 * p + 64 * q + n mod 64"
      using div_mult_mod_eq [of n 64] div_mult_mod_eq [of "n div 64" 64] div_mult2_eq [of n 64 64]
      unfolding p_def q_def by (simp only: arith_simps)
    ultimately have "p < 16" "q < 64" "p = 0 \<Longrightarrow> 32 \<le> q" "p = 13 \<Longrightarrow> q < 32" using 2 q_def by simp_all linarith+
    then have "lead3 (0xE0 + p) (0x80 + q)" by (auto simp: lead3_def) 
    moreover have "bs = [char_of (0xE0 + p), char_of (0x80 + q), char_of (0x80 + n mod 64)]"
      using 2 assms p_def q_def by (auto simp: encode_nat_def Let_def split: if_splits)
    ultimately show ?thesis using \<open>p < 16\<close> \<open>q < 64\<close>
      by (simp add: munch_non_ascii munch_2bytes munch_3bytes mod_64_le)
  next
    case 3
    define p q where "p = n div 262144" and "q = n div 4096 mod 64"
    have n: "n = 262144 * p + 4096 * q + n mod 4096"
      using div_mult_mod_eq [of n 4096] div_mult_mod_eq [of "n div 4096" 64] div_mult2_eq [of n 4096 64]
      unfolding p_def q_def by (simp only: arith_simps)
    have "p < 5" "q < 64" "p = 0 \<Longrightarrow> 16 \<le> q" "p = 4 \<Longrightarrow> q < 16" using 3 n q_def by simp_all
    then have "lead4 (0xF0 + p) (0x80 + q)" unfolding lead4_def by linarith
    moreover have "bs = [char_of (0xF0 + p), char_of (0x80 + q), char_of (0x80 + n div 64 mod 64), char_of (0x80 + n mod 64)]"
      using 3 assms p_def q_def by (auto simp: encode_nat_def Let_def split: if_splits)
    ultimately show ?thesis using \<open>p < 5\<close> \<open>q < 64\<close>
      by (simp add: munch_non_ascii munch_2bytes munch_3bytes munch_4bytes lead3_def mod_64_le)
  qed
qed

lemma munch_utf8:
  "munch non_ascii xs = Some k \<longleftrightarrow> k \<le> length xs \<and> (\<exists>cp \<ge> 0x80. encode_codepoint cp = Inr (take k xs))"
proof
  assume k: "munch non_ascii xs = Some k"
  then have "\<exists>n \<ge> 0x80. encode_nat n = Inr (take k xs)"
    by (auto simp: munch_non_ascii munch_2bytes munch_3bytes munch_4bytes split: option.splits list.splits if_splits
      intro: encode_exists_2 encode_exists_3 encode_exists_4)
  then show "k \<le> length xs \<and> (\<exists>cp \<ge> 0x80. encode_codepoint cp = Inr (take k xs))"
    using munch_le(1) [OF k] encode_nat_codepoint [of "take k xs"] by blast
next
  assume r: "k \<le> length xs \<and> (\<exists>cp \<ge> 0x80. encode_codepoint cp = Inr (take k xs))"
  then obtain n where "0x80 \<le> n" "encode_nat n = Inr (take k xs)" using encode_nat_codepoint [of "take k xs"] by blast
  from encode_munch [OF this, of "drop k xs"] r show "munch non_ascii xs = Some k" by simp
qed

text \<open>
  C24: beyond ASCII the grammar takes exactly the well-formed UTF-8 encodings of code points: no overlong
  form, no surrogate, nothing above U+10FFFF, and what an escape sequence writes can be read.
\<close>

theorem non_ascii_is_utf8:
  assumes "loc_ok loc"
  shows "(\<exists>reg loc'. toml_scan non_ascii loc = Some (Some reg, loc') \<and> reg_string reg = cs) \<longleftrightarrow>
    prefix cs (loc_rest loc) \<and> (\<exists>cp. 0x80 \<le> cp \<and> encode_codepoint cp = Inr cs)"
proof -
  have wb: "well_behaved non_ascii" by (simp add: char_syntax_defs)
  have "(\<exists>reg loc'. toml_scan non_ascii loc = Some (Some reg, loc') \<and> reg_string reg = cs) \<longleftrightarrow>
      (\<exists>k. munch non_ascii (loc_rest loc) = Some k \<and> take k (loc_rest loc) = cs)"
    using scan_munch(1) [OF wb assms] reg_string_advance [OF assms]
    by (cases "munch non_ascii (loc_rest loc)") auto
  also have "\<dots> \<longleftrightarrow> prefix cs (loc_rest loc) \<and> (\<exists>cp. 0x80 \<le> cp \<and> encode_codepoint cp = Inr cs)"
  proof
    assume r: "prefix cs (loc_rest loc) \<and> (\<exists>cp. 0x80 \<le> cp \<and> encode_codepoint cp = Inr cs)"
    then have "take (length cs) (loc_rest loc) = cs" "length cs \<le> length (loc_rest loc)"
      by (auto simp: prefix_def)
    with r munch_utf8 [of "loc_rest loc" "length cs"] show "\<exists>k. munch non_ascii (loc_rest loc) = Some k \<and> take k (loc_rest loc) = cs"
      by auto
  qed (auto simp: munch_utf8 take_is_prefix)
  finally show ?thesis .
qed

lemma non_ascii_is_utf8_witness:
  "\<exists>reg loc'. toml_scan non_ascii (start_loc [CHR 0xE2, CHR 0x82, CHR 0xAC]) = Some (Some reg, loc') \<and>
     reg_string reg = [CHR 0xE2, CHR 0x82, CHR 0xAC]"
proof -
  have "encode_codepoint 0x20AC = Inr [CHR 0xE2, CHR 0x82, CHR 0xAC]" by code_simp
  moreover have "(0x80 :: u32) \<le> 0x20AC" by simp
  ultimately show ?thesis
    using non_ascii_is_utf8 [of "start_loc [CHR 0xE2, CHR 0x82, CHR 0xAC]" "[CHR 0xE2, CHR 0x82, CHR 0xAC]"]
    by (metis prefix_order.refl start_loc_simps(3,4))
qed

end
