(* ===== verification/TomlParser.thy ===== *)
theory TomlParser
  imports TomlScalar "HOL-Library.AList"
begin

text \<open>
  The parser of \<open>mytoml/toml11/toml.hpp\<close>: error recovery, keys, arrays, inline tables, the insertion of
  values into tables, and whole documents.

  The context of the source is its list of reported errors here, passed along; the \<open>spec\<close> in it never
  changes.  The functions that call each other are one recursive function over a task, what is to be
  parsed next with the variables of the loop it is in.  None of them need return: their results are
  options, \<open>None\<close> when they do not.
\<close>

section \<open>Error recovery\<close>

text \<open>A scan as a condition: whether it succeeds, and the location behind it.\<close>

definition try_scan :: "scanner \<Rightarrow> location \<Rightarrow> (bool \<times> location) option" where
  "try_scan s loc = map_option (\<lambda>(reg, loc). (reg \<noteq> None, loc)) (toml_scan s loc)"

definition skip_whitespace :: "location \<Rightarrow> location option" where
  "skip_whitespace loc = map_option snd (try_scan sx_ws loc)"

text \<open>The loop that looks for the end of a comment and does not move.\<close>

partial_function (option) skip_comment_text :: "location \<Rightarrow> location option" where
  "skip_comment_text loc =
     (if loc_eof loc then Some loc
      else if current loc = LF then Some (advance 1 loc)
      else skip_comment_text loc)"

declare skip_comment_text.simps [code]

partial_function (option) skip_comment_block :: "location \<Rightarrow> location option" where
  "skip_comment_block loc =
     (if loc_eof loc then Some loc
      else Option.bind (skip_whitespace loc) (\<lambda>loc.
        if current loc = CHR ''#'' then Option.bind (skip_comment_text loc) skip_comment_block
        else Option.bind (try_scan sx_newline loc) (\<lambda>(ok, loc).
          if ok then skip_comment_block loc else Some loc)))"

declare skip_comment_block.simps [code]

partial_function (option) skip_until_literal :: "string \<Rightarrow> location \<Rightarrow> location option" where
  "skip_until_literal cs loc =
     (if loc_eof loc then Some loc
      else Option.bind (try_scan (literal cs) loc) (\<lambda>(ok, loc).
        if ok then Some loc else skip_until_literal cs (advance 1 loc)))"

declare skip_until_literal.simps [code]

partial_function (option) skip_until_quote :: "char \<Rightarrow> location \<Rightarrow> location option" where
  "skip_until_quote q loc =
     (if loc_eof loc then Some loc
      else
        let loc = advance 1 loc in
        if current loc = q \<or> current loc = LF then Some (advance 1 loc) else skip_until_quote q loc)"

declare skip_until_quote.simps [code]

definition skip_string_like :: "location \<Rightarrow> location option" where
  "skip_string_like loc =
     Option.bind (try_scan (literal [DQ, DQ, DQ]) loc) (\<lambda>(ok, loc).
     if ok then skip_until_literal [DQ, DQ, DQ] loc
     else Option.bind (try_scan (literal [SQ, SQ, SQ]) loc) (\<lambda>(ok, loc).
     if ok then skip_until_literal [SQ, SQ, SQ] loc
     else if current loc = DQ then skip_until_quote DQ loc
     else if current loc = SQ then skip_until_quote SQ loc
     else Some loc))"

text \<open>Back to the beginning of the line.\<close>

fun retrace_line :: "nat \<Rightarrow> location \<Rightarrow> location" where
  "retrace_line 0 loc = loc"
| "retrace_line (Suc n) loc =
     (let loc = retrace loc in if current loc = LF then advance 1 loc else retrace_line n loc)"

text \<open>Whether a table header starts here.\<close>

definition at_table_header :: "spec \<Rightarrow> location \<Rightarrow> bool option" where
  "at_table_header sp loc =
     Option.bind (try_scan (sx_std_table sp) loc) (\<lambda>(std, loc).
     if std then Some True else map_option fst (try_scan (sx_array_table sp) loc))"

text \<open>
  The loops of \<open>skip_array_like\<close> (\<open>inline\<close> is false) and \<open>skip_inline_table_like\<close>, which call each
  other.
\<close>

partial_function (option) skip_nested :: "spec \<Rightarrow> bool \<Rightarrow> location \<Rightarrow> location option" where
  "skip_nested sp inline loc =
     (if loc_eof loc then Some loc
      else
        let c = current loc in
        if inline \<and> c = LF \<and> \<not> v1_1_0_allow_newlines_in_inline_tables sp then Some loc
        else if c = DQ \<or> c = SQ then Option.bind (skip_string_like loc) (skip_nested sp inline)
        else if c = CHR ''#'' then
          Option.bind (skip_comment_block loc) (\<lambda>loc.
            if inline \<and> \<not> v1_1_0_allow_newlines_in_inline_tables sp then Some loc else skip_nested sp inline loc)
        else if c = CHR ''{'' then Option.bind (skip_nested sp True (advance 1 loc)) (skip_nested sp inline)
        else if c = CHR ''['' then
          Option.bind (at_table_header sp loc) (\<lambda>header.
            if header then Some loc
            else Option.bind (skip_nested sp False (advance 1 loc)) (skip_nested sp inline))
        else if \<not> inline \<and> c = CHR ''='' then Some (retrace_line (loc_at loc) loc)
        else if \<not> inline \<and> c = CHR '']'' then Some loc
        else if inline \<and> c = CHR ''}'' then Some loc
        else skip_nested sp inline (advance 1 loc))"

declare skip_nested.simps [code]

definition skip_array_like :: "spec \<Rightarrow> location \<Rightarrow> location option" where
  "skip_array_like sp loc = skip_nested sp False (advance 1 loc)"

definition skip_inline_table_like :: "spec \<Rightarrow> location \<Rightarrow> location option" where
  "skip_inline_table_like sp loc = skip_nested sp True (advance 1 loc)"

text \<open>A character loop: stop where \<open>P\<close> holds.\<close>

partial_function (option) skip_until :: "(char \<Rightarrow> bool) \<Rightarrow> location \<Rightarrow> location option" where
  "skip_until P loc =
     (if loc_eof loc then Some loc
      else if P (current loc) then Some loc
      else skip_until P (advance 1 loc))"

declare skip_until.simps [code]

section \<open>Guessing the type of a value\<close>

datatype value_t =
    ty_empty | ty_boolean | ty_integer | ty_floating | ty_string | ty_offset_datetime | ty_local_datetime
  | ty_local_date | ty_local_time | ty_array | ty_table

type_synonym guess = "(toml_error + value_t) option"

text \<open>The guesses of \<open>guess_number_type\<close>, each a scan from the beginning; \<open>next\<close> is the rest of them.\<close>

definition guess_scan :: "scanner \<Rightarrow> location \<Rightarrow> (location \<Rightarrow> guess) \<Rightarrow> guess \<Rightarrow> guess" where
  "guess_scan s first hit next =
     Option.bind (try_scan s first) (\<lambda>(ok, loc). if ok then hit loc else next)"

definition guess_local_datetime :: "location \<Rightarrow> guess" where
  "guess_local_datetime loc =
     (if current loc = CHR ''+'' \<or> current loc = CHR ''-'' then Some (Inl ''bad offset: must be [+-]HH:MM or Z'')
      else Some (Inr ty_local_datetime))"

definition guess_local_date :: "location \<Rightarrow> guess" where
  "guess_local_date loc =
     (if loc_eof loc then Some (Inr ty_local_date)
      else
        let c = current loc; loc' = advance 1 loc in
        if c = CHR ''T'' \<or> c = CHR ''t'' then Some (Inl ''bad time: must be HH:MM:SS.subsec'')
        else if c = SP \<and> \<not> loc_eof loc' \<and> isdigit (current loc') then Some (Inl ''bad time: must be HH:MM:SS.subsec'')
        else if isdigit c then Some (Inl ''bad datetime: missing T or space'')
        else Some (Inr ty_local_date))"

definition guess_floating :: "spec \<Rightarrow> location \<Rightarrow> guess" where
  "guess_floating sp loc =
     (if \<not> loc_eof loc \<and> current loc = CHR ''_'' then
        Option.bind (if ext_num_suffix sp then map_option fst (try_scan num_suffix loc) else Some False) (\<lambda>ok.
        if ok then Some (Inr ty_floating) else Some (Inl ''bad float: `_` must be surrounded by digits''))
      else Some (Inr ty_floating))"

definition guess_integer :: "spec \<Rightarrow> location \<Rightarrow> location \<Rightarrow> guess" where
  "guess_integer sp first loc =
     (if loc_eof loc then Some (Inr ty_integer)
      else
        let c = current loc; int_str = reg_string (mk_region first loc) in
        if c = CHR ''_'' then
          Option.bind (if ext_num_suffix sp then map_option fst (try_scan num_suffix loc) else Some False) (\<lambda>ok.
          if ok then Some (Inr ty_integer)
          else if int_str \<in> {''0'', ''-0'', ''+0''} then Some (Inl ''bad integer: leading zero is not allowed in decimal int'')
          else Some (Inl ''bad integer: `_` must be surrounded by digits''))
        else if isdigit c then
          if c = CHR ''0'' then Some (Inl ''bad integer: leading zero'')
          else Some (Inl ''bad integer: invalid digit after an integer'')
        else if c = CHR '':'' \<or> c = CHR ''-'' then Some (Inl ''bad datetime: invalid format'')
        else if c = CHR ''.'' \<or> c = CHR ''e'' \<or> c = CHR ''E'' then Some (Inl ''bad float: invalid format'')
        else Some (Inr ty_integer))"

definition guess_number_type :: "spec \<Rightarrow> location \<Rightarrow> guess" where
  "guess_number_type sp first =
     guess_scan (sx_offset_datetime sp) first (\<lambda>_. Some (Inr ty_offset_datetime)) (
     guess_scan (sx_local_datetime sp) first guess_local_datetime (
     guess_scan sx_local_date first guess_local_date (
     guess_scan (sx_local_time sp) first (\<lambda>_. Some (Inr ty_local_time)) (
     guess_scan sx_floating first (guess_floating sp) (
     guess_scan (if ext_hex_float sp then sx_hex_floating else either []) first (guess_floating sp) (
     guess_scan sx_integer first (guess_integer sp first) (
       if \<not> loc_eof first \<and> current first = CHR ''.'' then
         Some (Inl ''bad float: integer part is required before decimal point'')
       else if \<not> loc_eof first \<and> current first = CHR ''_'' then
         Some (Inl ''bad number: `_` must be surrounded by digits'')
       else Some (Inl ''bad format: unknown value appeared''))))))))"

definition guess_value_type :: "spec \<Rightarrow> location \<Rightarrow> guess" where
  "guess_value_type sp loc =
     (let c = current loc in
      if c = DQ \<or> c = SQ then Some (Inr ty_string)
      else if c = CHR ''['' then Some (Inr ty_array)
      else if c = CHR ''{'' then Some (Inr ty_table)
      else if c = CHR ''t'' \<or> c = CHR ''f'' then Some (Inr ty_boolean)
      else if c = CHR ''T'' then Some (Inl ''toml::parse_value: `true` must be in lowercase. A string must be surrounded by quotes.'')
      else if c = CHR ''F'' then Some (Inl ''toml::parse_value: `false` must be in lowercase. A string must be surrounded by quotes.'')
      else if c = CHR ''i'' then
        guess_scan (literal ''inf'') loc (\<lambda>_. Some (Inr ty_floating))
          (Some (Inl ''toml::parse_value: `inf` must be in lowercase. A string must be surrounded by quotes.''))
      else if c = CHR ''I'' then Some (Inl ''toml::parse_value: `inf` must be in lowercase. A string must be surrounded by quotes.'')
      else if c = CHR ''n'' then
        guess_scan (literal ''nan'') loc (\<lambda>_. Some (Inr ty_floating))
          (if ext_null_value sp then
             guess_scan (literal ''null'') loc (\<lambda>_. Some (Inr ty_empty))
               (Some (Inl ''toml::parse_value: Both `nan` and `null` must be in lowercase. A string must be surrounded by quotes.''))
           else Some (Inl ''toml::parse_value: `nan` must be in lowercase. A string must be surrounded by quotes.''))
      else if c = CHR ''N'' then
        Some (Inl (if ext_null_value sp
          then ''toml::parse_value: Both `nan` and `null` must be in lowercase. A string must be surrounded by quotes.''
          else ''toml::parse_value: `nan` must be in lowercase. A string must be surrounded by quotes.''))
      else guess_number_type sp loc)"

text \<open>Skipping what should have been a value, and a key with its value.\<close>

definition skip_value :: "spec \<Rightarrow> location \<Rightarrow> location option" where
  "skip_value sp loc =
     Option.bind (guess_value_type sp loc) (\<lambda>ty.
     if ty = Inr ty_string then skip_string_like loc
     else if ty = Inr ty_array then skip_array_like sp loc
     else if ty = Inr ty_table then skip_inline_table_like sp loc
     else skip_until (\<lambda>c. c = LF \<or> c = CHR '','' \<or> c = CHR '']'' \<or> c = CHR ''}'') loc)"

definition skip_key_value_pair :: "spec \<Rightarrow> location \<Rightarrow> location option" where
  "skip_key_value_pair sp loc =
     Option.bind (skip_until (\<lambda>c. c = CHR ''='' \<or> c = LF) loc) (\<lambda>loc.
     if \<not> loc_eof loc \<and> current loc = CHR ''='' then Option.bind (skip_whitespace loc) (skip_value sp)
     else Some loc)"

partial_function (option) skip_until_next_table :: "spec \<Rightarrow> location \<Rightarrow> location option" where
  "skip_until_next_table sp loc =
     (if loc_eof loc then Some loc
      else if current loc = LF then
        let line_begin = advance 1 loc in
        Option.bind (skip_whitespace line_begin) (\<lambda>loc.
        Option.bind (try_scan (sx_std_table sp) loc) (\<lambda>(std, loc).
        if std then Some line_begin
        else Option.bind (try_scan (sx_array_table sp) loc) (\<lambda>(aot, loc).
        if aot then Some line_begin else skip_until_next_table sp (advance 1 loc))))
      else skip_until_next_table sp (advance 1 loc))"

declare skip_until_next_table.simps [code]

section \<open>Comments and keys\<close>

text \<open>To the line behind the next newline, after at least one step.\<close>

partial_function (option) skip_rest_of_line :: "location \<Rightarrow> location option" where
  "skip_rest_of_line loc =
     (if loc_eof loc then Some loc
      else
        let loc = advance 1 loc in
        if current loc = LF then Some (advance 1 loc) else skip_rest_of_line loc)"

declare skip_rest_of_line.simps [code]

text \<open>Whether there is a comment, read with its newline.\<close>

definition parse_comment_line :: "spec \<Rightarrow> location \<Rightarrow> ((toml_error + bool) \<times> location) option" where
  "parse_comment_line sp loc =
     (let first = loc in
      Option.bind (skip_whitespace loc) (\<lambda>loc.
      Option.bind (try_scan (sx_comment sp) loc) (\<lambda>(com, loc).
      if com then
        if loc_eof loc then Some (Inr True, loc)
        else Option.bind (try_scan sx_newline loc) (\<lambda>(nl, loc).
          if nl then Some (Inr True, loc)
          else Option.bind (skip_rest_of_line loc) (\<lambda>loc.
            Some (Inl ''toml::parse_comment_line: newline (LF / CRLF) or EOF is expected'', loc)))
      else Some (Inr False, first))))"

definition parse_simple_key :: "spec \<Rightarrow> location \<Rightarrow> string parsed" where
  "parse_simple_key sp loc =
     (if current loc = DQ then parse_basic_string_only sp loc
      else if current loc = SQ then parse_literal_string_only loc
      else
        pbind (scan_or ''toml::parse_simple_key: invalid key: key must be quoted, quoted-literal, or bare key.''
          (sx_unquoted_key sp) loc) (\<lambda>bare loc. Some (Ret (reg_string bare) loc)))"

lemma pbind_mono [partial_function_mono]:
  assumes B: "mono_option B" and C: "\<And>x loc. mono_option (\<lambda>f. C x loc f)"
  shows "mono_option (\<lambda>f. pbind (B f) (\<lambda>x loc. C x loc f))"
proof -
  have "option_ord (pbind (B f) (\<lambda>x loc. C x loc f)) (pbind (B g) (\<lambda>x loc. C x loc g))"
    if "option.le_fun f g" for f g
  proof (cases "B f")
    case (Some r)
    then have "B g = Some r" using monotoneD [OF B, OF that] by (simp add: flat_ord_def)
    with Some monotoneD [OF C, OF that] show ?thesis by (cases r) (simp_all add: flat_ord_def)
  qed (simp add: flat_ord_def)
  then show ?thesis by (rule monotoneI)
qed

partial_function (option) parse_key_loop :: "spec \<Rightarrow> string list \<Rightarrow> location \<Rightarrow> string list parsed" where
  "parse_key_loop sp keys loc =
     (if loc_eof loc then Some (Ret keys loc)
      else
        pbind (parse_simple_key sp loc) (\<lambda>key loc.
        Option.bind (try_scan sx_dot_sep loc) (\<lambda>(dot, loc).
        if dot then parse_key_loop sp (keys @ [key]) loc else Some (Ret (keys @ [key]) loc))))"

declare parse_key_loop.simps [code]

definition parse_key :: "spec \<Rightarrow> location \<Rightarrow> string list parsed" where
  "parse_key sp loc =
     pbind (parse_key_loop sp [] loc) (\<lambda>keys loc.
     if keys = [] then Some (Err ''toml::parse_key: expected a new key, but got nothing'' loc)
     else Some (Ret keys loc))"

text \<open>
  The spaces, newlines and comments between the elements of arrays and inline tables: whether there
  are any, and whether a newline is among them (\<open>found\<close> says that one came before).
\<close>

partial_function (option) multiline_spacer_loop :: "spec \<Rightarrow> bool option \<Rightarrow> bool \<Rightarrow> location \<Rightarrow> (bool option \<times> location) option" where
  "multiline_spacer_loop sp spacer found loc =
     (if loc_eof loc then Some (spacer, loc)
      else Option.bind (try_scan (sequence [sx_comment sp, sx_newline]) loc) (\<lambda>(comm, loc).
      if comm then multiline_spacer_loop sp (Some True) True loc
      else Option.bind (try_scan sx_newline loc) (\<lambda>(nl, loc).
      if nl then multiline_spacer_loop sp (Some True) True loc
      else Option.bind (try_scan (repeat_at_least 1 (character SP)) loc) (\<lambda>(sps, loc).
      if sps then multiline_spacer_loop sp (Some found) found loc
      else Option.bind (try_scan (repeat_at_least 1 (character (CHR 0x09))) loc) (\<lambda>(tabs, loc).
      if tabs then multiline_spacer_loop sp (Some found) found loc
      else Some (spacer, loc))))))"

declare multiline_spacer_loop.simps [code]

definition skip_multiline_spacer :: "spec \<Rightarrow> bool \<Rightarrow> location \<Rightarrow> (bool option \<times> location) option" where
  "skip_multiline_spacer sp found loc = multiline_spacer_loop sp None found loc"

section \<open>Inserting values into tables\<close>

type_synonym table = "(string \<times> toml_value) list"

datatype inserting_value_kind = std_table | array_table | dotted_keys

text \<open>Where a value is: under a key, or the last element of the array under a key.\<close>

datatype path_step = Member string | Back string

fun is_table :: "toml_value \<Rightarrow> bool" where
  "is_table (VTable fmt t) = True"
| "is_table _ = False"

fun is_array_of_tables :: "toml_value \<Rightarrow> bool" where
  "is_array_of_tables (VArray fmt vs) = (vs \<noteq> [] \<and> list_all is_table vs)"
| "is_array_of_tables _ = False"

fun array_fmt :: "toml_value \<Rightarrow> array_format" where
  "array_fmt (VArray fmt vs) = fmt"
| "array_fmt _ = default_format"

fun table_of :: "toml_value \<Rightarrow> table" where
  "table_of (VTable fmt t) = t"
| "table_of _ = []"

text \<open>The entries of a table added to the table that is already there, up to the first conflict.\<close>

fun merge_table :: "table \<Rightarrow> table \<Rightarrow> bool \<times> table" where
  "merge_table [] target = (True, target)"
| "merge_table ((k, v) # kvs) target =
     (if map_of target k \<noteq> None then (False, target) else merge_table kvs (target @ [(k, v)]))"

definition insert_last :: "inserting_value_kind \<Rightarrow> table \<Rightarrow> string \<Rightarrow> toml_value \<Rightarrow> table \<times> (toml_error + path_step list)" where
  "insert_last kind t key val =
     (case kind of
        dotted_keys \<Rightarrow>
          (case map_of t key of
             Some _ \<Rightarrow> (t, Inl ''toml::insert_value: failed to insert a value, value already exists'')
           | None \<Rightarrow> (t @ [(key, val)], Inr [Member key]))
      | std_table \<Rightarrow>
          (case map_of t key of
             None \<Rightarrow> (t @ [(key, val)], Inr [Member key])
           | Some (VTable implicit target) \<Rightarrow>
               (case merge_table (table_of val) target of
                  (False, target) \<Rightarrow>
                    (AList.update key (VTable implicit target) t,
                     Inl ''toml::insert_value: failed to insert a table, table keys conflict to each other'')
                | (True, target) \<Rightarrow> (AList.update key (VTable multiline target) t, Inr [Member key]))
           | Some _ \<Rightarrow> (t, Inl ''toml::insert_value: failed to insert a table, table already defined''))
      | array_table \<Rightarrow>
          (case map_of t key of
             None \<Rightarrow> (t @ [(key, VArray array_of_tables [val])], Inr [Back key])
           | Some (VArray fmt vs) \<Rightarrow>
               if \<not> is_array_of_tables (VArray fmt vs) then
                 (t, Inl ''toml::insert_value: failed to insert an array of tables, value already exists'')
               else if fmt \<noteq> array_of_tables then
                 (t, Inl ''toml::insert_value: failed to insert a table, inline array of tables is immutable'')
               else (AList.update key (VArray fmt (vs @ [val])) t, Inr [Back key])
           | Some _ \<Rightarrow> (t, Inl ''toml::insert_value: failed to insert an array of tables, value already exists'')))"

fun insert_value :: "inserting_value_kind \<Rightarrow> table \<Rightarrow> string list \<Rightarrow> toml_value \<Rightarrow> table \<times> (toml_error + path_step list)" where
  "insert_value kind t [] val = (t, Inl ''toml::insert_key: no keys found'')"
| "insert_value kind t [key] val = insert_last kind t key val"
| "insert_value kind t (key # keys) val =
     (case map_of t key of
        None \<Rightarrow>
          let (t', r) = insert_value kind [] keys val in
          (t @ [(key, VTable (if kind = dotted_keys then dotted else implicit) t')], map_sum id ((#) (Member key)) r)
      | Some (VTable fmt sub) \<Rightarrow>
          if fmt = oneline \<or> fmt = multiline_oneline then
            (t, Inl ''toml::insert_value: failed to insert a value: inline table is immutable'')
          else if kind = dotted_keys \<and> fmt \<noteq> dotted then
            (t, Inl ''toml::insert_value: reopening a table using dotted keys'')
          else
            let (t', r) = insert_value kind sub keys val in
            (AList.update key (VTable fmt t') t, map_sum id ((#) (Member key)) r)
      | Some (VArray fmt vs) \<Rightarrow>
          if \<not> is_array_of_tables (VArray fmt vs) then
            (t, Inl ''toml::insert_value: failed to insert a value, value already exists'')
          else if fmt \<noteq> array_of_tables then
            (t, Inl ''toml::insert_value:inline array of tables are immutable'')
          else if kind = dotted_keys then
            (t, Inl ''toml::insert_value:dotted key cannot reopen an array-of-tables'')
          else
            (case last vs of
               VTable tfmt sub \<Rightarrow>
                 let (t', r) = insert_value kind sub keys val in
                 (AList.update key (VArray fmt (butlast vs @ [VTable tfmt t'])) t, map_sum id ((#) (Back key)) r)
             | _ \<Rightarrow> (t, Inl ''toml::insert_value: failed to insert a value, value already exists''))
      | Some _ \<Rightarrow> (t, Inl ''toml::insert_value: failed to insert a value, value already exists''))"

text \<open>The table a path leads to, and putting another one there.\<close>

fun table_at :: "path_step list \<Rightarrow> table \<Rightarrow> table" where
  "table_at [] t = t"
| "table_at (Member key # path) t = (case map_of t key of Some (VTable fmt sub) \<Rightarrow> table_at path sub | _ \<Rightarrow> [])"
| "table_at (Back key # path) t =
     (case map_of t key of
        Some (VArray fmt vs) \<Rightarrow> (case last vs of VTable tfmt sub \<Rightarrow> table_at path sub | _ \<Rightarrow> [])
      | _ \<Rightarrow> [])"

fun put_table :: "path_step list \<Rightarrow> table \<Rightarrow> table \<Rightarrow> table" where
  "put_table [] new t = new"
| "put_table (Member key # path) new t =
     (case map_of t key of
        Some (VTable fmt sub) \<Rightarrow> AList.update key (VTable fmt (put_table path new sub)) t
      | _ \<Rightarrow> t)"
| "put_table (Back key # path) new t =
     (case map_of t key of
        Some (VArray fmt vs) \<Rightarrow>
          (case last vs of
             VTable tfmt sub \<Rightarrow> AList.update key (VArray fmt (butlast vs @ [VTable tfmt (put_table path new sub)])) t
           | _ \<Rightarrow> t)
      | _ \<Rightarrow> t)"

section \<open>Values, arrays and inline tables\<close>

type_synonym 'a full = "('a toml_result \<times> toml_error list) option"

definition report :: "toml_error + 'a \<Rightarrow> toml_error list \<Rightarrow> toml_error list" where
  "report r errs = (case r of Inl e \<Rightarrow> errs @ [e] | Inr _ \<Rightarrow> errs)"

text \<open>
  What follows an element: spaces, maybe a comma, maybe a comment, and behind a comma more spaces.
  Found are the comma and whether there was a newline.
\<close>

definition after_element :: "spec \<Rightarrow> location \<Rightarrow> toml_error list \<Rightarrow> (bool \<times> bool \<times> location \<times> toml_error list) option" where
  "after_element sp loc errs =
     Option.bind (skip_multiline_spacer sp False loc) (\<lambda>(spacer, loc).
     Option.bind (try_scan (character (CHR '','')) loc) (\<lambda>(comma, loc).
     Option.bind (parse_comment_line sp loc) (\<lambda>(com, loc).
     let errs = report com errs; nl = (spacer = Some True \<or> com = Inr True) in
     if comma then
       Option.bind (skip_multiline_spacer sp (com = Inr True) loc) (\<lambda>(spacer, loc).
       Some (comma, nl \<or> spacer = Some True, loc, errs))
     else Some (comma, nl, loc, errs))))"

definition after_inline_element :: "spec \<Rightarrow> location \<Rightarrow> toml_error list \<Rightarrow> (bool \<times> bool \<times> location \<times> toml_error list) option" where
  "after_inline_element sp loc errs =
     (if v1_1_0_allow_newlines_in_inline_tables sp then after_element sp loc errs
      else
        Option.bind (skip_whitespace loc) (\<lambda>loc.
        Option.bind (try_scan (character (CHR '','')) loc) (\<lambda>(comma, loc).
        Option.bind (skip_whitespace loc) (\<lambda>loc. Some (comma, False, loc, errs)))))"

text \<open>
  The end of an array and of an inline table.  An error reported since its beginning makes the whole
  of it an error; a table takes that one back from the list, an array does not.
\<close>

definition finish_array :: "nat \<Rightarrow> array_format \<Rightarrow> toml_value list \<Rightarrow> location \<Rightarrow> toml_error list \<Rightarrow> toml_value full" where
  "finish_array num_errors fmt val loc errs =
     (if current loc \<noteq> CHR '']'' then Some (Err ''toml::parse_array: missing closing bracket `]`'' loc, errs)
      else
        let loc = advance 1 loc in
        if num_errors \<noteq> length errs then Some (Err (last errs) loc, errs)
        else Some (Ret (VArray fmt val) loc, errs))"

definition finish_inline_table :: "nat \<Rightarrow> table_format \<Rightarrow> table \<Rightarrow> location \<Rightarrow> toml_error list \<Rightarrow> toml_value full" where
  "finish_inline_table num_errors fmt t loc errs =
     (if current loc \<noteq> CHR ''}'' then Some (Err ''toml::parse_inline_table: missing closing bracket `}`'' loc, errs)
      else
        let loc = advance 1 loc in
        if num_errors < length errs then Some (Err (last errs) loc, butlast errs)
        else Some (Ret (VTable fmt t) loc, errs))"

definition parse_key_and_sep :: "spec \<Rightarrow> location \<Rightarrow> string list parsed" where
  "parse_key_and_sep sp loc =
     (let first = loc in
      case parse_key sp loc of
        Some (Err e loc) \<Rightarrow> Some (Err e first)
      | r \<Rightarrow> pbind r (\<lambda>keys loc.
          Option.bind (try_scan sx_keyval_sep loc) (\<lambda>(ok, loc).
          if ok then Some (Ret keys loc)
          else Some (Err ''toml::parse_key_value_pair: invalid key value separator `=`'' first))))"

fun with_keys :: "string list \<Rightarrow> toml_value toml_result \<times> toml_error list \<Rightarrow> (string list \<times> toml_value) toml_result \<times> toml_error list" where
  "with_keys keys (Ret v loc, errs) = (Ret (keys, v) loc, errs)"
| "with_keys keys (Err e loc, errs) = (Err e loc, errs)"
| "with_keys keys (Undefined, errs) = (Undefined, errs)"

datatype task =
    Value
  | Array_loop nat array_format "toml_value list" bool
  | Inline_loop nat table_format table bool bool

definition scalar :: "toml_error list \<Rightarrow> 'a parsed \<Rightarrow> 'a full" where
  "scalar errs r = map_option (\<lambda>r. (r, errs)) r"

partial_function (option) parse_task ::
  "(bool \<Rightarrow> string \<Rightarrow> u64 option) \<Rightarrow> spec \<Rightarrow> task \<Rightarrow> location \<Rightarrow> toml_error list \<Rightarrow> toml_value full" where
  "parse_task rdf sp task loc errs =
     (case task of
        Value \<Rightarrow>
          Option.bind (guess_value_type sp loc) (\<lambda>ty.
          case ty of
            Inl e \<Rightarrow> Some (Err e loc, errs)
          | Inr ty_empty \<Rightarrow>
              scalar errs (if ext_null_value sp then parse_null sp loc
                           else Some (Err ''toml::parse_value: unknown value appeared'' loc))
          | Inr ty_boolean \<Rightarrow> scalar errs (parse_boolean loc)
          | Inr ty_integer \<Rightarrow> scalar errs (parse_integer sp loc)
          | Inr ty_floating \<Rightarrow> scalar errs (parse_floating rdf sp loc)
          | Inr ty_string \<Rightarrow> scalar errs (parse_string sp loc)
          | Inr ty_offset_datetime \<Rightarrow> scalar errs (parse_offset_datetime sp loc)
          | Inr ty_local_datetime \<Rightarrow> scalar errs (parse_local_datetime sp loc)
          | Inr ty_local_date \<Rightarrow> scalar errs (parse_local_date loc)
          | Inr ty_local_time \<Rightarrow> scalar errs (parse_local_time sp loc)
          | Inr ty_array \<Rightarrow>
              if loc_eof loc \<or> current loc \<noteq> CHR ''['' then
                Some (Err ''toml::parse_array: The next token is not an array'' loc, errs)
              else
                Option.bind (skip_multiline_spacer sp False (advance 1 loc)) (\<lambda>(spacer, loc).
                parse_task rdf sp
                  (Array_loop (length errs) (if spacer = Some True then array_multiline else array_oneline) [] True) loc errs)
          | Inr ty_table \<Rightarrow>
              if loc_eof loc \<or> current loc \<noteq> CHR ''{'' then
                Some (Err ''toml::parse_inline_table: The next token is not an inline table'' loc, errs)
              else
                Option.bind
                  (if v1_1_0_allow_newlines_in_inline_tables sp then skip_multiline_spacer sp False (advance 1 loc)
                   else Option.bind (skip_whitespace (advance 1 loc)) (\<lambda>loc. Some (None, loc)))
                  (\<lambda>(spacer, loc).
                parse_task rdf sp
                  (Inline_loop (length errs) (if spacer = Some True then multiline_oneline else oneline) [] True False) loc errs))
      | Array_loop num_errors fmt val comma_found \<Rightarrow>
          if loc_eof loc \<or> current loc = CHR '']'' then finish_array num_errors fmt val loc errs
          else if \<not> comma_found then
            Some (Err ''toml::parse_array: expected value-separator `,` or closing `]`'' loc, errs)
          else
            Option.bind (parse_task rdf sp Value loc errs) (\<lambda>(elem_res, errs).
            case elem_res of
              Ret elem loc \<Rightarrow>
                Option.bind (after_element sp loc errs) (\<lambda>(comma, nl, loc, errs).
                parse_task rdf sp
                  (Array_loop num_errors (if nl then array_multiline else fmt) (val @ [elem]) comma) loc errs)
            | Err e loc \<Rightarrow>
                Option.bind (skip_value sp loc) (\<lambda>loc'.
                if loc_at loc' = loc_at loc then finish_array num_errors fmt val loc' (errs @ [e])
                else parse_task rdf sp (Array_loop num_errors fmt val comma_found) loc' (errs @ [e]))
            | Undefined \<Rightarrow> Some (Undefined, errs))
      | Inline_loop num_errors fmt t still_empty comma_found \<Rightarrow>
          if loc_eof loc then finish_inline_table num_errors fmt t loc errs
          else if current loc = CHR ''}'' then
            if comma_found \<and> \<not> v1_1_0_allow_trailing_comma_in_inline_tables sp then
              Some (Err ''toml::parse_inline_table: trailing comma is not allowed in TOML-v1.0.0)'' loc, errs)
            else finish_inline_table num_errors fmt t loc errs
          else if \<not> comma_found \<and> \<not> still_empty then
            Some (Err ''toml::parse_inline_table: expected value-separator `,` or closing `}`'' loc, errs)
          else
            Option.bind (parse_key_and_sep sp loc) (\<lambda>key_res.
            Option.bind
              (case key_res of
                 Ret keys loc \<Rightarrow> Option.bind (parse_task rdf sp Value loc errs) (\<lambda>r. Some (with_keys keys r))
               | Err e loc \<Rightarrow> Some (Err e loc, errs)
               | Undefined \<Rightarrow> Some (Undefined, errs)) (\<lambda>(kv_res, errs).
            case kv_res of
              Ret kv loc \<Rightarrow>
                (case insert_value dotted_keys t (fst kv) (snd kv) of
                   (t, Inl e) \<Rightarrow>
                     Option.bind (skip_until (\<lambda>c. c = CHR '','' \<or> c = LF \<or> c = CHR ''}'') loc) (\<lambda>loc.
                     parse_task rdf sp
                       (Inline_loop num_errors fmt t False (if loc_eof loc then comma_found else current loc = CHR '',''))
                       loc (errs @ [e]))
                 | (t, Inr _) \<Rightarrow>
                     Option.bind (after_inline_element sp loc errs) (\<lambda>(comma, nl, loc, errs).
                     parse_task rdf sp
                       (Inline_loop num_errors (if nl then multiline_oneline else fmt) t False comma) loc errs))
            | Err e loc \<Rightarrow>
                Option.bind
                  (skip_until (\<lambda>c. c = CHR ''}'' \<or> (\<not> v1_1_0_allow_newlines_in_inline_tables sp \<and> c = LF)) loc)
                  (\<lambda>loc. finish_inline_table num_errors fmt t loc (errs @ [e]))
            | Undefined \<Rightarrow> Some (Undefined, errs))))"

declare parse_task.simps [code]

definition parse_value ::
  "(bool \<Rightarrow> string \<Rightarrow> u64 option) \<Rightarrow> spec \<Rightarrow> location \<Rightarrow> toml_error list \<Rightarrow> toml_value full" where
  "parse_value rdf sp loc errs = parse_task rdf sp Value loc errs"

definition parse_key_value_pair ::
  "(bool \<Rightarrow> string \<Rightarrow> u64 option) \<Rightarrow> spec \<Rightarrow> location \<Rightarrow> toml_error list \<Rightarrow> (string list \<times> toml_value) full" where
  "parse_key_value_pair rdf sp loc errs =
     Option.bind (parse_key_and_sep sp loc) (\<lambda>key_res.
     case key_res of
       Ret keys loc \<Rightarrow> map_option (with_keys keys) (parse_value rdf sp loc errs)
     | Err e loc \<Rightarrow> Some (Err e loc, errs)
     | Undefined \<Rightarrow> Some (Undefined, errs))"

end
