(* ===== verification/TomlDocument.thy ===== *)
theory TomlDocument
  imports TomlParser
begin

text \<open>
  Whole documents of \<open>mytoml/toml11/toml.hpp\<close>: the entries of a table, table headers, \<open>parse_file\<close> and
  \<open>parse_str\<close>.

  A table that is being parsed is changed where it is in the document; a path from the root stands for
  the pointer to it.
\<close>

type_synonym read_double = "bool \<Rightarrow> string \<Rightarrow> u64 option"

section \<open>Tables\<close>

text \<open>
  The entries up to the next table header.  The result is the table with what was inserted, also when
  there were errors.
\<close>

definition finish_table :: "nat \<Rightarrow> table \<Rightarrow> location \<Rightarrow> toml_error list \<Rightarrow> (table \<times> unit toml_result \<times> toml_error list) option" where
  "finish_table num_errors t loc errs =
     (if num_errors < length errs then Some (t, Err (last errs) loc, butlast errs)
      else Some (t, Ret () loc, errs))"

partial_function (option) parse_table_loop ::
  "read_double \<Rightarrow> spec \<Rightarrow> nat \<Rightarrow> table \<Rightarrow> bool \<Rightarrow> location \<Rightarrow> toml_error list \<Rightarrow>
   (table \<times> unit toml_result \<times> toml_error list) option" where
  "parse_table_loop rdf sp num_errors t newline_found loc errs =
     (if loc_eof loc then finish_table num_errors t loc errs
      else
        let start = loc in
        Option.bind (skip_multiline_spacer sp newline_found loc) (\<lambda>(spacer, loc).
        if loc_eof loc then finish_table num_errors t loc errs
        else Option.bind (try_scan (sequence [sx_ws, character (CHR ''['')]) loc) (\<lambda>(header, loc).
        if header then finish_table num_errors t start errs
        else if \<not> (newline_found \<or> spacer = Some True) then
          Some (t, Err ''toml::parse_table: newline (LF / CRLF) or EOF is expected'' loc, errs)
        else Option.bind (parse_key_value_pair rdf sp loc errs) (\<lambda>(kv_res, errs).
        case kv_res of
          Ret kv loc \<Rightarrow>
            Option.bind (parse_comment_line sp loc) (\<lambda>(com, loc).
            let errs = report com errs; (t, ins) = insert_value dotted_keys t (fst kv) (snd kv) in
            parse_table_loop rdf sp num_errors t (com = Inr True) loc (report ins errs))
        | Err e loc \<Rightarrow>
            Option.bind (skip_key_value_pair sp loc) (\<lambda>loc.
            parse_table_loop rdf sp num_errors t False loc (errs @ [e]))
        | Undefined \<Rightarrow> Some (t, Undefined, errs)))))"

declare parse_table_loop.simps [code]

definition parse_table ::
  "read_double \<Rightarrow> spec \<Rightarrow> table \<Rightarrow> location \<Rightarrow> toml_error list \<Rightarrow>
   (table \<times> unit toml_result \<times> toml_error list) option" where
  "parse_table rdf sp t loc errs = parse_table_loop rdf sp (length errs) t True loc errs"

text \<open>A header is scanned as a whole and then read again for its keys, between \<open>n\<close> brackets.\<close>

definition parse_header_key :: "toml_error \<Rightarrow> scanner \<Rightarrow> nat \<Rightarrow> spec \<Rightarrow> location \<Rightarrow> string list parsed" where
  "parse_header_key e s n sp loc =
     (let first = loc in
      pbind (scan_or e s loc) (\<lambda>reg _.
      Option.bind (skip_whitespace (advance n first)) (\<lambda>loc.
      pbind (parse_key sp loc) (\<lambda>keys loc.
      Option.bind (skip_whitespace loc) (\<lambda>loc. Some (Ret keys (advance n loc)))))))"

definition parse_table_key :: "spec \<Rightarrow> location \<Rightarrow> string list parsed" where
  "parse_table_key sp loc =
     parse_header_key ''toml::parse_table_key: invalid table key'' (sx_std_table sp) 1 sp loc"

definition parse_array_table_key :: "spec \<Rightarrow> location \<Rightarrow> string list parsed" where
  "parse_array_table_key sp loc =
     parse_header_key ''toml::parse_array_table_key: invalid array-of-tables key'' (sx_array_table sp) 2 sp loc"

section \<open>Files\<close>

text \<open>The comment at the top of the file.\<close>

partial_function (option) skip_top_comment :: "spec \<Rightarrow> location \<Rightarrow> location \<Rightarrow> toml_error list \<Rightarrow> (location \<times> toml_error list) option" where
  "skip_top_comment sp first loc errs =
     (if loc_eof loc then Some (loc, errs)
      else Option.bind (parse_comment_line sp loc) (\<lambda>(com, loc).
      case com of
        Inr found \<Rightarrow>
          if found then skip_top_comment sp first loc errs
          else
            Option.bind (try_scan (sequence [sx_ws, sx_newline]) loc) (\<lambda>(empty, loc).
            Some (if empty then loc else first, errs))
      | Inl e \<Rightarrow>
          Option.bind (skip_comment_block loc) (\<lambda>loc. skip_top_comment sp first loc (errs @ [e]))))"

declare skip_top_comment.simps [code]

text \<open>
  Parse a table, report its error and go to the next header if there is one; the table, or \<open>None\<close>
  inside of it for undefined behaviour.
\<close>

definition table_or_skip ::
  "read_double \<Rightarrow> spec \<Rightarrow> table \<Rightarrow> location \<Rightarrow> toml_error list \<Rightarrow> (table \<times> location \<times> toml_error list) option option" where
  "table_or_skip rdf sp t loc errs =
     Option.bind (parse_table rdf sp t loc errs) (\<lambda>(t, res, errs).
     case res of
       Ret _ loc \<Rightarrow> Some (Some (t, loc, errs))
     | Err e loc \<Rightarrow> Option.bind (skip_until_next_table sp loc) (\<lambda>loc. Some (Some (t, loc, errs @ [e])))
     | Undefined \<Rightarrow> Some None)"

text \<open>After a header: a comment, or the end of the line.\<close>

definition header_end :: "spec \<Rightarrow> location \<Rightarrow> ((toml_error + unit) \<times> location) option" where
  "header_end sp loc =
     Option.bind (parse_comment_line sp loc) (\<lambda>(com, loc).
     case com of
       Inl e \<Rightarrow> Some (Inl e, loc)
     | Inr True \<Rightarrow> Some (Inr (), loc)
     | Inr False \<Rightarrow>
         Option.bind (skip_whitespace loc) (\<lambda>loc.
         if loc_eof loc then Some (Inr (), loc)
         else Option.bind (try_scan sx_newline loc) (\<lambda>(nl, loc).
           Some (if nl then Inr () else Inl ''toml::parse_file: newline (or EOF) expected'', loc))))"

text \<open>
  What a header introduces: its table goes into the document and its entries into the table.  When the
  table cannot be inserted its entries are parsed for errors all the same.
\<close>

definition parse_section ::
  "read_double \<Rightarrow> spec \<Rightarrow> inserting_value_kind \<Rightarrow> string list \<Rightarrow> table \<Rightarrow> location \<Rightarrow> toml_error list \<Rightarrow>
   (table \<times> location \<times> toml_error list) option option" where
  "parse_section rdf sp kind keys root loc errs =
     Option.bind (header_end sp loc) (\<lambda>(com, loc).
     case com of
       Inl e \<Rightarrow> Option.bind (skip_until_next_table sp loc) (\<lambda>loc. Some (Some (root, loc, errs @ [e])))
     | Inr _ \<Rightarrow>
         (case insert_value kind root keys (VTable multiline []) of
            (root, Inl e) \<Rightarrow>
              map_option (map_option (\<lambda>(_, loc, errs). (root, loc, errs)))
                (table_or_skip rdf sp [] loc (errs @ [e]))
          | (root, Inr path) \<Rightarrow>
              map_option (map_option (\<lambda>(t, loc, errs). (put_table path t root, loc, errs)))
                (table_or_skip rdf sp (table_at path root) loc errs)))"

text \<open>The loop over the headers; \<open>None\<close> inside of the result is undefined behaviour.\<close>

partial_function (option) parse_sections ::
  "read_double \<Rightarrow> spec \<Rightarrow> table \<Rightarrow> location \<Rightarrow> toml_error list \<Rightarrow> (table \<times> toml_error list) option option" where
  "parse_sections rdf sp root loc errs =
     (if loc_eof loc then Some (Some (root, errs))
      else Option.bind (skip_multiline_spacer sp True loc) (\<lambda>(spacer, loc).
      Option.bind (parse_array_table_key sp loc) (\<lambda>aot.
      Option.bind
        (case aot of
           Ret keys loc \<Rightarrow> parse_section rdf sp array_table keys root loc errs
         | Undefined \<Rightarrow> Some None
         | Err _ loc \<Rightarrow>
             Option.bind (parse_table_key sp loc) (\<lambda>std.
             case std of
               Ret keys loc \<Rightarrow> parse_section rdf sp std_table keys root loc errs
             | Undefined \<Rightarrow> Some None
             | Err _ loc \<Rightarrow>
                 Option.bind (try_scan (literal ''[['') loc) (\<lambda>(maybe_aot, _).
                 Option.bind (skip_until_next_table sp loc) (\<lambda>loc'.
                 Some (Some (root, loc', errs @
                   [if maybe_aot then ''toml::parse_file: invalid array-table key''
                    else ''toml::parse_file: invalid table key'']))))))
        (\<lambda>r.
      case r of
        None \<Rightarrow> Some None
      | Some (root, loc, errs) \<Rightarrow> parse_sections rdf sp root loc errs))))"

declare parse_sections.simps [code]

definition parse_file :: "read_double \<Rightarrow> spec \<Rightarrow> location \<Rightarrow> (toml_error list + toml_value) option option" where
  "parse_file rdf sp loc =
     (if loc_eof loc then Some (Some (Inr (VTable multiline [])))
      else
        Option.bind (skip_top_comment sp loc loc []) (\<lambda>(loc, errs).
        Option.bind (table_or_skip rdf sp [] loc errs) (\<lambda>r.
        case r of
          None \<Rightarrow> Some None
        | Some (root, loc, errs) \<Rightarrow>
            map_option (map_option (\<lambda>(root, errs). if errs \<noteq> [] then Inl errs else Inr (VTable multiline root)))
              (parse_sections rdf sp root loc errs))))"

definition skip_bom :: "location \<Rightarrow> location" where
  "skip_bom loc =
     (if length (loc_source loc) \<ge> 3 \<and> take 3 (loc_source loc) = [CHR 0xEF, CHR 0xBB, CHR 0xBF]
      then advance 3 loc else loc)"

definition parse_impl :: "read_double \<Rightarrow> spec \<Rightarrow> string \<Rightarrow> (toml_error list + toml_value) option option" where
  "parse_impl rdf sp cs =
     (if cs = [] then Some (Some (Inr (VTable multiline [])))
      else
        let cs = (if last cs \<noteq> LF \<and> last cs \<noteq> CR then cs @ [LF] else cs) in
        parse_file rdf sp (skip_bom (start_loc cs)))"

text \<open>\<open>parse_str\<close> as far as it does not throw: the errors are thrown as one exception.\<close>

definition try_parse_str :: "read_double \<Rightarrow> spec \<Rightarrow> string \<Rightarrow> (toml_error list + toml_value) option option" where
  "try_parse_str rdf sp content = parse_impl rdf sp content"

end
