(* ===== verification/TomlRecovery.thy ===== *)
theory TomlRecovery
  imports TomlDocument
begin

text \<open>
  Error recovery in \<open>toml.hpp\<close> that does not end: \<open>skip_comment_block\<close> stands still inside a comment,
  so a document with a control character in one comment and another comment below it is never parsed.
\<close>

section \<open>Comments are not skipped\<close>

lemma skip_comment_text_returns:
  assumes "skip_comment_text loc = Some loc'"
  shows "loc_eof loc \<or> current loc = LF"
proof (rule skip_comment_text.raw_induct [OF _ assms])
  fix f :: "location \<Rightarrow> location option" and x y
  assume "\<And>x y. f x = Some y \<Longrightarrow> loc_eof x \<or> current x = LF"
    and "(if loc_eof x then Some x else if current x = LF then Some (advance 1 x) else f x) = Some y"
  then show "loc_eof x \<or> current x = LF" by (auto split: if_splits)
qed

lemma skip_comment_text_stuck: "\<not> loc_eof loc \<Longrightarrow> current loc \<noteq> LF \<Longrightarrow> skip_comment_text loc = None"
  using skip_comment_text_returns [of loc] by (cases "skip_comment_text loc") auto

lemma try_scan_munch:
  "well_behaved s \<Longrightarrow> loc_ok loc \<Longrightarrow>
   try_scan s loc = Some (case munch s (loc_rest loc) of None \<Rightarrow> (False, loc) | Some k \<Rightarrow> (True, advance k loc))"
  by (simp add: try_scan_def scan_munch(1) split: option.splits)

lemma well_behaved_ws [simp]: "well_behaved sx_ws" "well_behaved sx_newline" "well_behaved (sx_comment sp)"
  by (simp_all add: syntax_defs)

lemma munch_many_char:
  "munch_many (munch_char P) xs = length (takeWhile P xs)"
proof (induction xs)
  case (Cons x xs)
  then show ?case by (simp add: munch_many.simps [of "munch_char P" "x # xs"])
qed (simp add: munch_many.simps)

lemma munch_ws: "munch sx_ws xs = Some (length (takeWhile (\<lambda>c. c = SP \<or> c = CHR 0x09) xs))"
proof -
  have "munch (character_either [SP, CHR 0x09]) = munch_char (\<lambda>c. c = SP \<or> c = CHR 0x09)" by (intro ext) simp
  then show ?thesis by (simp add: sx_ws_def sx_wschar_def munch_many_char del: munch.simps(2))
qed

lemma skip_whitespace_advance:
  "loc_ok loc \<Longrightarrow>
   skip_whitespace loc = Some (advance (length (takeWhile (\<lambda>c. c = SP \<or> c = CHR 0x09) (loc_rest loc))) loc)"
  by (simp add: skip_whitespace_def try_scan_munch munch_ws)

lemma skip_comment_block_stuck:
  assumes "loc_ok loc" "loc_rest loc = CHR ''#'' # rest"
  shows "skip_comment_block loc = None"
  using assms
  by (simp add: skip_comment_block.simps [of loc] skip_whitespace_advance loc_eof_rest current_rest skip_comment_text_stuck)


section \<open>A comment with a control character\<close>

text \<open>What may stand in a comment, of ASCII.\<close>

definition comment_ascii :: "char \<Rightarrow> bool" where
  "comment_ascii c \<longleftrightarrow> c = CHR 0x09 \<or> (0x20 \<le> (of_char c :: nat) \<and> (of_char c :: nat) \<le> 0x7E)"

definition control_char :: "char \<Rightarrow> bool" where
  "control_char c \<longleftrightarrow> ((of_char c :: nat) < 0x20 \<or> c = CHR 0x7F) \<and> c \<notin> {CHR 0x09, LF, CR}"

lemma munch_non_ascii_ascii: "(of_char c :: nat) < 0x80 \<Longrightarrow> munch non_ascii (c # xs) = None"
  by (auto simp: syntax_defs word_le_nat_alt unat_uint8)

lemma munch_comment_char:
  assumes "\<not> ext_allow_control_characters_in_comments sp"
  shows "comment_ascii c \<Longrightarrow> munch (allowed_comment_char sp) (c # xs) = Some 1"
    and "control_char c \<Longrightarrow> munch (allowed_comment_char sp) (c # xs) = None"
  using assms
  by (auto simp: allowed_comment_char_def comment_ascii_def control_char_def munch_non_ascii_ascii word_le_nat_alt unat_uint8)

lemma munch_comment:
  assumes "\<not> ext_allow_control_characters_in_comments sp" "list_all comment_ascii com" "control_char b"
  shows "munch (sx_comment sp) (CHR ''#'' # com @ b # junk) = Some (length com + 1)"
proof -
  have "munch_many (munch (allowed_comment_char sp)) (com @ b # junk) = length com"
    using assms(2)
  proof (induction com)
    case Nil
    then show ?case using munch_comment_char(2) [OF assms(1,3)] by (simp add: munch_many.simps)
  next
    case (Cons c com)
    then show ?case using munch_comment_char(1) [OF assms(1)]
      by (simp add: munch_many.simps [of _ "c # com @ b # junk"])
  qed
  then show ?thesis by (simp add: sx_comment_def)
qed

lemma skip_rest_of_line_advance:
  "loc_ok loc \<Longrightarrow> loc_rest loc = x # ys @ LF # zs \<Longrightarrow> LF \<notin> set ys \<Longrightarrow>
   skip_rest_of_line loc = Some (advance (length ys + 2) loc)"
proof (induction ys arbitrary: loc x)
  case Nil
  then show ?case by (simp add: skip_rest_of_line.simps [of loc] loc_eof_rest current_rest)
next
  case (Cons y ys)
  then have "skip_rest_of_line (advance 1 loc) = Some (advance (length ys + 2) (advance 1 loc))"
    by (intro Cons.IH [of "advance 1 loc" y]) auto
  with Cons.prems show ?case by (auto simp: skip_rest_of_line.simps [of loc] loc_eof_rest current_rest Let_def)
qed

lemma parse_comment_line_control:
  assumes "\<not> ext_allow_control_characters_in_comments sp" "list_all comment_ascii com" "control_char b" "LF \<notin> set junk"
    and "loc_ok loc" "loc_rest loc = CHR ''#'' # com @ b # junk @ LF # rest"
  shows "\<exists>e loc'. parse_comment_line sp loc = Some (Inl e, loc') \<and> loc_ok loc' \<and> loc_rest loc' = rest"
proof -
  let ?loc = "advance (length com + 1) loc"
  have ok: "loc_ok ?loc" "loc_rest ?loc = b # junk @ LF # rest" using assms(5,6) by simp_all
  have "munch sx_newline (b # junk @ LF # rest) = None"
    using assms(3) by (auto simp: sx_newline_def control_char_def)
  then have "parse_comment_line sp loc =
      Option.bind (skip_rest_of_line ?loc) (\<lambda>loc.
        Some (Inl ''toml::parse_comment_line: newline (LF / CRLF) or EOF is expected'', loc))"
    using assms(5,6) ok munch_comment [OF assms(1-3)]
    by (simp add: parse_comment_line_def skip_whitespace_advance try_scan_munch loc_eof_rest)
  then show ?thesis using ok skip_rest_of_line_advance [OF ok assms(4)] by simp
qed

text \<open>
  C23: a document that begins with a comment holding a control character, followed by another comment, is
  never parsed: the parser reports the character, skips the line, and then loops in
  \<open>skip_comment_block\<close>, whatever the rest of the document is.
\<close>

theorem comment_recovery_hangs:
  assumes "\<not> ext_allow_control_characters_in_comments sp" "list_all comment_ascii com" "control_char b" "LF \<notin> set junk"
  shows "try_parse_str rdf sp (CHR ''#'' # com @ b # junk @ LF # CHR ''#'' # rest) = None"
proof -
  let ?doc = "\<lambda>rest. CHR ''#'' # com @ b # junk @ LF # CHR ''#'' # rest"
  have stuck: "parse_file rdf sp (start_loc (?doc rest)) = None" for rest
  proof -
    obtain e loc' where c: "parse_comment_line sp (start_loc (?doc rest)) = Some (Inl e, loc')"
        "loc_ok loc'" "loc_rest loc' = CHR ''#'' # rest"
      using parse_comment_line_control [OF assms, of "start_loc (?doc rest)" "CHR ''#'' # rest"] by auto
    have "skip_top_comment sp (start_loc (?doc rest)) (start_loc (?doc rest)) [] = None"
      using c skip_comment_block_stuck [OF c(2,3)]
      by (simp add: skip_top_comment.simps [of sp _ "start_loc (?doc rest)"] loc_eof_rest)
    then show ?thesis by (simp add: parse_file_def loc_eof_rest)
  qed
  obtain rest' where "(if last (?doc rest) \<noteq> LF \<and> last (?doc rest) \<noteq> CR then ?doc rest @ [LF] else ?doc rest) = ?doc rest'"
    by (cases "last (?doc rest) \<noteq> LF \<and> last (?doc rest) \<noteq> CR") (auto intro: that [of rest] that [of "rest @ [LF]"])
  then show ?thesis
    using stuck [of rest'] by (simp add: try_parse_str_def parse_impl_def skip_bom_def Let_def del: last.simps)
qed

lemma comment_recovery_hangs_witness:
  "try_parse_str (\<lambda>_ _. None) (spec_v 1 1 0) (''# a'' @ [CHR 0x01, LF] @ ''# b'' @ [LF] @ ''x = 1'') = None"
  using comment_recovery_hangs [of "spec_v 1 1 0" "'' a''" "CHR 0x01" "[]" "\<lambda>_ _. None" "'' b'' @ [LF] @ ''x = 1''"]
  by (simp add: spec_v_def Let_def comment_ascii_def control_char_def)

end
