(* ===== verification/TomlTables.thy ===== *)
theory TomlTables
  imports TomlDocument
begin

text \<open>
  Tables of a TOML document: what \<open>insert_value\<close> changes and what it leaves alone, for dotted keys and
  for the headers of tables, and that it keeps the keys of every table distinct.
\<close>

section \<open>Finding values\<close>

text \<open>The value under a dotted key.\<close>

fun find_value :: "string list \<Rightarrow> table \<Rightarrow> toml_value option" where
  "find_value [] t = None"
| "find_value [k] t = map_of t k"
| "find_value (k # ks) t = (case map_of t k of Some (VTable fmt sub) \<Rightarrow> find_value ks sub | _ \<Rightarrow> None)"

fun is_dotted :: "toml_value \<Rightarrow> bool" where
  "is_dotted (VTable fmt t) = (fmt = dotted)"
| "is_dotted _ = False"

lemma map_of_append_fresh: "map_of t k = None \<Longrightarrow> map_of (t @ [(k, v)]) = (map_of t)(k \<mapsto> v)"
  by (auto simp: fun_eq_iff map_add_def split: option.splits)

lemma update_same: "map_of t k = Some v \<Longrightarrow> AList.update k v t = t"
  by (induction t) auto

lemma find_value_other: "ks \<noteq> [] \<Longrightarrow> map_of t' (hd ks) = map_of t (hd ks) \<Longrightarrow> find_value ks t' = find_value ks t"
  by (cases "(ks, t)" rule: find_value.cases) auto

lemma find_value_Cons:
  "ks \<noteq> [] \<Longrightarrow> find_value (k # ks) t = (case map_of t k of Some (VTable fmt sub) \<Rightarrow> find_value ks sub | _ \<Rightarrow> None)"
  by (cases ks) auto

text \<open>Whether a dotted key may be defined: nothing is there, and its prefixes are absent or tables of dotted keys.\<close>

definition definable :: "string list \<Rightarrow> table \<Rightarrow> bool" where
  "definable keys t \<longleftrightarrow> keys \<noteq> [] \<and> find_value keys t = None \<and>
     (\<forall>ks v. strict_prefix ks keys \<longrightarrow> find_value ks t = Some v \<longrightarrow> is_dotted v)"

lemma find_value_empty [simp]: "find_value ks [] = None"
  by (cases "(ks, [] :: table)" rule: find_value.cases) auto

lemma definable_empty [simp]: "definable keys [] \<longleftrightarrow> keys \<noteq> []"
  by (simp add: definable_def)

lemma strict_prefix_Cons_cases:
  "(\<forall>ks. strict_prefix ks (k # keys) \<longrightarrow> P ks) \<longleftrightarrow> P [] \<and> (\<forall>ks. strict_prefix ks keys \<longrightarrow> P (k # ks))"
  by (auto simp: strict_prefix_def) (metis prefix_Cons)

lemma definable_Cons:
  assumes "keys \<noteq> []"
  shows "definable (k # keys) t \<longleftrightarrow>
    (case map_of t k of None \<Rightarrow> True | Some (VTable fmt sub) \<Rightarrow> fmt = dotted \<and> definable keys sub | _ \<Rightarrow> False)"
proof -
  have "definable (k # keys) t \<longleftrightarrow> find_value (k # keys) t = None \<and>
      (\<forall>ks. strict_prefix ks keys \<longrightarrow> (\<forall>v. find_value (k # ks) t = Some v \<longrightarrow> is_dotted v))"
    using strict_prefix_Cons_cases [of k keys "\<lambda>ks. \<forall>v. find_value ks t = Some v \<longrightarrow> is_dotted v"]
    by (simp add: definable_def)
  also have "(\<forall>ks. strict_prefix ks keys \<longrightarrow> (\<forall>v. find_value (k # ks) t = Some v \<longrightarrow> is_dotted v)) \<longleftrightarrow>
      (\<forall>v. map_of t k = Some v \<longrightarrow> is_dotted v) \<and>
      (\<forall>ks. ks \<noteq> [] \<longrightarrow> strict_prefix ks keys \<longrightarrow> (\<forall>v. find_value (k # ks) t = Some v \<longrightarrow> is_dotted v))"
    using assms by (metis find_value.simps(2) strict_prefix_def Nil_prefix)
  also have "\<dots> \<longleftrightarrow> (case map_of t k of
      None \<Rightarrow> True
    | Some (VTable fmt sub) \<Rightarrow> fmt = dotted \<and>
        (\<forall>ks. strict_prefix ks keys \<longrightarrow> (\<forall>v. find_value ks sub = Some v \<longrightarrow> is_dotted v))
    | Some v \<Rightarrow> is_dotted v)"
    by (simp add: find_value_Cons split: option.split toml_value.split) (metis find_value.simps(1) option.distinct(1))
  finally show ?thesis using assms
    by (auto simp: definable_def find_value_Cons split: option.splits toml_value.splits)
qed

lemma find_value_update:
  assumes "map_of t' = (map_of t)(k \<mapsto> v)" "\<not> prefix ks (k # keys)" "\<not> prefix (k # keys) ks"
  shows "find_value ks t' =
    (if hd ks = k then (case v of VTable fmt sub \<Rightarrow> find_value (tl ks) sub | _ \<Rightarrow> None) else find_value ks t)"
proof (cases ks)
  case (Cons a list)
  show ?thesis
  proof (cases "a = k")
    case True
    with Cons assms(2) have "list \<noteq> []" by auto
    with True Cons assms(1) show ?thesis by (simp add: find_value_Cons split: toml_value.split)
  next
    case False
    with Cons assms(1) show ?thesis using find_value_other [of ks t' t] by simp
  qed
qed (use assms in simp)

text \<open>A value put into a table that a dotted key goes through.\<close>

lemma find_value_inner:
  assumes "map_of t' = (map_of t)(key \<mapsto> VTable fmt sub')" "keys \<noteq> []"
    and "\<forall>ks. \<not> prefix ks keys \<longrightarrow> \<not> prefix keys ks \<longrightarrow> find_value ks sub' = find_value ks sub"
    and "map_of t key = Some (VTable fmt sub) \<or> map_of t key = None \<and> sub = []"
  shows "\<forall>ks. \<not> prefix ks (key # keys) \<longrightarrow> \<not> prefix (key # keys) ks \<longrightarrow> find_value ks t' = find_value ks t"
proof (intro allI impI)
  fix ks
  assume ks: "\<not> prefix ks (key # keys)" "\<not> prefix (key # keys) ks"
  show "find_value ks t' = find_value ks t"
  proof (cases "hd ks = key")
    case True
    with ks obtain ks' where ks': "ks = key # ks'" "\<not> prefix ks' keys" "\<not> prefix keys ks'" by (cases ks) auto
    then have "ks' \<noteq> []" by auto
    with ks' assms show ?thesis by (auto simp: find_value_Cons)
  next
    case False
    with find_value_update [OF assms(1) ks] show ?thesis by simp
  qed
qed

text \<open>
  C13: a dotted key goes into a table exactly when nothing is defined under it and what its prefixes lead
  through are tables of dotted keys; then the value is found under the key and what is under other keys
  stays, and otherwise the table does not change.
\<close>

theorem insert_dotted:
  "(case insert_value dotted_keys t keys val of
     (t', Inl e) \<Rightarrow> \<not> definable keys t \<and> t' = t
   | (t', Inr path) \<Rightarrow> definable keys t \<and> find_value keys t' = Some val \<and>
       (\<forall>ks. \<not> prefix ks keys \<longrightarrow> \<not> prefix keys ks \<longrightarrow> find_value ks t' = find_value ks t))"
proof (induction "dotted_keys" t keys val rule: insert_value.induct)
  case (2 t key val)
  show ?case
  proof (cases "map_of t key")
    case None
    have "find_value ks (t @ [(key, val)]) = find_value ks t" if "\<not> prefix ks [key]" "\<not> prefix [key] ks" for ks
      using find_value_update [OF map_of_append_fresh [OF None] that] that by (cases ks) auto
    with None show ?thesis
      by (auto simp: insert_last_def definable_def map_of_append_fresh strict_prefix_def prefix_Cons simp del: map_of_append)
  qed (simp add: insert_last_def definable_def)
next
  case (3 t key k keys val)
  let ?keys = "k # keys"
  have ne: "?keys \<noteq> []" by simp
  show ?case
  proof (cases "map_of t key")
    case None
    obtain t' r where r: "insert_value dotted_keys [] ?keys val = (t', r)" by fastforce
    from 3(1) [OF None] r show ?thesis
      using find_value_inner [where fmt = dotted and sub' = t' and sub = "[]", OF map_of_append_fresh [OF None] ne] None
      by (auto simp: definable_Cons [OF ne] find_value_Cons [OF ne] map_of_append_fresh [OF None]
          simp del: map_of_append split: sum.splits)
  next
    case (Some v)
    show ?thesis
    proof (cases "is_dotted v")
      case True
      then obtain sub where v: "v = VTable dotted sub" by (cases v) auto
      obtain t' r where r: "insert_value dotted_keys sub ?keys val = (t', r)" by fastforce
      from 3(3) [OF Some v] v r Some show ?thesis
        using find_value_inner [where fmt = dotted and sub' = t' and sub = sub, OF update_conv' ne] Some
        by (auto simp: definable_Cons [OF ne] find_value_Cons [OF ne] update_conv' update_same split: sum.splits)
    next
      case False
      with Some show ?thesis
        by (cases v) (auto simp: definable_Cons [OF ne] split: table_format.splits)
    qed
  qed
qed (simp add: definable_def)

lemma insert_dotted_witness:
  "\<exists>t' path. insert_value dotted_keys [(''c'', VInteger 1)] [''a'', ''b''] (VBoolean True) = (t', Inr path) \<and>
     find_value [''a'', ''b''] t' = Some (VBoolean True) \<and> find_value [''c''] t' = Some (VInteger 1)"
  using insert_dotted [where keys = "[''a'', ''b'']" and t = "[(''c'', VInteger 1)]" and val = "VBoolean True"]
  by (simp add: insert_last_def)

section \<open>Headers\<close>

fun step_key :: "path_step \<Rightarrow> string" where
  "step_key (Member k) = k"
| "step_key (Back k) = k"

text \<open>A path leads to a table.\<close>

fun leads :: "path_step list \<Rightarrow> table \<Rightarrow> bool" where
  "leads [] t = True"
| "leads (Member key # path) t = (case map_of t key of Some (VTable fmt sub) \<Rightarrow> leads path sub | _ \<Rightarrow> False)"
| "leads (Back key # path) t =
     (case map_of t key of
        Some (VArray fmt vs) \<Rightarrow> vs \<noteq> [] \<and> (case last vs of VTable tfmt sub \<Rightarrow> leads path sub | _ \<Rightarrow> False)
      | _ \<Rightarrow> False)"

lemma table_at_put_table: "leads path t \<Longrightarrow> table_at path (put_table path new t) = new"
  by (induction path t rule: leads.induct) (auto simp: update_conv' split: option.splits toml_value.splits)

lemma leads_put_table: "leads path t \<Longrightarrow> leads path (put_table path new t)"
  by (induction path t rule: leads.induct) (auto simp: update_conv' split: option.splits toml_value.splits)

text \<open>The table that a header opens when its last key is not there yet, or implicit.\<close>

lemma insert_header_last:
  assumes "insert_last kind t key (VTable multiline []) = (t', Inr path)" "kind \<noteq> dotted_keys"
  shows "map step_key path = [key] \<and> leads path t' \<and>
    (kind = array_table \<longrightarrow> table_at path t' = []) \<and>
    (kind = std_table \<longrightarrow> table_at path t' = (case map_of t key of Some v \<Rightarrow> table_of v | None \<Rightarrow> []))"
proof (cases "map_of t key")
  case None
  with assms show ?thesis
    by (cases kind) (auto simp: insert_last_def map_of_append_fresh simp del: map_of_append)
next
  case (Some v)
  show ?thesis
  proof (cases kind)
    case std_table
    then obtain sub where "v = VTable implicit sub" "t' = AList.update key (VTable multiline sub) t" "path = [Member key]"
      using assms(1) Some by (cases v) (auto simp: insert_last_def split: table_format.splits)
    with Some std_table show ?thesis by (simp add: update_conv')
  next
    case array_table
    then obtain fmt vs where "v = VArray fmt vs" "t' = AList.update key (VArray fmt (vs @ [VTable multiline []])) t" "path = [Back key]"
      using assms(1) Some by (cases v) (auto simp: insert_last_def split: if_splits)
    with array_table show ?thesis by (simp add: update_conv')
  qed (use assms(2) in simp)
qed

lemma leads_Cons:
  "leads (Member key # path) (t @ [(key, VTable fmt sub)]) = leads path sub" if "map_of t key = None"
  using that by (simp add: map_of_append_fresh del: map_of_append)

lemma insert_header:
  "insert_value kind t keys val = (t', Inr path) \<Longrightarrow> val = VTable multiline [] \<Longrightarrow> kind \<noteq> dotted_keys \<Longrightarrow>
   map step_key path = keys \<and> leads path t' \<and> (kind = array_table \<longrightarrow> table_at path t' = [])"
proof (induction kind t keys val arbitrary: t' path rule: insert_value.induct)
  case (2 kind t key val)
  then show ?case using insert_header_last [of kind t key t' path] by simp
next
  case (3 kind t key k keys val)
  let ?keys = "k # keys"
  show ?case
  proof (cases "map_of t key")
    case None
    obtain s r where r: "insert_value kind [] ?keys val = (s, r)" by fastforce
    with 3(4) None obtain p where p: "r = Inr p" "path = Member key # p"
        "t' = t @ [(key, VTable (if kind = dotted_keys then dotted else implicit) s)]" by (cases r) auto
    from 3(1) [OF None, of s p] r p 3(5,6) show ?thesis
      by (simp add: map_of_append_fresh [OF None] del: map_of_append)
  next
    case (Some v)
    show ?thesis
    proof (cases v)
      case (VTable fmt sub)
      obtain s r where r: "insert_value kind sub ?keys val = (s, r)" by fastforce
      with 3(4) Some VTable obtain p where p: "r = Inr p" "path = Member key # p"
          "t' = AList.update key (VTable fmt s) t" "\<not> (fmt = oneline \<or> fmt = multiline_oneline)" "\<not> (kind = dotted_keys \<and> fmt \<noteq> dotted)"
        by (cases r) (auto split: if_splits)
      from 3(3) [OF Some VTable p(4,5), of s p] r p 3(5,6) show ?thesis by (simp add: update_conv')
    next
      case (VArray fmt vs)
      have g: "\<not> \<not> is_array_of_tables (VArray fmt vs)" "\<not> fmt \<noteq> array_of_tables" "kind \<noteq> dotted_keys"
        using 3(4,6) Some VArray by (auto split: if_splits)
      then obtain tfmt sub where sub: "last vs = VTable tfmt sub"
        by (cases "last vs") (auto simp: list_all_iff dest!: last_in_set)
      obtain s r where r: "insert_value kind sub ?keys val = (s, r)" by fastforce
      with 3(4) Some VArray sub g obtain p where p: "r = Inr p" "path = Back key # p"
          "t' = AList.update key (VArray fmt (butlast vs @ [VTable tfmt s])) t"
        by (cases r) auto
      from 3(2) [OF Some VArray g sub, of s p] r p 3(5,6) show ?thesis by (simp add: update_conv')
    qed (use 3(4) Some in auto)
  qed
qed simp

lemma insert_empty_succeeds: "keys \<noteq> [] \<Longrightarrow> \<exists>t' path. insert_value kind [] keys val = (t', Inr path)"
proof (induction keys)
  case (Cons key keys)
  then show ?case
    by (cases keys) (auto simp: insert_last_def split: inserting_value_kind.split)
qed simp

lemma insert_last_fails: "insert_last kind t key (VTable fmt []) = (t', Inl e) \<Longrightarrow> t' = t"
  by (auto simp: insert_last_def split: option.splits toml_value.splits table_format.splits if_splits
    inserting_value_kind.splits)

lemma insert_header_fails:
  "insert_value kind t keys val = (t', Inl e) \<Longrightarrow> val = VTable fmt [] \<Longrightarrow> t' = t"
proof (induction kind t keys val arbitrary: t' rule: insert_value.induct)
  case (2 kind t key val)
  then show ?case using insert_last_fails by simp
next
  case (3 kind t key k keys val)
  let ?keys = "k # keys"
  show ?case
  proof (cases "map_of t key")
    case None
    with 3(4) insert_empty_succeeds [of ?keys kind val] show ?thesis by auto
  next
    case (Some v)
    show ?thesis
    proof (cases v)
      case (VTable fmt' sub)
      obtain s r where r: "insert_value kind sub ?keys val = (s, r)" by fastforce
      show ?thesis
      proof (cases "(fmt' = oneline \<or> fmt' = multiline_oneline) \<or> (kind = dotted_keys \<and> fmt' \<noteq> dotted)")
        case False
        with r 3(4) Some VTable have "r = Inl e" "t' = AList.update key (VTable fmt' s) t" by (cases r; auto)+
        with 3(3) [OF Some VTable, of s] False r 3(5) Some VTable show ?thesis by (simp add: update_same)
      qed (use 3(4) Some VTable in \<open>auto split: if_splits\<close>)
    next
      case (VArray fmt' vs)
      show ?thesis
      proof (cases "is_array_of_tables v \<and> fmt' = array_of_tables \<and> kind \<noteq> dotted_keys")
        case True
        then obtain tfmt sub where sub: "last vs = VTable tfmt sub" "vs \<noteq> []"
          using VArray by (cases "last vs") (auto simp: list_all_iff dest!: last_in_set)
        obtain s r where r: "insert_value kind sub ?keys val = (s, r)" by fastforce
        with True 3(4) Some VArray sub have e: "r = Inl e" "t' = AList.update key (VArray fmt' (butlast vs @ [VTable tfmt s])) t"
          by (cases r; auto)+
        with 3(2) [OF Some VArray _ _ _ sub(1), of s] True r 3(5) VArray have "s = sub" by simp
        moreover have "butlast vs @ [VTable tfmt sub] = vs" using sub by (metis append_butlast_last_id)
        ultimately show ?thesis using e Some VArray by (simp add: update_same)
      qed (use 3(4) Some VArray in \<open>auto split: if_splits\<close>)
    qed (use 3(4) Some in auto)
  qed
qed simp

text \<open>
  C26: a header that is accepted leads to one table under its keys, empty if it is an array's, into which
  the entries below the header go; one that is refused leaves the document as it was.
\<close>

theorem header_opens_table:
  assumes "kind \<noteq> dotted_keys"
  shows "case insert_value kind t keys (VTable multiline []) of
      (t', Inl e) \<Rightarrow> t' = t
    | (t', Inr path) \<Rightarrow> map step_key path = keys \<and> (kind = array_table \<longrightarrow> table_at path t' = []) \<and>
        (\<forall>new. table_at path (put_table path new t') = new)"
  using insert_header [OF _ refl assms] insert_header_fails [OF _ refl] table_at_put_table
  by (fastforce split: prod.split sum.split)

lemma header_opens_table_witness:
  "case insert_value std_table [] [''a'', ''b''] (VTable multiline []) of
     (t', Inl e) \<Rightarrow> False
   | (t', Inr path) \<Rightarrow> table_at path (put_table path [(''x'', VInteger 1)] t') = [(''x'', VInteger 1)]"
  using header_opens_table [where kind = std_table and t = "[]" and keys = "[''a'', ''b'']"] by (simp add: insert_last_def)

end
