(* ===== verification/TomlValues.thy ===== *)
theory TomlValues
  imports TomlTables
begin

text \<open>
  Well-formed TOML values: integers of 64 bits, dates and times that exist, tables with distinct keys.
  Insertion keeps tables well-formed and the parsers of scalars produce well-formed values.
\<close>

section \<open>Characters of a scanner\<close>

text \<open>Every word of a scanner consists of characters with the property \<open>P\<close>.\<close>

fun only_chars :: "(char \<Rightarrow> bool) \<Rightarrow> scanner \<Rightarrow> bool" where
  "only_chars P (character c) = P c"
| "only_chars P (character_either cs) = list_all P cs"
| "only_chars P (character_in_range a b) = (\<forall>c. uint8 a \<le> uint8 c \<longrightarrow> uint8 c \<le> uint8 b \<longrightarrow> P c)"
| "only_chars P (literal cs) = list_all P cs"
| "only_chars P (sequence ss) = list_all (only_chars P) ss"
| "only_chars P (either ss) = list_all (only_chars P) ss"
| "only_chars P (repeat_exact n s) = only_chars P s"
| "only_chars P (repeat_at_least n s) = only_chars P s"
| "only_chars P (maybe s) = only_chars P s"
| "only_chars P non_ascii_key_char = False"

lemma power_lang_chars: "(\<And>w. w \<in> A \<Longrightarrow> list_all P w) \<Longrightarrow> w \<in> power_lang n A \<Longrightarrow> list_all P w"
  by (induction n arbitrary: w) (auto simp: conc_def)

lemma lang_only_chars:
  "only_chars P s \<Longrightarrow> w \<in> lang s \<Longrightarrow> list_all P w"
  "list_all (only_chars P) ss \<Longrightarrow> w \<in> lang_sequence ss \<Longrightarrow> list_all P w"
proof (induction s and ss arbitrary: w and w rule: lang_lang_sequence.induct)
  case (7 n s)
  then show ?case using power_lang_chars [of "lang s" P w n] by auto
next
  case (8 n s)
  then obtain m where "w \<in> power_lang (n + m) (lang s)" by auto
  with 8 show ?case using power_lang_chars [of "lang s" P w "n + m"] by auto
qed (auto simp: conc_def list_all_iff)

text \<open>When a parser returns a value.\<close>

named_theorems ret_simps \<open>a parser returns a value\<close>

lemma pbind_Ret [simp, ret_simps]:
  "pbind r f = Some (Ret y loc) \<longleftrightarrow> (\<exists>x loc'. r = Some (Ret x loc') \<and> f x loc' = Some (Ret y loc))"
  by (cases "(r, f)" rule: pbind.cases) auto

lemma ret_cases [ret_simps]:
  "(case x of None \<Rightarrow> Some (Err e l) | Some z \<Rightarrow> f z) = Some (Ret v loc) \<longleftrightarrow> (\<exists>z. x = Some z \<and> f z = Some (Ret v loc))"
  "(case y of Inl e \<Rightarrow> Some (Err (g e) l) | Inr z \<Rightarrow> f z) = Some (Ret v loc) \<longleftrightarrow> (\<exists>z. y = Inr z \<and> f z = Some (Ret v loc))"
  "(if b then Some (Err e l) else r) = Some (Ret v loc) \<longleftrightarrow> \<not> b \<and> r = Some (Ret v loc)"
  "(if b then r else Some (Err e l)) = Some (Ret v loc) \<longleftrightarrow> b \<and> r = Some (Ret v loc)"
  "Some (Ret u l) = Some (Ret v loc) \<longleftrightarrow> u = v \<and> l = loc"
  by (auto split: option.splits sum.splits)

lemma scan_or_result:
  assumes "well_behaved s" "loc_ok loc" "scan_or e s loc = Some (Ret reg loc')"
  shows "reg_string reg \<in> lang s" "loc_ok loc'" "loc_source loc' = loc_source loc"
  using assms munch_lang(1) by (auto simp: scan_or_def scan_munch(1) scanned_def split: option.splits)

section \<open>Well-formed values\<close>

definition valid_date :: "local_date \<Rightarrow> bool" where
  "valid_date d \<longleftrightarrow> 0 \<le> month d \<and> month d \<le> 11 \<and> 1 \<le> day d \<and>
     day d \<le> (if month d = 1 then if year d mod 4 = 0 \<and> (year d mod 100 \<noteq> 0 \<or> year d mod 400 = 0) then 29 else 28
               else if month d \<in> {3, 5, 8, 10} then 30 else 31)"

definition valid_time :: "local_time \<Rightarrow> bool" where
  "valid_time t \<longleftrightarrow> 0 \<le> hour t \<and> hour t \<le> 23 \<and> 0 \<le> minute t \<and> minute t \<le> 59 \<and> 0 \<le> second t \<and> second t \<le> 60 \<and>
     0 \<le> millisecond t \<and> millisecond t \<le> 999 \<and> 0 \<le> microsecond t \<and> microsecond t \<le> 999 \<and>
     0 \<le> nanosecond t \<and> nanosecond t \<le> 999"

definition valid_offset :: "time_offset \<Rightarrow> bool" where
  "valid_offset z \<longleftrightarrow> \<bar>off_hour z\<bar> \<le> 24 \<and> \<bar>off_minute z\<bar> \<le> 60"

definition in_int64 :: "int \<Rightarrow> bool" where
  "in_int64 i \<longleftrightarrow> INT64_MIN \<le> i \<and> i \<le> INT64_MAX"

fun wf_value :: "toml_value \<Rightarrow> bool"
  and wf_values :: "toml_value list \<Rightarrow> bool"
  and wf_entries :: "table \<Rightarrow> bool" where
  "wf_value (VInteger i) = in_int64 i"
| "wf_value (VOffsetDatetime d t z) = (valid_date d \<and> valid_time t \<and> valid_offset z)"
| "wf_value (VLocalDatetime d t) = (valid_date d \<and> valid_time t)"
| "wf_value (VLocalDate d) = valid_date d"
| "wf_value (VLocalTime t) = valid_time t"
| "wf_value (VArray fmt vs) = ((fmt = array_of_tables \<longrightarrow> vs \<noteq> [] \<and> list_all is_table vs) \<and> wf_values vs)"
| "wf_value (VTable fmt t) = (distinct (List.map fst t) \<and> wf_entries t)"
| "wf_value _ = True"
| "wf_values [] = True"
| "wf_values (v # vs) = (wf_value v \<and> wf_values vs)"
| "wf_entries [] = True"
| "wf_entries ((k, v) # t) = (wf_value v \<and> wf_entries t)"

definition wf_table :: "table \<Rightarrow> bool" where
  "wf_table t \<longleftrightarrow> distinct (List.map fst t) \<and> wf_entries t"

lemma wf_values_all: "wf_values vs \<longleftrightarrow> list_all wf_value vs"
  by (induction vs) auto

lemma wf_entries_all: "wf_entries t \<longleftrightarrow> list_all (\<lambda>p. wf_value (snd p)) t"
  by (induction t) auto

lemma wf_table_simps [simp]: "wf_table []" "wf_value (VTable fmt t) = wf_table t"
  by (simp_all add: wf_table_def)

declare wf_value.simps(7) [simp del]

lemma wf_table_value: "wf_table t \<Longrightarrow> map_of t k = Some v \<Longrightarrow> wf_value v"
  by (auto simp: wf_table_def wf_entries_all list_all_iff dest!: map_of_SomeD)

lemma wf_table_append: "wf_table t \<Longrightarrow> map_of t k = None \<Longrightarrow> wf_value v \<Longrightarrow> wf_table (t @ [(k, v)])"
  by (auto simp: wf_table_def wf_entries_all map_of_eq_None_iff)

lemma wf_table_update: "wf_table t \<Longrightarrow> wf_value v \<Longrightarrow> wf_table (AList.update k v t)"
  by (auto simp: wf_table_def distinct_update wf_entries_all)
    (induction t; auto simp: list_all_iff)

lemma merge_table_wf: "wf_entries kvs \<Longrightarrow> wf_table t \<Longrightarrow> wf_table (snd (merge_table kvs t))"
  by (induction kvs t rule: merge_table.induct) (auto intro: wf_table_append)

lemma wf_table_of: "wf_value v \<Longrightarrow> wf_entries (table_of v)"
  by (cases v) (auto simp: wf_table_def)

lemma insert_last_wf:
  assumes "wf_table t" "wf_value val" "kind = array_table \<longrightarrow> is_table val"
  shows "wf_table (fst (insert_last kind t key val))"
proof (cases "map_of t key")
  case None
  with assms show ?thesis by (auto simp: insert_last_def wf_table_append split: inserting_value_kind.split)
next
  case (Some v)
  with assms have v: "wf_value v" by (blast intro: wf_table_value)
  have merge: "wf_table target \<Longrightarrow> merge_table (table_of val) target = (b, target') \<Longrightarrow> wf_table target'" for target b target'
    using merge_table_wf [OF wf_table_of [OF assms(2)], of target] by simp
  show ?thesis
    using Some assms v merge
    by (auto simp: insert_last_def wf_values_all intro!: wf_table_update
      split: inserting_value_kind.split toml_value.split table_format.split prod.split bool.split)
qed

lemma insert_value_wf:
  "wf_table t \<Longrightarrow> wf_value val \<Longrightarrow> kind = array_table \<longrightarrow> is_table val \<Longrightarrow>
   wf_table (fst (insert_value kind t keys val))"
proof (induction kind t keys val rule: insert_value.induct)
  case (3 kind t key k keys val)
  let ?keys = "k # keys"
  show ?case
  proof (cases "map_of t key")
    case None
    with 3 show ?thesis by (auto intro!: wf_table_append split: prod.splits)
  next
    case (Some v)
    with 3 have v: "wf_value v" by (blast intro: wf_table_value)
    show ?thesis
    proof (cases v)
      case (VTable fmt sub)
      with 3(3) [OF Some VTable] 3(4-6) Some v show ?thesis
        by (auto intro!: wf_table_update split: prod.splits)
    next
      case (VArray fmt vs)
      show ?thesis
      proof (cases "is_array_of_tables v \<and> fmt = array_of_tables \<and> kind \<noteq> dotted_keys")
        case True
        then obtain tfmt sub where sub: "last vs = VTable tfmt sub" "vs \<noteq> []"
          using VArray by (cases "last vs") (auto simp: list_all_iff dest!: last_in_set)
        then have "wf_value (VTable tfmt sub)" using v VArray by (metis wf_value.simps(6) wf_values_all list_all_iff last_in_set)
        with 3(2) [OF Some VArray _ _ _ sub(1)] True VArray 3(5,6)
        have "wf_table (fst (insert_value kind sub ?keys val))" by simp
        moreover have "wf_values (butlast vs)" "list_all is_table (butlast vs)"
          using v VArray True by (auto simp: wf_values_all list_all_iff dest: in_set_butlastD)
        ultimately show ?thesis using Some True VArray sub 3(4)
          by (auto simp: wf_values_all intro!: wf_table_update split: prod.splits)
      qed (use 3(4) Some VArray in auto)
    qed (use 3(4) Some in auto)
  qed
qed (simp_all add: insert_last_wf)

section \<open>Scalars are well-formed\<close>

lemma read_stream_bounds: "read_stream lo hi base cs = Some i \<Longrightarrow> lo \<le> i \<and> i \<le> hi"
  by (auto simp: read_stream_def Let_def split: if_splits)

lemma digits_value_nonneg: "0 \<le> digits_value base ds"
proof -
  have "0 \<le> n \<Longrightarrow> 0 \<le> foldl (\<lambda>n d. int base * n + int d) n ds" for n
    by (induction ds arbitrary: n) auto
  then show ?thesis by (simp add: digits_value_def)
qed

lemma digits_value_snoc: "digits_value base (ds @ [d]) = int base * digits_value base ds + int d"
  by (simp add: digits_value_def)

lemma digits_value_less: "list_all (\<lambda>d. d < base) ds \<Longrightarrow> digits_value base ds < int base ^ length ds"
proof (induction ds rule: rev_induct)
  case (snoc d ds)
  then have "digits_value base ds \<le> int base ^ length ds - 1" "int d \<le> int base - 1" by auto
  then have "int base * digits_value base ds + int d \<le> int base * (int base ^ length ds - 1) + (int base - 1)"
    by (intro add_mono mult_left_mono) auto
  then show ?case by (simp add: digits_value_snoc algebra_simps)
qed (simp add: digits_value_def)

lemma stream_digits_less: "list_all (\<lambda>d. d < base) (stream_digits base cs)" "length (stream_digits base cs) \<le> length cs"
  by (induction cs) (auto split: option.splits)

lemma from_string_int_bounds:
  assumes "from_string_int cs = Some i" "CHR ''-'' \<notin> set cs"
  shows "0 \<le> i" "i < 10 ^ length cs"
proof -
  define ds where "ds = stream_digits 10 (if cs \<noteq> [] \<and> hd cs \<in> {CHR ''+'', CHR ''-''} then tl cs else cs)"
  have "\<not> (cs \<noteq> [] \<and> hd cs = CHR ''-'')" using assms(2) hd_in_set [of cs] by metis
  then have i: "i = digits_value 10 ds"
    using assms(1) by (auto simp: from_string_int_def read_stream_def Let_def ds_def split: if_splits)
  then show "0 \<le> i" by (simp add: digits_value_nonneg)
  have "length ds \<le> length cs" unfolding ds_def using stream_digits_less(2) [of 10 cs] stream_digits_less(2) [of 10 "tl cs"]
    by auto
  then have "(10 :: int) ^ length ds \<le> 10 ^ length cs" by (simp add: power_increasing)
  moreover have "list_all (\<lambda>d. d < 10) ds" by (simp add: ds_def stream_digits_less(1))
  ultimately show "i < 10 ^ length cs" using digits_value_less [of 10 ds] i by (simp del: power_increasing_iff)
qed

lemma only_chars_time:
  "only_chars (\<lambda>c. c \<noteq> CHR ''-'') (sx_local_time sp)"
  by (auto simp: time_syntax_defs sx_digit_def word_le_nat_alt unat_uint8)

lemma local_time_ok:
  "\<not> loc_ok loc \<Longrightarrow> scan_or e (sx_local_time sp) loc \<noteq> Some (Ret reg loc')"
  by (simp add: scan_or_def sx_local_time_def sx_digit_def scan_char_def loc_eof_def loc_ok_def numeral_2_eq_2)

lemma local_time_of_valid:
  assumes "local_time_of sp str loc = Some (Ret t loc')" "CHR ''-'' \<notin> set str"
  shows "valid_time t"
proof -
  have sub: "CHR ''-'' \<notin> set (substr str i n)" for i n
    using assms(2) by (auto simp: substr_def dest!: in_set_takeD in_set_dropD)
  have frac: "CHR ''-'' \<notin> set (substr (drop 9 str @ replicate m (CHR ''0'')) i n)" for m i n
    using assms(2) by (auto simp: substr_def dest!: in_set_takeD in_set_dropD)
  have len: "length (substr cs i 3) \<le> 3" for cs i by (simp add: substr_def)
  have bound: "from_string_int cs = Some i \<Longrightarrow> CHR ''-'' \<notin> set cs \<Longrightarrow> length cs \<le> 3 \<Longrightarrow> 0 \<le> i \<and> i \<le> 999" for cs i
  proof -
    assume a: "from_string_int cs = Some i" "CHR ''-'' \<notin> set cs" "length cs \<le> 3"
    then have "(10 :: int) ^ length cs \<le> 10 ^ 3" by (intro power_increasing) auto
    with from_string_int_bounds [OF a(1,2)] show "0 \<le> i \<and> i \<le> 999" by simp
  qed
  show ?thesis
    using assms(1) bound [OF _ frac len] unfolding local_time_of_def Let_def ret_simps valid_time_def
    by (elim exE conjE; simp only: ret_simps split: if_splits; elim exE conjE; auto simp: ret_simps)
qed

lemma parse_local_time_valid: "parse_local_time_only sp loc = Some (Ret t loc') \<Longrightarrow> valid_time t"
proof -
  assume "parse_local_time_only sp loc = Some (Ret t loc')"
  then obtain e reg loc1 where scan: "scan_or e (sx_local_time sp) loc = Some (Ret reg loc1)"
    and t: "local_time_of sp (reg_string reg) loc1 = Some (Ret t loc')"
    unfolding parse_local_time_only_def pbind_Ret by blast
  have "well_behaved (sx_local_time sp)" by (simp add: time_syntax_defs sx_digit_def)
  then have "CHR ''-'' \<notin> set (reg_string reg)"
    using scan_or_result(1) [OF _ _ scan] local_time_ok [of loc e sp reg loc1] scan
      lang_only_chars(1) [OF only_chars_time [of sp], of "reg_string reg"]
    by (auto simp: list_all_iff)
  with t show ?thesis by (rule local_time_of_valid)
qed

lemma parse_local_date_valid: "parse_local_date_only loc = Some (Ret d loc') \<Longrightarrow> valid_date d"
proof -
  assume "parse_local_date_only loc = Some (Ret d loc')"
  then obtain y m n where d: "d = \<lparr>year = y, month = m - 1, day = n\<rparr>"
    and g: "\<not> (m < 1 \<or> 12 < m \<or> n < 1 \<or>
      (if m = 2 then if y mod 4 = 0 \<and> (y mod 100 \<noteq> 0 \<or> y mod 400 = 0) then 29 else 28
       else if m = 4 \<or> m = 6 \<or> m = 9 \<or> m = 11 then 30 else 31) < n)"
    unfolding parse_local_date_only_def Let_def ret_simps by blast
  show ?thesis
  proof (cases "m = 2")
    case True
    with g show ?thesis by (simp add: d valid_date_def split: if_splits)
  next
    case False
    with g show ?thesis by (auto simp: d valid_date_def split: if_splits)
  qed
qed

lemma parse_date_and_time_valid:
  "parse_date_and_time e sp loc = Some (Ret (d, t) loc') \<Longrightarrow> valid_date d \<and> valid_time t"
  unfolding parse_date_and_time_def ret_simps
  by (elim exE conjE; simp add: parse_local_date_valid parse_local_time_valid)

lemma signed64_in: "signed64 i = Some j \<Longrightarrow> in_int64 j"
  by (auto simp: signed64_def in_int64_def split: if_splits)

lemma bin_loop_bounds: "bin_loop cs val base = Some (val', base') \<Longrightarrow> in_int64 val \<Longrightarrow> in_int64 val'"
proof (induction cs val base rule: bin_loop.induct)
  case (2 c cs val base)
  from 2(5,6) show ?case using 2(1-4) signed64_in [of "val + base"] 
    by (simp only: bin_loop.simps bind_eq_Some_conv split: if_splits) blast+
qed simp

lemma read_int_bounds: "read_int cs base = Some (Inr i) \<Longrightarrow> in_int64 i"
proof -
  have s: "read_stream INT64_MIN INT64_MAX b cs = Some i \<Longrightarrow> in_int64 i" for b
    using read_stream_bounds [of INT64_MIN INT64_MAX b cs i] by (simp add: in_int64_def)
  have z: "in_int64 0" by (simp add: in_int64_def)
  assume "read_int cs base = Some (Inr i)"
  then show ?thesis
    using s bin_loop_bounds [OF _ z, of "rev cs" 1]
    by (auto simp: read_int_def read_bin_int_def read_dec_int_def read_oct_int_def read_hex_int_def
      split: option.splits if_splits prod.splits)
qed

lemma int_result_bounds: "int_result first loc (read_int cs base) = Some (Ret v loc') \<Longrightarrow> wf_value v"
  by (auto simp: int_result_def dest: read_int_bounds split: option.splits sum.splits)

lemma option_cases_VInteger:
  assumes "(case r of None \<Rightarrow> Some Undefined
    | Some (Inl e) \<Rightarrow> Some (Err e first)
    | Some (Inr i) \<Rightarrow>
        if b then (case s of None \<Rightarrow> None | Some (None, l) \<Rightarrow> Some (Err e' first) | Some (Some x, l) \<Rightarrow> Some (Ret (VInteger i) l))
        else Some (Ret (VInteger i) loc)) = Some (Ret v loc')"
  shows "\<exists>i. r = Some (Inr i) \<and> v = VInteger i"
  using assms by (auto split: option.splits sum.splits if_splits)

lemma parse_integer_wf: "parse_integer sp loc = Some (Ret v loc') \<Longrightarrow> wf_value v"
proof -
  have int: "parse_bin_integer l = Some (Ret v loc') \<Longrightarrow> wf_value v" "parse_oct_integer l = Some (Ret v loc') \<Longrightarrow> wf_value v"
      "parse_hex_integer l = Some (Ret v loc') \<Longrightarrow> wf_value v" for l
    unfolding parse_bin_integer_def parse_oct_integer_def parse_hex_integer_def Let_def ret_simps
    by (blast dest: int_result_bounds)+
  have dec: "parse_dec_integer sp l = Some (Ret v loc') \<Longrightarrow> wf_value v" for l
    unfolding parse_dec_integer_def Let_def pbind_Ret
    by (elim exE conjE; drule option_cases_VInteger; elim exE conjE; simp add: read_int_bounds)
  assume "parse_integer sp loc = Some (Ret v loc')"
  then show ?thesis unfolding parse_integer_def Let_def using int dec by (simp only: ret_simps split: if_splits)
qed

lemma scalar_wf:
  "parse_boolean loc = Some (Ret v loc') \<Longrightarrow> wf_value v"
  "parse_null sp loc = Some (Ret v loc') \<Longrightarrow> wf_value v"
  "parse_string sp loc = Some (Ret v loc') \<Longrightarrow> wf_value v"
  "parse_local_date loc = Some (Ret v loc') \<Longrightarrow> wf_value v"
  "parse_local_time sp loc = Some (Ret v loc') \<Longrightarrow> wf_value v"
  "parse_local_datetime sp loc = Some (Ret v loc') \<Longrightarrow> wf_value v"
  unfolding parse_boolean_def parse_null_def parse_string_def parse_local_date_def
    parse_local_time_def parse_local_datetime_def Let_def
  by (auto simp: ret_simps dest: parse_local_date_valid parse_local_time_valid parse_date_and_time_valid split: if_splits)

lemma parse_floating_wf: "parse_floating rdf sp loc = Some (Ret v loc') \<Longrightarrow> wf_value v"
  unfolding parse_floating_def Let_def pbind_Ret ret_cases
  by (elim exE conjE) (auto split: if_splits option.splits)

lemma time_offset_of_valid: "time_offset_of str loc = Some (Ret z loc') \<Longrightarrow> valid_offset z"
  unfolding time_offset_of_def Let_def
  by (simp only: ret_simps split: if_splits; auto simp: ret_simps valid_offset_def)

lemma parse_offset_datetime_wf: "parse_offset_datetime sp loc = Some (Ret v loc') \<Longrightarrow> wf_value v"
  unfolding parse_offset_datetime_def pbind_Ret
  by (elim exE conjE; simp only: split_beta pbind_Ret; elim exE conjE)
    (metis parse_date_and_time_valid time_offset_of_valid wf_value.simps(2) option.inject toml_result.inject(1) prod.collapse)

end
