(* ===== verification/TomlNumbers.thy ===== *)
theory TomlNumbers
  imports TomlRecovery TomlValues
begin

text \<open>
  Integers in TOML documents: decimal numbers are read back as they are written, up to the range of 64
  bits and not beyond; binary numbers are right up to 62 digits, undefined behaviour with 63 and an
  error above.
\<close>

section \<open>Binary integers\<close>

definition bit :: "char \<Rightarrow> int" where
  "bit c = (if c = CHR ''1'' then 1 else 0)"

text \<open>The value of binary digits, the lowest first, and the value of a numeral.\<close>

fun low_first :: "string \<Rightarrow> int" where
  "low_first [] = 0"
| "low_first (c # cs) = bit c + 2 * low_first cs"

definition binary_value :: "string \<Rightarrow> int" where
  "binary_value cs = foldl (\<lambda>n c. 2 * n + bit c) 0 cs"

lemma low_first_snoc: "low_first (cs @ [c]) = low_first cs + bit c * 2 ^ length cs"
  by (induction cs) (auto simp: algebra_simps)

lemma binary_value_low_first: "binary_value cs = low_first (rev cs)"
proof (induction cs rule: rev_induct)
  case (snoc c cs)
  then show ?case by (simp add: binary_value_def)
qed (simp add: binary_value_def)

lemma low_first_bounds: "0 \<le> low_first cs \<and> low_first cs < 2 ^ length cs"
  by (induction cs) (auto simp: bit_def)

lemma bin_loop_prefix:
  "k + length xs \<le> 62 \<Longrightarrow> 0 \<le> val \<Longrightarrow> val < 2 ^ k \<Longrightarrow>
   bin_loop (xs @ ys) val (2 ^ k) = bin_loop ys (val + 2 ^ k * low_first xs) (2 ^ (k + length xs))"
proof (induction xs arbitrary: val k)
  case (Cons c xs)
  have k: "(2 :: int) ^ k \<le> 2 ^ 61" using Cons.prems(1) by (intro power_increasing) auto
  have b: "signed64 (2 ^ k * 2) = Some (2 ^ Suc k)" "signed64 (val + 2 ^ k) = Some (val + 2 ^ k)"
      "\<not> INT64_MAX div 2 < 2 ^ k"
    using k Cons.prems(2,3) by (simp_all add: signed64_def)
  have "bin_loop ((c # xs) @ ys) val (2 ^ k) = bin_loop (xs @ ys) (val + bit c * 2 ^ k) (2 ^ Suc k)"
    using b by (simp add: bit_def del: power_Suc)
  also have "\<dots> = bin_loop ys (val + bit c * 2 ^ k + 2 ^ Suc k * low_first xs) (2 ^ (Suc k + length xs))"
    using Cons.prems by (intro Cons.IH) (auto simp: bit_def)
  finally show ?case by (simp add: algebra_simps)
qed simp

lemma bin_loop_zero: "in_int64 val \<Longrightarrow> bin_loop cs val 0 = Some (val, 0)"
  by (induction cs) (auto simp: signed64_def in_int64_def)

lemma bin_loop_top:
  assumes "0 \<le> val" "val < 2 ^ 62"
  shows "bin_loop [c] val (2 ^ 62) = None"
    "cs \<noteq> [] \<Longrightarrow> bin_loop (c # cs) val (2 ^ 62) = Some (val + bit c * 2 ^ 62, 0)"
proof -
  have b: "signed64 (val + 2 ^ 62) = Some (val + 2 ^ 62)" "signed64 (2 ^ 62 * 2) = None" "INT64_MAX div 2 < 2 ^ 62"
    using assms by (simp_all add: signed64_def)
  show "bin_loop [c] val (2 ^ 62) = None" using b by simp
  have "in_int64 val" "in_int64 (val + 2 ^ 62)" using assms by (auto simp: in_int64_def)
  then show "cs \<noteq> [] \<Longrightarrow> bin_loop (c # cs) val (2 ^ 62) = Some (val + bit c * 2 ^ 62, 0)"
    using b by (simp add: bin_loop_zero bit_def)
qed

lemma read_bin_int_eq:
  "read_bin_int cs =
     (if length cs \<le> 62 then Some (Inr (binary_value cs))
      else if length cs = 63 then None
      else Some (Inl ''toml::parse_bin_integer: too large integer: current max value = 2^63''))"
proof (cases "length cs \<le> 62")
  case True
  then show ?thesis using bin_loop_prefix [where k = 0 and xs = "rev cs" and val = 0 and ys = "[]"]
    by (simp add: read_bin_int_def binary_value_low_first)
next
  case False
  define xs ys where "xs = take 62 (rev cs)" and "ys = drop 62 (rev cs)"
  then have s: "rev cs = xs @ ys" "length xs = 62" "length ys = length cs - 62" using False by auto
  have "bin_loop (rev cs) 0 1 = bin_loop ys (low_first xs) (2 ^ 62)"
    using bin_loop_prefix [where k = 0 and xs = xs and val = 0 and ys = ys] s by simp
  moreover obtain y zs where y: "ys = y # zs" using s False by (cases ys) auto
  ultimately show ?thesis
    using bin_loop_top [of "low_first xs"] low_first_bounds [of xs] s False
    by (cases zs) (auto simp: read_bin_int_def)
qed

section \<open>Scanning digits\<close>

text \<open>What may follow a value.\<close>

definition value_end :: "string \<Rightarrow> bool" where
  "value_end rest \<longleftrightarrow> rest = [] \<or> hd rest \<in> {SP, CHR 0x09, CR, LF, CHR '','', CHR '']'', CHR ''}'', CHR ''#''}"

definition no_digit_follows :: "(char \<Rightarrow> bool) \<Rightarrow> string \<Rightarrow> bool" where
  "no_digit_follows P rest \<longleftrightarrow> rest = [] \<or> (\<not> P (hd rest) \<and> hd rest \<noteq> CHR ''_'')"

lemma munch_spaced:
  assumes "munch d = munch_char P" "list_all P ds" "no_digit_follows P rest"
  shows "munch_many (munch (spaced d)) (ds @ rest) = length ds"
  using assms(2)
proof (induction ds)
  case Nil
  then show ?case using assms(1,3)
    by (cases rest) (auto simp: munch_many.simps spaced_def no_digit_follows_def)
next
  case (Cons c ds)
  then show ?case using assms(1) by (simp add: munch_many.simps [of _ "c # ds @ rest"] spaced_def)
qed

lemma munch_digit [simp]: "munch sx_digit = munch_char isdigit"
proof
  show "munch sx_digit xs = munch_char isdigit xs" for xs
    by (cases xs) (simp_all add: sx_digit_def isdigit_def word_le_nat_alt unat_uint8)
qed

lemma munch_digit01 [simp]: "munch sx_digit01 = munch_char (\<lambda>c. c = CHR ''0'' \<or> c = CHR ''1'')"
  by (rule ext) (simp add: sx_digit01_def)

lemma value_end_digits:
  "value_end rest \<Longrightarrow> no_digit_follows isdigit rest"
  "value_end rest \<Longrightarrow> no_digit_follows (\<lambda>c. c = CHR ''0'' \<or> c = CHR ''1'') rest"
  by (auto simp: value_end_def no_digit_follows_def isdigit_def)

lemma munch_bin_int:
  assumes "list_all (\<lambda>c. c = CHR ''0'' \<or> c = CHR ''1'') cs" "cs \<noteq> []" "value_end rest"
  shows "munch sx_bin_int (''0b'' @ cs @ rest) = Some (length cs + 2)"
proof -
  obtain c ds where "cs = c # ds" using assms(2) by (cases cs) auto
  with assms munch_spaced [of sx_digit01 _ ds rest] value_end_digits(2) [OF assms(3)] show ?thesis
    by (simp add: sx_bin_int_def)
qed

lemma well_behaved_numbers [simp]:
  "well_behaved sx_bin_int" "well_behaved sx_dec_int" "well_behaved sx_integer" "well_behaved sx_floating"
  "well_behaved sx_local_date" "well_behaved (sx_local_time sp)" "well_behaved (sx_local_datetime sp)"
  "well_behaved (sx_offset_datetime sp)"
  by (simp_all add: syntax_defs)

lemma scan_or_munch:
  "well_behaved s \<Longrightarrow> loc_ok loc \<Longrightarrow> munch s (loc_rest loc) = Some k \<Longrightarrow>
   scan_or e s loc = Some (Ret (mk_region loc (advance k loc)) (advance k loc))"
  by (simp add: scan_or_def scan_munch(1))

text \<open>
  a binary integer has its value up to 62 digits, is undefined behaviour with 63, the overflow of the
  power of two behind the last digit, although it is in range, and an error with more.
\<close>

theorem bin_overflow:
  assumes "loc_ok loc" "loc_rest loc = ''0b'' @ cs @ rest" "value_end rest"
    and "list_all (\<lambda>c. c = CHR ''0'' \<or> c = CHR ''1'') cs" "cs \<noteq> []" "hd cs = CHR ''1''"
  shows "parse_integer sp loc =
    (if length cs \<le> 62 then Some (Ret (VInteger (binary_value cs)) (advance (length cs + 2) loc))
     else if length cs = 63 then Some Undefined
     else Some (Err ''toml::parse_bin_integer: too large integer: current max value = 2^63'' loc))"
proof -
  let ?reg = "mk_region loc (advance (length cs + 2) loc)"
  have reg: "reg_string ?reg = ''0b'' @ cs" using assms(1,2) by simp
  have strip: "dropWhile (\<lambda>c. c \<noteq> CHR ''1'') cs = cs" using assms(5,6) by (cases cs) auto
  have "no_underscores cs = cs" using assms(4) by (auto simp: no_underscores_def list_all_iff intro!: filter_True)
  then have whole: "or_zero (no_underscores cs) = cs" using assms(5) by (simp add: or_zero_def)
  have "parse_bin_integer loc = int_result loc (advance (length cs + 2) loc) (read_bin_int cs)"
    using scan_or_munch [of sx_bin_int loc] munch_bin_int [OF assms(4,5,3)] assms(1,2)
    unfolding parse_bin_integer_def Let_def by (simp add: reg strip whole read_int_def)
  moreover have "parse_integer sp loc = parse_bin_integer loc"
    using assms(1,2) by (simp add: parse_integer_def Let_def loc_eof_rest current_rest)
  ultimately show ?thesis unfolding read_bin_int_eq by (simp add: int_result_def)
qed

lemma bin_overflow_witness:
  "parse_integer (spec_v 1 1 0) (start_loc (''0b'' @ replicate 63 (CHR ''1''))) = Some Undefined"
  by (subst bin_overflow [where cs = "replicate 63 (CHR ''1'')" and rest = "[]"])
    (simp_all add: value_end_def list_all_iff)

section \<open>Decimal integers\<close>

lemma digit_char_props:
  "n < 10 \<Longrightarrow> isdigit (digit_char n)" "n < 10 \<Longrightarrow> digit_value (digit_char n) = Some n"
  by (simp_all add: digit_char_def isdigit_def digit_value_def)

lemma show_nat_digits: "list_all isdigit (show_nat n)" "show_nat n \<noteq> []"
proof (induction n rule: show_nat.induct)
  case (1 n)
  { case 1
    show ?case
    proof (cases "n < 10")
      case False
      with "1.IH" show ?thesis by (simp add: show_nat.simps [of n] digit_char_props)
    qed (simp add: show_nat.simps [of n] digit_char_props) }
  { case 2
    show ?case by (simp add: show_nat.simps [of n]) }
qed

lemma show_nat_hd: "10 \<le> n \<Longrightarrow> hd (show_nat n) \<noteq> CHR ''0'' \<and> 2 \<le> length (show_nat n)"
proof (induction n rule: show_nat.induct)
  case (1 n)
  show ?case
  proof (cases "n div 10 < 10")
    case True
    then have "show_nat n = [digit_char (n div 10), digit_char (n mod 10)]"
      using 1(2) by (simp add: show_nat.simps [of n] show_nat.simps [of "n div 10"])
    moreover have "digit_value (digit_char (n div 10)) = Some (n div 10)" using True by (simp add: digit_char_props)
    ultimately show ?thesis using 1(2) by (auto simp: digit_value_def)
  next
    case False
    with 1 show ?thesis using show_nat_digits(2) [of "n div 10"] by (simp add: show_nat.simps [of n])
  qed
qed

lemma stream_digits_append:
  "list_all (\<lambda>c. \<exists>d. digit_value c = Some d \<and> d < base) xs \<Longrightarrow> stream_digits base (xs @ ys) = stream_digits base xs @ stream_digits base ys"
  by (induction xs) auto

lemma isdigit_value: "isdigit c \<Longrightarrow> \<exists>d. digit_value c = Some d \<and> d < 10"
  by (auto simp: isdigit_def digit_value_def)

lemma digits_value_show_nat: "digits_value 10 (stream_digits 10 (show_nat n)) = int n"
proof (induction n rule: show_nat.induct)
  case (1 n)
  show ?case
  proof (cases "n < 10")
    case True
    then show ?thesis by (simp add: show_nat.simps [of n] digit_char_props digits_value_def)
  next
    case False
    have "list_all (\<lambda>c. \<exists>d. digit_value c = Some d \<and> d < 10) (show_nat (n div 10))"
      using show_nat_digits(1) [of "n div 10"] isdigit_value by (auto simp: list_all_iff)
    then have "stream_digits 10 (show_nat n) = stream_digits 10 (show_nat (n div 10)) @ [n mod 10]"
      using False by (simp add: show_nat.simps [of n] stream_digits_append digit_char_props)
    moreover have "10 * int (n div 10) + int (n mod 10) = int n" by presburger
    ultimately show ?thesis using 1 [OF False] by (simp add: digits_value_snoc)
  qed
qed

lemma read_dec_int_show: "read_dec_int (show_int i) =
  (if in_int64 i then Inr i else Inl ''toml::parse_dec_integer: too large integer: current max digits = 2^63'')"
proof -
  have hd: "hd (show_nat n) \<notin> {CHR ''+'', CHR ''-''}" for n
    using show_nat_digits [of n] by (cases "show_nat n") (auto simp: isdigit_def)
  have ne: "stream_digits 10 (show_nat n) \<noteq> []" for n
    using show_nat_digits [of n] isdigit_value by (cases "show_nat n") (fastforce split: option.splits)+
  have "read_stream lo hi 10 (show_int i) = (if i < lo \<or> hi < i then None else Some i)" for lo hi
    using hd [of "nat i"] show_nat_digits(2) [of "nat i"]
    by (auto simp: show_int_def read_stream_def ne digits_value_show_nat)
  then show ?thesis by (simp add: read_dec_int_def in_int64_def)
qed

lemma munch_digits_numeral:
  assumes "list_all isdigit (d # ds)" "ds = [] \<or> d \<noteq> CHR ''0''" "no_digit_follows isdigit rest"
  shows "munch (either [sequence [character_in_range (CHR ''1'') (CHR ''9''), repeat_at_least 1 (spaced sx_digit)], sx_digit])
    (d # ds @ rest) = Some (length ds + 1)"
proof (cases ds)
  case Nil
  have "munch (spaced sx_digit) rest = None"
    using assms(3) by (cases rest) (auto simp: spaced_def no_digit_follows_def)
  with Nil assms(1) show ?thesis by (simp add: numeral_eq_Suc)
next
  case (Cons e es)
  have d: "uint8 (CHR ''1'') \<le> uint8 d" "uint8 d \<le> uint8 (CHR ''9'')"
  proof -
    have "(of_char d :: nat) \<noteq> of_char (CHR ''0'')" using assms(2) Cons by (simp only: of_char_eq_iff) simp
    then show "uint8 (CHR ''1'') \<le> uint8 d" "uint8 d \<le> uint8 (CHR ''9'')"
      using assms(1) by (simp_all add: isdigit_def word_le_nat_alt unat_uint8)
  qed
  have "munch_many (munch (spaced sx_digit)) (es @ rest) = length es"
    using munch_spaced [OF munch_digit _ assms(3)] assms(1) Cons by simp
  moreover have "munch (spaced sx_digit) (e # es @ rest) = Some 1" using assms(1) Cons by (simp add: spaced_def)
  ultimately show ?thesis using d Cons by simp
qed

lemma show_nat_split: obtains d ds where "show_nat n = d # ds" "list_all isdigit (d # ds)" "ds = [] \<or> d \<noteq> CHR ''0''"
proof -
  obtain d ds where d: "show_nat n = d # ds" using show_nat_digits(2) [of n] by (cases "show_nat n") auto
  have "ds = []" if "n < 10" using d that show_nat.simps [of n] by simp
  then have "ds = [] \<or> d \<noteq> CHR ''0''" using show_nat_hd [of n] d by (cases "n < 10") auto
  with d show_nat_digits(1) [of n] show thesis by (intro that) auto
qed

lemma munch_dec_int:
  assumes "value_end rest"
  shows "munch sx_dec_int (show_int i @ rest) = Some (length (show_int i))"
proof -
  obtain d ds where d: "show_nat (nat \<bar>i\<bar>) = d # ds" "list_all isdigit (d # ds)" "ds = [] \<or> d \<noteq> CHR ''0''"
    by (rule show_nat_split)
  then have "d \<noteq> CHR ''+'' \<and> d \<noteq> CHR ''-''" by (auto simp: isdigit_def)
  with munch_digits_numeral [OF d(2,3) value_end_digits(1) [OF assms]] d(1) show ?thesis
    by (cases "i < 0") (simp_all add: sx_dec_int_def show_int_def del: munch_either.simps)
qed

lemma parse_integer_show:
  assumes "loc_ok loc" "loc_rest loc = show_int i @ rest" "value_end rest" "\<not> ext_num_suffix sp"
  shows "parse_integer sp loc =
    (if in_int64 i then Some (Ret (VInteger i) (advance (length (show_int i)) loc))
     else Some (Err ''toml::parse_dec_integer: too large integer: current max digits = 2^63'' loc))"
proof -
  obtain d ds where d: "show_nat (nat \<bar>i\<bar>) = d # ds" "list_all isdigit (d # ds)" "ds = [] \<or> d \<noteq> CHR ''0''"
    by (rule show_nat_split)
  have sign: "show_int i = (if i < 0 then CHR ''-'' # d # ds else d # ds)" using d(1) by (simp add: show_int_def abs_if split: if_split_asm)
  then have "CHR ''_'' \<notin> set (show_int i)" using d(2) by (auto simp: isdigit_def list_all_iff)
  then have plain: "no_underscores (show_int i) = show_int i" by (auto simp: no_underscores_def intro!: filter_True)
  have "parse_dec_integer sp loc = (if in_int64 i then Some (Ret (VInteger i) (advance (length (show_int i)) loc))
     else Some (Err ''toml::parse_dec_integer: too large integer: current max digits = 2^63'' loc))"
    using scan_or_munch [of sx_dec_int loc] munch_dec_int [OF assms(3), of i] assms(1,2,4)
    unfolding parse_dec_integer_def Let_def by (simp add: plain read_int_def read_dec_int_show)
  moreover have "parse_integer sp loc = parse_dec_integer sp loc"
  proof -
    have dd: "isdigit d" "d \<noteq> CHR ''+'' \<and> d \<noteq> CHR ''-''" using d(2) by (auto simp: isdigit_def)
    have r: "rest = [] \<or> (\<not> isdigit (hd rest) \<and> hd rest \<notin> {CHR ''b'', CHR ''o'', CHR ''x''})"
      using assms(3) by (auto simp: value_end_def isdigit_def)
    show ?thesis
      using assms(1,2) sign d(3) dd r
      by (cases rest; cases "i < 0") (auto simp: parse_integer_def Let_def loc_eof_rest current_rest)
  qed
  ultimately show ?thesis by simp
qed

section \<open>Recognising a number\<close>

lemma munch_times_digits:
  "list_all isdigit ds \<Longrightarrow> no_digit_follows isdigit rest \<Longrightarrow>
   munch_times n (munch_char isdigit) (ds @ rest) = (if n \<le> length ds then Some n else None)"
proof (induction ds arbitrary: n)
  case Nil
  then show ?case by (cases n; cases rest) (auto simp: no_digit_follows_def)
next
  case (Cons d ds)
  then show ?case by (cases n) auto
qed

lemma number_is_no_date:
  assumes "list_all isdigit ds" "value_end rest" "c = CHR ''-'' \<or> c = CHR '':''"
  shows "munch_sequence (repeat_exact n sx_digit # character c # ss) (ds @ rest) = None"
proof (cases "n \<le> length ds")
  case True
  have "list_all isdigit (drop n ds)" using assms(1) by (auto simp: list_all_iff dest: in_set_dropD)
  then have "munch_char (\<lambda>d. d = c) (drop n ds @ rest) = None"
    using assms(2,3) by (cases "drop n ds"; cases rest) (auto simp: value_end_def isdigit_def)
  then show ?thesis using True munch_times_digits [OF assms(1) value_end_digits(1) [OF assms(2)], of n] by simp
next
  case False
  then show ?thesis using munch_times_digits [OF assms(1) value_end_digits(1) [OF assms(2)], of n] by simp
qed

lemma munch_number:
  assumes "value_end rest"
  shows "munch sx_local_date (show_int i @ rest) = None" "munch (sx_local_time sp) (show_int i @ rest) = None"
    "munch sx_floating (show_int i @ rest) = None" "munch sx_integer (show_int i @ rest) = Some (length (show_int i))"
proof -
  obtain d ds where d: "show_nat (nat \<bar>i\<bar>) = d # ds" "list_all isdigit (d # ds)" "ds = [] \<or> d \<noteq> CHR ''0''"
    by (rule show_nat_split)
  have cs: "show_int i = (if i < 0 then CHR ''-'' # d # ds else d # ds)"
    using d(1) by (simp add: show_int_def abs_if split: if_split_asm)
  have dd: "isdigit d" "d \<noteq> CHR ''+'' \<and> d \<noteq> CHR ''-'' \<and> d \<noteq> CHR ''i'' \<and> d \<noteq> CHR ''n''"
    using d(2) by (auto simp: isdigit_def)
  have neg: "munch_sequence (repeat_exact (Suc n) sx_digit # ss) (CHR ''-'' # xs) = None" for n ss xs
    by (simp add: isdigit_def)
  show "munch sx_local_date (show_int i @ rest) = None" "munch (sx_local_time sp) (show_int i @ rest) = None"
    using number_is_no_date [OF d(2) assms] neg
    by (simp_all add: cs sx_local_date_def sx_local_time_def numeral_eq_Suc del: munch_sequence.simps munch_times.simps)
  show "munch sx_floating (show_int i @ rest) = None"
    using munch_dec_int [OF assms, of i] assms dd
    by (cases rest; cases "i < 0")
      (auto simp: sx_floating_def exponent_part_def fractional_part_def value_end_def cs)
  show "munch sx_integer (show_int i @ rest) = Some (length (show_int i))"
  proof -
    have np: "\<not> prefix [CHR ''0'', c] (show_int i @ rest)" if "\<not> isdigit c" "rest = [] \<or> hd rest \<noteq> c" for c
      using that d(2) by (cases ds; cases rest) (auto simp: cs)
    have "\<not> prefix ''0x'' (show_int i @ rest)" "\<not> prefix ''0o'' (show_int i @ rest)" "\<not> prefix ''0b'' (show_int i @ rest)"
      by (rule np; use assms in \<open>auto simp: isdigit_def value_end_def\<close>)+
    with munch_dec_int [OF assms, of i] show ?thesis
      by (simp add: sx_integer_def sx_hex_int_def sx_oct_int_def sx_bin_int_def)
  qed
qed

lemma guess_scan_munch:
  "well_behaved s \<Longrightarrow> loc_ok loc \<Longrightarrow>
   guess_scan s loc hit next = (case munch s (loc_rest loc) of None \<Rightarrow> next | Some k \<Rightarrow> hit (advance k loc))"
  by (simp add: guess_scan_def try_scan_munch split: option.split)

lemma value_end_char:
  assumes "value_end (c # rest)"
  shows "\<not> isdigit c" "c \<noteq> CHR ''_''" "c \<noteq> CHR '':''" "c \<noteq> CHR ''-''" "c \<noteq> CHR ''.''" "c \<noteq> CHR ''e''" "c \<noteq> CHR ''E''"
  using assms by (auto simp: value_end_def isdigit_def)

lemma guess_number:
  assumes "loc_ok loc" "loc_rest loc = show_int i @ rest" "value_end rest" "\<not> ext_hex_float sp"
  shows "guess_number_type sp loc = Some (Inr ty_integer)"
proof -
  have date: "munch (sx_local_datetime sp) (loc_rest loc) = None" "munch (sx_offset_datetime sp) (loc_rest loc) = None"
    using munch_number(1) [OF assms(3), of i] assms(2) by (simp_all add: sx_local_datetime_def sx_offset_datetime_def)
  have "guess_integer sp loc (advance (length (show_int i)) loc) = Some (Inr ty_integer)"
    using assms(1-3) by (cases rest) (simp_all add: guess_integer_def loc_eof_rest current_rest value_end_char Let_def)
  then show ?thesis
    using munch_number [OF assms(3)] date assms
    by (simp add: guess_number_type_def guess_scan_munch)
qed

text \<open>
  C25: a value that is the decimal text of an integer is that integer, read to its end, exactly when it has
  64 bits; any other is an error at its beginning, and no integer wraps around.
\<close>

theorem integer_roundtrip:
  assumes "loc_ok loc" "loc_rest loc = show_int i @ rest" "value_end rest" "\<not> ext_hex_float sp" "\<not> ext_num_suffix sp"
  shows "parse_value rdf sp loc errs =
    Some (if INT64_MIN \<le> i \<and> i \<le> INT64_MAX then Ret (VInteger i) (advance (length (show_int i)) loc)
          else Err ''toml::parse_dec_integer: too large integer: current max digits = 2^63'' loc, errs)"
proof -
  obtain d ds where d: "show_nat (nat \<bar>i\<bar>) = d # ds" "list_all isdigit (d # ds)" by (rule show_nat_split)
  have "\<exists>c cs. show_int i = c # cs \<and> (isdigit c \<or> c = CHR ''-'')"
    using d by (auto simp: show_int_def abs_if split: if_split_asm)
  then obtain c cs where c: "loc_rest loc = c # cs" "isdigit c \<or> c = CHR ''-''" using assms(2) by auto
  have "c \<notin> set ([DQ, SQ] @ ''[{tTfFiInN'')" using c(2) by (auto simp: isdigit_def)
  then have "guess_value_type sp loc = guess_number_type sp loc"
    using c(1) by (simp add: guess_value_type_def current_rest Let_def)
  then have "guess_value_type sp loc = Some (Inr ty_integer)" using guess_number [OF assms(1-4)] by simp
  then have "parse_value rdf sp loc errs = scalar errs (parse_integer sp loc)"
    by (simp add: parse_value_def parse_task.simps [of rdf sp Value])
  then show ?thesis using parse_integer_show [OF assms(1-3,5)] by (simp add: scalar_def in_int64_def)
qed

lemma integer_roundtrip_witness:
  "parse_value (\<lambda>_ _. None) (spec_v 1 1 0) (start_loc (show_int (-42) @ '', 1'')) [] =
     Some (Ret (VInteger (-42)) (advance (length (show_int (-42))) (start_loc (show_int (-42) @ '', 1''))), [])"
  by (subst integer_roundtrip [where i = "-42" and rest = "'', 1''"]) (simp_all add: value_end_def spec_v_def Let_def)

end
