(* ===== verification/TomlInvariant.thy ===== *)
theory TomlInvariant
  imports TomlValues
begin

text \<open>
  The invariant of the parser: every value it builds is well-formed, through arrays, inline tables,
  sections and whole documents.
\<close>

section \<open>Values\<close>

fun wf_task :: "task \<Rightarrow> bool" where
  "wf_task Value = True"
| "wf_task (Array_loop num_errors fmt val comma_found) = (wf_values val \<and> fmt \<noteq> array_of_tables)"
| "wf_task (Inline_loop num_errors fmt t still_empty comma_found) = wf_table t"

fun wf_ret :: "toml_value toml_result \<Rightarrow> bool" where
  "wf_ret (Ret v loc) = wf_value v"
| "wf_ret _ = True"

lemma scalar_task_wf:
  "scalar errs r = Some (res, errs') \<Longrightarrow> (\<And>v loc. r = Some (Ret v loc) \<Longrightarrow> wf_value v) \<Longrightarrow> wf_ret res"
  by (cases res) (auto simp: scalar_def)

lemma finish_array_wf:
  "finish_array n fmt val loc errs = Some (res, errs') \<Longrightarrow> wf_values val \<Longrightarrow> fmt \<noteq> array_of_tables \<Longrightarrow> wf_ret res"
  by (auto simp: finish_array_def Let_def split: if_splits)

lemma finish_inline_table_wf:
  "finish_inline_table n fmt t loc errs = Some (res, errs') \<Longrightarrow> wf_table t \<Longrightarrow> wf_ret res"
  by (auto simp: finish_inline_table_def Let_def split: if_splits)

lemma wf_values_snoc: "wf_values (vs @ [v]) = (wf_values vs \<and> wf_value v)"
  by (simp add: wf_values_all)

lemma with_keys_wf:
  "with_keys keys r = (Ret kv loc, errs) \<Longrightarrow> wf_ret (fst r) \<Longrightarrow> wf_value (snd kv)"
  by (cases "(keys, r)" rule: with_keys.cases) auto

lemma parse_task_wf:
  assumes "parse_task rdf sp task loc errs = Some y" "wf_task task"
  shows "wf_ret (fst y)"
proof -
  have "wf_task task \<longrightarrow> wf_ret (fst y)"
  proof (rule parse_task.raw_induct [OF _ assms(1)], goal_cases)
    case (1 f rdf sp task loc errs y)
    note IH = 1(1) [rule_format]
    obtain res errs' where y: "y = (res, errs')" by fastforce
    show ?case
    proof (cases task)
      case Value
      obtain ty where ty: "guess_value_type sp loc = Some ty" using 1(2) Value by (auto simp: bind_eq_Some_conv)
      show ?thesis
      proof (cases ty)
        case (Inr vt)
        note step = 1(2) [unfolded Value task.case ty Option.bind.bind_lunit Inr sum.case y]
        show ?thesis unfolding y using step IH
          by (cases vt) (auto simp: bind_eq_Some_conv split: if_splits
            elim!: scalar_task_wf intro: parse_integer_wf scalar_wf parse_floating_wf parse_offset_datetime_wf)
      qed (use 1(2) Value ty in auto)
    next
      case (Array_loop num_errors fmt val comma_found)
      note step = 1(2) [unfolded Array_loop task.case y]
      show ?thesis unfolding y
      proof (cases "loc_eof loc \<or> current loc = CHR '']'' \<or> \<not> comma_found")
        case False
        then obtain elem errs1 where elem: "f rdf sp Value loc errs = Some (elem, errs1)"
          using step by (auto simp: bind_eq_Some_conv split: if_splits)
        then have "wf_ret elem" using IH [of rdf sp Value loc errs "(elem, errs1)"] by simp
        with elem False step IH Array_loop show "wf_task task \<longrightarrow> wf_ret (fst (res, errs'))"
          by (cases elem) (auto simp: bind_eq_Some_conv wf_values_snoc split: if_splits intro: finish_array_wf)
      qed (use step Array_loop in \<open>auto intro: finish_array_wf split: if_splits\<close>)
    next
      case (Inline_loop num_errors fmt t still_empty comma_found)
      note step = 1(2) [unfolded Inline_loop task.case y]
      show ?thesis unfolding y
      proof (cases "loc_eof loc \<or> current loc = CHR ''}'' \<or> (\<not> comma_found \<and> \<not> still_empty)")
        case False
        then obtain key kv errs1 where
            key: "parse_key_and_sep sp loc = Some key"
          and kv: "(case key of
                 Ret keys loc \<Rightarrow> Option.bind (f rdf sp Value loc errs) (\<lambda>r. Some (with_keys keys r))
               | Err e loc \<Rightarrow> Some (Err e loc, errs)
               | Undefined \<Rightarrow> Some (Undefined, errs)) = Some (kv, errs1)"
          using step by (auto simp: bind_eq_Some_conv split: if_splits)
        have val: "wf_value (snd x)" if "kv = Ret x l" for x l
        proof (cases key)
          case (Ret keys l')
          with kv obtain r where r: "f rdf sp Value l' errs = Some r" "with_keys keys r = (kv, errs1)"
            by (auto simp: bind_eq_Some_conv)
          with IH [OF r(1)] that show ?thesis using with_keys_wf [of keys r x l errs1] by simp
        qed (use kv that in auto)
        show "wf_task task \<longrightarrow> wf_ret (fst (res, errs'))"
        proof (cases kv)
          case (Ret x l)
          obtain t' ins where ins: "insert_value dotted_keys t (fst x) (snd x) = (t', ins)" by fastforce
          have "wf_table t \<Longrightarrow> wf_table t'"
            using insert_value_wf [of t "snd x" dotted_keys "fst x"] val [OF Ret] ins by simp
          with step key kv Ret False ins IH Inline_loop show ?thesis
            by (cases ins) (auto simp: bind_eq_Some_conv split: if_splits)
        qed (use step key kv False Inline_loop in \<open>auto simp: bind_eq_Some_conv intro: finish_inline_table_wf\<close>)
      qed (use step Inline_loop in \<open>auto intro: finish_inline_table_wf split: if_splits\<close>)
    qed
  qed
  with assms show ?thesis by blast
qed

lemma result_case_Some:
  "(case r of Ret x l \<Rightarrow> f x l | Err e l \<Rightarrow> g e l | Undefined \<Rightarrow> u) = Some y \<longleftrightarrow>
   (\<exists>x l. r = Ret x l \<and> f x l = Some y) \<or> (\<exists>e l. r = Err e l \<and> g e l = Some y) \<or> (r = Undefined \<and> u = Some y)"
  by (auto split: toml_result.splits)

lemmas bind_result = bind_eq_Some_conv result_case_Some

lemma parse_key_value_pair_wf:
  "parse_key_value_pair rdf sp loc errs = Some (Ret kv loc', errs') \<Longrightarrow> wf_value (snd kv)"
  by (auto simp: parse_key_value_pair_def parse_value_def bind_result
    dest!: parse_task_wf intro: with_keys_wf)

section \<open>Documents\<close>

lemma parse_table_loop_wf:
  assumes "parse_table_loop rdf sp n t nl loc errs = Some y" "wf_table t"
  shows "wf_table (fst y)"
proof -
  have "wf_table t \<longrightarrow> wf_table (fst y)"
  proof (rule parse_table_loop.raw_induct [OF _ assms(1)], goal_cases)
    case (1 f rdf sp n t nl loc errs y)
    note IH = 1(1) [rule_format]
    have fin: "finish_table n t l es = Some y \<Longrightarrow> fst y = t" for n l es by (auto simp: finish_table_def split: if_splits)
    have ins: "parse_key_value_pair rdf sp l es = Some (Ret (ks, v) l', es') \<Longrightarrow> wf_table t \<Longrightarrow>
        wf_table (fst (insert_value dotted_keys t ks v))" for l es ks v l' es'
      using insert_value_wf [of t v dotted_keys ks] parse_key_value_pair_wf [of rdf sp l es "(ks, v)" l' es'] by simp
    show ?case using 1(2)
      by (auto simp: bind_result Let_def split_beta split: if_split_asm dest!: fin intro: IH ins)
  qed
  with assms show ?thesis by blast
qed

lemma table_or_skip_wf:
  "table_or_skip rdf sp t loc errs = Some (Some (t', r)) \<Longrightarrow> wf_table t \<Longrightarrow> wf_table t'"
  by (auto simp: table_or_skip_def parse_table_def bind_result dest!: parse_table_loop_wf)

lemma wf_array_last: "wf_value (VArray fmt vs) \<Longrightarrow> vs \<noteq> [] \<Longrightarrow> last vs = VTable tfmt sub \<Longrightarrow> wf_table sub"
proof -
  assume a: "wf_value (VArray fmt vs)" "vs \<noteq> []" "last vs = VTable tfmt sub"
  then have "wf_value (last vs)" using last_in_set [of vs] by (auto simp: wf_values_all list_all_iff)
  with a(3) show ?thesis by simp
qed

lemma table_at_wf: "wf_table t \<Longrightarrow> leads path t \<Longrightarrow> wf_table (table_at path t)"
proof (induction path t rule: leads.induct)
  case (3 key path t)
  then obtain fmt vs tfmt sub where a: "map_of t key = Some (VArray fmt vs)" "vs \<noteq> []" "last vs = VTable tfmt sub" "leads path sub"
    by (auto split: option.splits toml_value.splits)
  with 3(1) [OF a(1) refl a(3) wf_array_last [OF wf_table_value [OF 3(2) a(1)] a(2,3)] a(4)] show ?case by simp
qed (auto split: option.splits toml_value.splits dest: wf_table_value)

lemma put_table_wf: "wf_table t \<Longrightarrow> leads path t \<Longrightarrow> wf_table new \<Longrightarrow> wf_table (put_table path new t)"
proof (induction path t rule: leads.induct)
  case (3 key path t)
  then obtain fmt vs tfmt sub where a: "map_of t key = Some (VArray fmt vs)" "vs \<noteq> []" "last vs = VTable tfmt sub" "leads path sub"
    by (auto split: option.splits toml_value.splits)
  note wf = wf_table_value [OF 3(2) a(1)]
  then have "wf_table (put_table path new sub)" using 3(1) [OF a(1) refl a(3)] a wf_array_last [OF wf a(2,3)] 3(4) by simp
  moreover have "wf_values (butlast vs)" "fmt = array_of_tables \<Longrightarrow> list_all is_table (butlast vs)"
    using wf by (auto simp: wf_values_all list_all_iff dest: in_set_butlastD)
  ultimately show ?case using a 3(2) by (auto simp: wf_values_snoc intro!: wf_table_update)
qed (auto split: option.splits toml_value.splits dest: wf_table_value intro!: wf_table_update)

lemma parse_section_wf:
  assumes "parse_section rdf sp kind keys root loc errs = Some (Some (root', r))" "wf_table root" "kind \<noteq> dotted_keys"
  shows "wf_table root'"
proof -
  obtain t ins where ins: "insert_value kind root keys (VTable multiline []) = (t, ins)" by fastforce
  have t: "wf_table t" using insert_value_wf [of root "VTable multiline []" kind keys] ins assms(2) by simp
  obtain com l where com: "header_end sp loc = Some (com, l)"
    using assms(1) by (auto simp: parse_section_def bind_eq_Some_conv)
  show ?thesis
  proof (cases com)
    case (Inl e)
    with com assms show ?thesis by (auto simp: parse_section_def bind_eq_Some_conv)
  next
    case (Inr u)
    show ?thesis
    proof (cases ins)
      case (Inr path)
      have leads: "leads path t" using insert_header [of kind root keys _ t path] ins Inr assms(3) by simp
      with com \<open>com = Inr u\<close> ins Inr assms(1) table_or_skip_wf table_at_wf [OF t leads] put_table_wf [OF t leads]
      show ?thesis by (fastforce simp: parse_section_def)
    qed (use com Inr ins assms(1) t in \<open>auto simp: parse_section_def\<close>)
  qed
qed

lemma parse_sections_wf:
  assumes "parse_sections rdf sp root loc errs = Some (Some y)" "wf_table root"
  shows "wf_table (fst y)"
proof -
  have "wf_table root \<longrightarrow> (\<forall>y. Some y' = Some (Some y) \<longrightarrow> wf_table (fst y))"
    if "parse_sections rdf sp root loc errs = Some y'" for y'
  proof (rule parse_sections.raw_induct [OF _ that], goal_cases)
    case (1 f rdf sp root loc errs y')
    note IH = 1(1) [rule_format]
    have one: "wf_table root' "
      if "(case aot of
           Ret keys loc \<Rightarrow> parse_section rdf sp array_table keys root loc errs
         | Undefined \<Rightarrow> Some None
         | Err _ loc \<Rightarrow>
             Option.bind (parse_table_key sp loc) (\<lambda>std.
             case std of
               Ret keys loc \<Rightarrow> parse_section rdf sp std_table keys root loc errs
             | Undefined \<Rightarrow> Some None
             | Err _ loc \<Rightarrow>
                 Option.bind (try_scan (literal ''[['') loc) (\<lambda>(maybe_aot, _).
                 Option.bind (skip_until_next_table sp loc) (\<lambda>loc'.
                 Some (Some (root, loc', errs @
                   [if maybe_aot then ''toml::parse_file: invalid array-table key''
                    else ''toml::parse_file: invalid table key'']))))))
        = Some (Some (root', l, es))" "wf_table root" for aot root' l es
      using that by (auto simp: bind_result dest: parse_section_wf)
    show ?case
    proof (intro impI allI)
      fix y assume wf: "wf_table root" and y': "Some y' = Some (Some y)"
      then show "wf_table (fst y)" using 1(2)
        by (auto simp: bind_eq_Some_conv split: if_split_asm option.split_asm dest!: one IH)
    qed
  qed
  with assms show ?thesis by blast
qed


lemma document_wf:
  assumes "try_parse_str rdf sp content = Some (Some (Inr v))"
  shows "\<exists>t. v = VTable multiline t \<and> wf_table t"
proof -
  have "\<exists>t. v = VTable multiline t \<and> wf_table t" if "parse_file rdf sp loc = Some (Some (Inr v))" for loc
    using that
    by (auto simp: parse_file_def bind_eq_Some_conv split: if_split_asm option.split_asm
      dest!: table_or_skip_wf parse_sections_wf)
  then show ?thesis
    using assms by (auto simp: try_parse_str_def parse_impl_def Let_def split: if_splits)
qed

text \<open>
  C11: whatever a document is parsed to is well-formed: its integers have 64 bits, its dates and times
  exist, the keys of each of its tables are distinct, and each array of tables holds tables only.
\<close>

theorem parsed_document_wf:
  "try_parse_str rdf sp content = Some (Some (Inr v)) \<Longrightarrow> wf_value v"
  by (drule document_wf) auto

lemma parsed_document_wf_witness:
  "\<exists>v. try_parse_str (\<lambda>_ _. None) (spec_v 1 1 0) ''a=1'' = Some (Some (Inr v)) \<and> wf_value v"
proof -
  have "try_parse_str (\<lambda>_ _. None) (spec_v 1 1 0) ''a=1'' = Some (Some (Inr (VTable multiline [(''a'', VInteger 1)])))"
    by code_simp
  with parsed_document_wf [OF this] show ?thesis by blast
qed

end
