(* ===== verification/TomlLoad.thy ===== *)
theory TomlLoad
  imports TomlInvariant TomlRecovery Toml
begin

text \<open>
  \<open>l_parse_toml\<close> of \<open>mytoml/parse_toml.cpp\<close> on the parser of \<open>toml.hpp\<close>: from the text that a Lua
  program passes to the Lua value it gets.

  A table of the parser is a hash map, and the order in which \<open>push_toml\<close> goes through it is up to the
  standard library, the parameter \<open>ord\<close>.  The text of a \<open>toml::syntax_error\<close>, made of the errors with the
  lines they are in, is the parameter \<open>fmt\<close>.
\<close>

text \<open>The value as \<open>push_toml\<close> sees it.\<close>

fun toml_of :: "((string \<times> toml) list \<Rightarrow> (string \<times> toml) list) \<Rightarrow> toml_value \<Rightarrow> toml"
  and toml_of_values :: "((string \<times> toml) list \<Rightarrow> (string \<times> toml) list) \<Rightarrow> toml_value list \<Rightarrow> toml list"
  and toml_of_entries :: "((string \<times> toml) list \<Rightarrow> (string \<times> toml) list) \<Rightarrow> table \<Rightarrow> (string \<times> toml) list" where
  "toml_of ord (VArray fmt vs) = TArray (toml_of_values ord vs)"
| "toml_of ord (VTable fmt t) = TTable (ord (toml_of_entries ord t))"
| "toml_of ord (VBoolean b) = TBoolean b"
| "toml_of ord (VFloating d) = TFloating d"
| "toml_of ord (VInteger i) = TInteger i"
| "toml_of ord (VString s) = TString s"
| "toml_of ord v = TOther"
| "toml_of_values ord [] = []"
| "toml_of_values ord (v # vs) = toml_of ord v # toml_of_values ord vs"
| "toml_of_entries ord [] = []"
| "toml_of_entries ord ((k, v) # t) = (k, toml_of ord v) # toml_of_entries ord t"

definition parse_str ::
  "read_double \<Rightarrow> (toml_error list \<Rightarrow> string) \<Rightarrow> spec \<Rightarrow> string \<Rightarrow> (cpp_exception + toml_value) option option" where
  "parse_str rdf fmt sp content =
     map_option (map_option (map_sum (\<lambda>errs. TomlException (fmt errs)) id)) (try_parse_str rdf sp content)"

text \<open>
  The whole function with \<open>room\<close> slots on the Lua stack; \<open>None\<close> when it does not return, \<open>None\<close> inside for
  undefined behaviour, of the parser or of a stack overrun.
\<close>

definition parse_toml_lua ::
  "nat \<Rightarrow> read_double \<Rightarrow> (toml_error list \<Rightarrow> string) \<Rightarrow> ((string \<times> toml) list \<Rightarrow> (string \<times> toml) list) \<Rightarrow>
   lua_conv \<Rightarrow> lua_value list \<Rightarrow> lua_outcome option option" where
  "parse_toml_lua room rdf fmt ord conv args =
     (case check_string_view conv args 1 of
        Inl e \<Rightarrow> Some (Some (Raised e))
      | Inr src \<Rightarrow>
          (case parse_str rdf fmt (spec_v 1 1 0) src of
             None \<Rightarrow> None
           | Some None \<Rightarrow> Some None
           | Some (Some r) \<Rightarrow> Some (l_parse_toml room (\<lambda>_. map_sum id (toml_of ord) r) conv args)))"

text \<open>No dates and times, which have no Lua value.\<close>

fun lua_value_exists :: "toml \<Rightarrow> bool"
  and lua_values_exist :: "toml list \<Rightarrow> bool"
  and lua_entries_exist :: "(string \<times> toml) list \<Rightarrow> bool" where
  "lua_value_exists (TArray xs) = lua_values_exist xs"
| "lua_value_exists (TTable ts) = lua_entries_exist ts"
| "lua_value_exists TOther = False"
| "lua_value_exists _ = True"
| "lua_values_exist [] = True"
| "lua_values_exist (x # xs) = (lua_value_exists x \<and> lua_values_exist xs)"
| "lua_entries_exist [] = True"
| "lua_entries_exist ((k, x) # ts) = (lua_value_exists x \<and> lua_entries_exist ts)"

lemma sbind_fails: "sbind r f = Inl e \<longleftrightarrow> r = Inl e \<or> (\<exists>x. r = Inr x \<and> f x = Inl e)"
  by (cases r) auto

lemma sbind_returns: "sbind r f = Inr y \<longleftrightarrow> (\<exists>x. r = Inr x \<and> f x = Inr y)"
  by (cases r) auto

text \<open>What is thrown, and how far the stack is filled then, the limit being kept.\<close>

definition thrown :: "lua_stack \<Rightarrow> nat \<Rightarrow> push_failure \<Rightarrow> bool" where
  "thrown L n e \<longleftrightarrow>
     (case e of
        Overrun \<Rightarrow> ls_limit L < length (ls_slots L) + n
      | Throws what L' \<Rightarrow> what = ''toml value not supported'' \<and> ls_limit L' = ls_limit L \<and>
          length (ls_slots L') < length (ls_slots L) + n)"

lemma thrown_mono:
  "thrown L n e \<Longrightarrow> length (ls_slots L) + n \<le> length (ls_slots M) + m \<Longrightarrow> ls_limit L = ls_limit M \<Longrightarrow> thrown M m e"
  by (auto simp: thrown_def split: push_failure.splits)

lemma slots_pos: "0 < slots_of x"
  by (cases x) simp_all

lemma push_Inl: "lua_push v L = Inl e \<longleftrightarrow> e = Overrun \<and> ls_limit L \<le> length (ls_slots L)"
  by (auto simp: lua_push_def)

lemma push_Inr: "lua_push v L = Inr L' \<longleftrightarrow> length (ls_slots L) < ls_limit L \<and> L' = L\<lparr>ls_slots := v # ls_slots L\<rparr>"
  by (auto simp: lua_push_def)

lemma rawseti_frame:
  "ls_limit (lua_rawseti i L) = ls_limit L" "length (ls_slots (lua_rawseti i L)) \<le> length (ls_slots L)"
  "length (ls_slots L) \<ge> 2 \<Longrightarrow> length (ls_slots (lua_rawseti i L)) = length (ls_slots L) - 1"
  by (auto simp: lua_rawseti_def split: list.split)

lemma settable_frame:
  "ls_limit (lua_settable L) = ls_limit L"
  "length (ls_slots L) \<ge> 3 \<Longrightarrow> length (ls_slots (lua_settable L)) = length (ls_slots L) - 2"
  by (auto simp: lua_settable_def split: list.split)

lemma push_frame:
  "push_toml x L = Inr L' \<Longrightarrow> ls_limit L' = ls_limit L \<and> length (ls_slots L') = Suc (length (ls_slots L))"
  "push_array xs i L = Inr L' \<Longrightarrow> ls_slots L \<noteq> [] \<Longrightarrow>
     ls_limit L' = ls_limit L \<and> length (ls_slots L') = length (ls_slots L)"
  "push_table ts L = Inr L' \<Longrightarrow> ls_slots L \<noteq> [] \<Longrightarrow>
     ls_limit L' = ls_limit L \<and> length (ls_slots L') = length (ls_slots L)"
proof (induction x L and xs i L and ts L arbitrary: L' and L' and L' rule: push_toml_push_array_push_table.induct)
  case (9 x xs i L)
  then obtain M where m: "push_toml x L = Inr M" "push_array xs (i + 1) (lua_rawseti i M) = Inr L'"
    by (auto simp: sbind_returns)
  from "9.IH"(1) [OF m(1)] "9.prems"(2) have l: "ls_limit M = ls_limit L" "length (ls_slots (lua_rawseti i M)) = length (ls_slots L)"
    by (auto simp: rawseti_frame(3) Suc_le_eq)
  then have "ls_slots (lua_rawseti i M) \<noteq> []" using "9.prems"(2) by auto
  from "9.IH"(2) [OF m(2) this] l show ?case by (simp add: rawseti_frame(1))
next
  case (11 k v es L)
  then obtain K M where m: "lua_push (LStr k) L = Inr K" "push_toml v K = Inr M" "push_table es (lua_settable M) = Inr L'"
    by (auto simp: sbind_returns)
  from "11.IH"(1) [OF m(2)] m(1) "11.prems"(2)
  have l: "ls_limit M = ls_limit L" "length (ls_slots (lua_settable M)) = length (ls_slots L)"
    by (auto simp: settable_frame(2) push_Inr Suc_le_eq)
  then have "ls_slots (lua_settable M) \<noteq> []" using "11.prems"(2) by auto
  from "11.IH"(2) [OF m(3) this] l show ?case by (simp add: settable_frame(1))
qed (auto simp: sbind_returns push_Inr)

lemma push_fails:
  "push_toml x L = Inl e \<Longrightarrow> thrown L (slots_of x) e"
  "push_array xs i L = Inl e \<Longrightarrow> ls_slots L \<noteq> [] \<Longrightarrow> thrown L (slots_of_array xs) e"
  "push_table ts L = Inl e \<Longrightarrow> ls_slots L \<noteq> [] \<Longrightarrow> thrown L (slots_of_table ts) e"
proof (induction x L and xs i L and ts L rule: push_toml_push_array_push_table.induct)
  case (1 xs L)
  then consider "lua_push (LTable []) L = Inl e" | M where "lua_push (LTable []) L = Inr M" "push_array xs 1 M = Inl e"
    by (auto simp: sbind_fails)
  then show ?case
  proof cases
    case 1
    then show ?thesis by (simp add: push_Inl thrown_def)
  next
    case (2 M)
    have "ls_slots M \<noteq> []" using 2(1) by (simp add: push_Inr)
    from "1.IH" [OF 2(2) this] show ?thesis by (rule thrown_mono) (use 2(1) in \<open>simp_all add: push_Inr\<close>)
  qed
next
  case (2 es L)
  then consider "lua_push (LTable []) L = Inl e" | M where "lua_push (LTable []) L = Inr M" "push_table es M = Inl e"
    by (auto simp: sbind_fails)
  then show ?case
  proof cases
    case 1
    then show ?thesis by (simp add: push_Inl thrown_def)
  next
    case (2 M)
    have "ls_slots M \<noteq> []" using 2(1) by (simp add: push_Inr)
    from "2.IH" [OF 2(2) this] show ?thesis by (rule thrown_mono) (use 2(1) in \<open>simp_all add: push_Inr\<close>)
  qed
next
  case (9 x xs i L)
  then consider "push_toml x L = Inl e" | M where "push_toml x L = Inr M" "push_array xs (i + 1) (lua_rawseti i M) = Inl e"
    by (auto simp: sbind_fails)
  then show ?case
  proof cases
    case 1
    from "9.IH"(1) [OF this] show ?thesis by (rule thrown_mono) simp_all
  next
    case (2 M)
    from push_frame(1) [OF 2(1)] "9.prems"(2)
    have l: "ls_limit (lua_rawseti i M) = ls_limit L" "length (ls_slots (lua_rawseti i M)) = length (ls_slots L)"
      by (auto simp: rawseti_frame Suc_le_eq)
    then have "ls_slots (lua_rawseti i M) \<noteq> []" using "9.prems"(2) by auto
    from "9.IH"(2) [OF 2(2) this] show ?thesis by (rule thrown_mono) (simp_all add: l)
  qed
next
  case (11 k v es L)
  then consider "lua_push (LStr k) L = Inl e" | K where "lua_push (LStr k) L = Inr K" "push_toml v K = Inl e"
    | K M where "lua_push (LStr k) L = Inr K" "push_toml v K = Inr M" "push_table es (lua_settable M) = Inl e"
    by (auto simp: sbind_fails)
  then show ?case
  proof cases
    case 1
    then have "thrown L 1 e" by (simp add: push_Inl thrown_def)
    then show ?thesis by (rule thrown_mono) (simp_all add: le_max_iff_disj)
  next
    case (2 K)
    from "11.IH"(1) [OF 2(2)] show ?thesis by (rule thrown_mono) (use 2(1) in \<open>auto simp: push_Inr\<close>)
  next
    case (3 K M)
    from push_frame(1) [OF 3(2)] 3(1) "11.prems"(2)
    have l: "ls_limit (lua_settable M) = ls_limit L" "length (ls_slots (lua_settable M)) = length (ls_slots L)"
      by (auto simp: settable_frame push_Inr Suc_le_eq)
    then have "ls_slots (lua_settable M) \<noteq> []" using "11.prems"(2) by auto
    from "11.IH"(2) [OF 3(3) this] show ?thesis by (rule thrown_mono) (simp_all add: l)
  qed
qed (auto simp: push_Inl thrown_def)

lemma push_supported:
  "push_toml x L = Inr L' \<Longrightarrow> lua_value_exists x"
  "push_array xs i L = Inr L' \<Longrightarrow> lua_values_exist xs"
  "push_table ts L = Inr L' \<Longrightarrow> lua_entries_exist ts"
  by (induction x L and xs i L and ts L arbitrary: L' and L' and L' rule: push_toml_push_array_push_table.induct)
    (auto simp: sbind_returns)

lemma lua_entries_exist_all: "lua_entries_exist ts \<longleftrightarrow> (\<forall>p \<in> set ts. lua_value_exists (snd p))"
  by (induction ts) auto

lemma toml_of_entries_keys: "List.map fst (toml_of_entries ord t) = List.map fst t"
  by (induction t) auto

text \<open>The keys of a well-formed value stay distinct, so what Lua can hold is pushed as it is.\<close>

lemma toml_of_clean:
  assumes "\<And>ts. mset (ord ts) = mset ts"
  shows "wf_value v \<Longrightarrow> lua_value_exists (toml_of ord v) \<Longrightarrow> clean (toml_of ord v)"
    "wf_values vs \<Longrightarrow> lua_values_exist (toml_of_values ord vs) \<Longrightarrow> clean_array (toml_of_values ord vs)"
    "wf_entries t \<Longrightarrow> lua_entries_exist (toml_of_entries ord t) \<Longrightarrow> clean_table (toml_of_entries ord t)"
proof (induction v and vs and t rule: wf_value_wf_values_wf_entries.induct)
  case (7 fmt t)
  have set: "set (ord ts) = set ts" for ts using assms [of ts] by (metis set_mset_mset)
  have "mset (List.map fst (ord (toml_of_entries ord t))) = mset (List.map fst t)"
    using assms by (simp add: toml_of_entries_keys [of ord, symmetric])
  then have "distinct (List.map fst (ord (toml_of_entries ord t)))"
    using 7(2) by (metis mset_eq_imp_distinct_iff wf_table_simps(2) wf_table_def)
  then show ?case using 7 by (auto simp: lua_entries_exist_all clean_all(2) list_all_iff set wf_table_def)
qed auto

text \<open>
  C12: calling \<open>parse_toml\<close> from Lua on a text.  It returns just when the parser does, which on a text with
  errors need not be the case, and where the parser's behaviour is undefined so is the call's.  Otherwise
  a text with errors raises a C++ exception through Lua.  A document without dates and times gives its
  Lua value if there are as many free slots on the Lua stack as building it takes, one per array and two
  per table it is nested in, and runs over the stack if there are fewer, since more are never asked for.
  With a date or time in it the result is \<open>nil\<close> and a message, unless the stack has been overrun, which
  it cannot be with one slot more than the document takes.
\<close>

theorem parse_toml_of_text:
  assumes "check_string_view conv args 1 = Inr src" "\<And>ts. mset (ord ts) = mset ts"
  shows "case try_parse_str rdf (spec_v 1 1 0) src of
      None \<Rightarrow> parse_toml_lua room rdf fmt ord conv args = None
    | Some None \<Rightarrow> parse_toml_lua room rdf fmt ord conv args = Some None
    | Some (Some (Inl errs)) \<Rightarrow>
        parse_toml_lua room rdf fmt ord conv args = Some (Some (Uncaught (TomlException (fmt errs))))
    | Some (Some (Inr v)) \<Rightarrow>
        (let x = toml_of ord v; message = Some (Some (Results [LNil, LStr ''toml value not supported'']))
         in if lua_value_exists x
            then parse_toml_lua room rdf fmt ord conv args =
                   Some (if slots_of x \<le> room then Some (Results [lua_of x]) else None)
            else parse_toml_lua room rdf fmt ord conv args \<in> {message, Some None} \<and>
                 (slots_of x < room \<longrightarrow> parse_toml_lua room rdf fmt ord conv args = message))"
proof -
  let ?r = "try_parse_str rdf (spec_v 1 1 0) src"
  note call = parse_toml_lua_def [of room rdf fmt ord conv args, unfolded parse_str_def assms(1) sum.case]
  consider "?r = None" | "?r = Some None" | errs where "?r = Some (Some (Inl errs))" | v where "?r = Some (Some (Inr v))"
    by (metis option.exhaust sum.exhaust)
  then show ?thesis
  proof cases
    case (4 v)
    let ?x = "toml_of ord v" and ?L = "\<lparr>ls_slots = rev args, ls_limit = length args + room\<rparr>"
    have "wf_value v" using document_wf [OF 4] by auto
    then have clean: "clean ?x" if "lua_value_exists ?x" using toml_of_clean(1) [OF assms(2)] that by blast
    have p: "parse_toml_lua room rdf fmt ord conv args = Some (l_parse_toml room (\<lambda>_. Inr ?x) conv args)"
      unfolding call 4 by simp
    show ?thesis
    proof (cases "lua_value_exists ?x")
      case True
      from parse_toml_outcome [OF assms(1), of "\<lambda>_. Inr ?x" room] clean [OF True] True show ?thesis
        unfolding p 4 by (simp add: Let_def)
    next
      case False
      then obtain e where e: "push_toml ?x ?L = Inl e" using push_supported(1) by (metis sum.exhaust)
      have "l_parse_toml room (\<lambda>_. Inr ?x) conv args =
          (case e of Throws what L \<Rightarrow> push_message what L | Overrun \<Rightarrow> None)"
        by (simp only: l_parse_toml_def assms(1) e Let_def sum.case)
      with push_fails(1) [OF e] False show ?thesis
        unfolding p 4
        by (cases e) (auto simp: thrown_def push_message_def lua_push_def)
    qed
  next
    case (3 errs)
    have "l_parse_toml room (\<lambda>_. Inl (TomlException (fmt errs))) conv args = Some (Uncaught (TomlException (fmt errs)))"
      by (simp only: l_parse_toml_def assms(1) Let_def sum.case cpp_exception.case)
    then show ?thesis unfolding call 3 by simp
  qed (simp_all add: call)
qed

lemma parse_toml_of_text_witness:
  "parse_toml_lua 20 (\<lambda>_ _. None) concat rev plain_conv [LStr ''a=1''] = Some (Some (Results [LTable [(LStr ''a'', LInt 1)]])) \<and>
   parse_toml_lua 2 (\<lambda>_ _. None) concat rev plain_conv [LStr ''a=1''] = Some None"
proof -
  have arg: "check_string_view plain_conv [LStr ''a=1''] 1 = Inr ''a=1''"
    by (simp add: check_string_view_def lua_arg_def plain_conv_def)
  have doc: "try_parse_str (\<lambda>_ _. None) (spec_v 1 1 0) ''a=1'' = Some (Some (Inr (VTable multiline [(''a'', VInteger 1)])))"
    by code_simp
  note run = parse_toml_of_text [OF arg, where ord = rev and rdf = "\<lambda>_ _. None" and fmt = concat]
  show ?thesis
    using run [where room = 20] run [where room = 2] unfolding doc by (simp add: Let_def)
qed

end
