(* ===== verification/NativeObjects.thy ===== *)
theory NativeObjects
  imports LuaApi "HOL-Library.Multiset"
begin

text \<open>
  The objects of the C libraries behind the Lua bindings (OpenSSL, libarchive, Hyperscan, GeoIP,
  libidn, ncurses), and the metatable idiom of \<open>client/userdata.hpp\<close>.

  The libraries are not part of the sources: a call is its name, the values and the objects it is
  given, and its outcome (return value, length, bytes, strings) is whatever \<open>os_oracle\<close> says for the
  call, a different answer each time.  What is modelled is who owns which object: a heap of live
  objects with their kind, the Lua userdata (boxes) that hold one, and a flag for what must not
  happen: using an object that is not live or was made by another constructor, or freeing one twice.

  A binding is a state transformer that returns a value or raises a Lua error, which leaves the C
  function at once, without destructors.  Lua's own small allocations are taken to succeed, and a
  \<open>__tostring\<close> metamethod does nothing but give a string or raise an error.
\<close>

datatype okind =
    PkeyObj | PkeyCtx | BioObj | CertObj | AsnTime | AsnInteger | NameObj | BitString | ExtKeyUsage
  | OctetString | BignumObj | StoreObj | StoreInfo | UiMethod | Utf8Str | DigestObj
  | ArchiveObj | ArchiveEntry | FileDescr | HsDatabase | HsError | HsBytes | MallocStr | GeoIpDb | WindowObj

type_synonym object = "nat \<times> okind"

record outcome =
  oc_rc :: int
  oc_len :: int
  oc_out :: string
  oc_junk :: "nat \<Rightarrow> char"
  oc_strs :: "string list"
  oc_items :: "(string \<times> int \<times> string) list"

text \<open>\<open>os_tolstr\<close> is what \<open>luaL_tolstring\<close> does with a value: a string, or the error of a metamethod.\<close>

record native =
  os_oracle :: "nat \<Rightarrow> outcome"
  os_tolstr :: "lua_value \<Rightarrow> lua_error + string"
  os_memory :: int
  os_log :: "(string \<times> lua_value list \<times> object list) list"
  os_next :: nat
  os_live :: "object list"
  os_boxes :: "(okind \<times> nat option) list"
  os_fault :: bool

type_synonym 'a binding = "native \<Rightarrow> (lua_error + 'a) \<times> native"

definition ret :: "'a \<Rightarrow> 'a binding" where
  "ret x s = (Inr x, s)"

definition throw :: "lua_error \<Rightarrow> 'a binding" where
  "throw e s = (Inl e, s)"

definition obind :: "'a binding \<Rightarrow> ('a \<Rightarrow> 'b binding) \<Rightarrow> 'b binding" where
  "obind m f s = (case m s of (Inl e, s) \<Rightarrow> (Inl e, s) | (Inr x, s) \<Rightarrow> f x s)"

definition lift :: "lua_error + 'a \<Rightarrow> 'a binding" where
  "lift r = (case r of Inl e \<Rightarrow> throw e | Inr x \<Rightarrow> ret x)"

section \<open>Library calls and objects\<close>

definition call :: "string \<Rightarrow> lua_value list \<Rightarrow> object list \<Rightarrow> outcome binding" where
  "call f vals objs s =
     (Inr (os_oracle s (length (os_log s))),
      s\<lparr>os_log := os_log s @ [(f, vals, objs)], os_fault := (os_fault s \<or> \<not> set objs \<subseteq> set (os_live s))\<rparr>)"

text \<open>A number the library returns through a pointer.\<close>

definition out_number :: "outcome \<Rightarrow> nat \<Rightarrow> int" where
  "out_number r k = (if k < length (oc_items r) then fst (snd (oc_items r ! k)) else 0)"

text \<open>A constructor: null, or a new object.\<close>

definition create :: "okind \<Rightarrow> string \<Rightarrow> lua_value list \<Rightarrow> object list \<Rightarrow> object option binding" where
  "create kind f vals objs =
     obind (call f vals objs) (\<lambda>r s.
       if oc_rc r = 0 then (Inr None, s)
       else (Inr (Some (os_next s, kind)),
             s\<lparr>os_next := Suc (os_next s), os_live := (os_next s, kind) # os_live s\<rparr>))"

text \<open>An object that comes with the success of a call, and so is never null.\<close>

definition receive :: "okind \<Rightarrow> string \<Rightarrow> object binding" where
  "receive kind f =
     obind (call f [] []) (\<lambda>_ s.
       (Inr (os_next s, kind), s\<lparr>os_next := Suc (os_next s), os_live := (os_next s, kind) # os_live s\<rparr>))"

text \<open>
  A constructor whose result the sources do not check, \<open>ok\<close> telling success.  The pointer a failure leaves,
  null or not even written, is an object that is not live and never will be.
\<close>

definition create_unchecked ::
  "okind \<Rightarrow> string \<Rightarrow> (outcome \<Rightarrow> bool) \<Rightarrow> object list \<Rightarrow> (outcome \<times> object) binding" where
  "create_unchecked kind f ok objs =
     obind (call f [] objs) (\<lambda>r s.
       (Inr (r, (os_next s, kind)),
        s\<lparr>os_next := Suc (os_next s),
          os_live := (if ok r then (os_next s, kind) # os_live s else os_live s)\<rparr>))"

definition not_null :: "outcome \<Rightarrow> bool" where
  "not_null r \<longleftrightarrow> oc_rc r \<noteq> 0"

text \<open>
  What is undefined, as following a null pointer and writing behind an array are: anything may happen, and
  the log says why.
\<close>

definition undefined_behaviour :: "string \<Rightarrow> 'a binding" where
  "undefined_behaviour w s =
     (Inl (Terminates w), s\<lparr>os_log := os_log s @ [(w, [], [])], os_fault := True\<rparr>)"

definition luaL_tolstring :: "lua_value \<Rightarrow> string binding" where
  "luaL_tolstring v s = (os_tolstr s v, s)"

definition release :: "string \<Rightarrow> object \<Rightarrow> unit binding" where
  "release f obj =
     obind (call f [] [obj]) (\<lambda>_ s. (Inr (), s\<lparr>os_live := remove1 obj (os_live s)\<rparr>))"

text \<open>A destructor given a pointer that may be null, for which it does nothing.\<close>

definition release_opt :: "string \<Rightarrow> object option \<Rightarrow> unit binding" where
  "release_opt f p = (case p of None \<Rightarrow> obind (call f [] []) (\<lambda>_. ret ()) | Some obj \<Rightarrow> release f obj)"

text \<open>A Lua buffer of the size requested, read as a \<open>size_t\<close>.\<close>

definition luaL_buffinitsize :: "int \<Rightarrow> unit binding" where
  "luaL_buffinitsize n s =
     (if n mod 2 ^ 64 \<le> os_memory s then (Inr (), s) else (Inl (LuaErr (LStr ''not enough memory'')), s))"

text \<open>
  What a buffer of \<open>n\<close> bytes holds after the library has written its output at the start of it: behind
  the output is what was there before.
\<close>

definition buffer_bytes :: "int \<Rightarrow> outcome \<Rightarrow> lua_value" where
  "buffer_bytes n r =
     LStr (List.map (\<lambda>i. if i < length (oc_out r) then oc_out r ! i else oc_junk r i) [0..<nat n])"

text \<open>A destructor that says whether it worked; if it did not, the object is still there.\<close>

definition release_checked :: "string \<Rightarrow> object \<Rightarrow> bool binding" where
  "release_checked f obj =
     obind (call f [] [obj]) (\<lambda>r s.
       if oc_rc r = 0 then (Inr True, s\<lparr>os_live := remove1 obj (os_live s)\<rparr>) else (Inr False, s))"

text \<open>The end of the program, and of all its objects with it.\<close>

definition terminate :: "string \<Rightarrow> 'a binding" where
  "terminate w s = (Inl (Terminates w), s\<lparr>os_live := [], os_boxes := []\<rparr>)"

section \<open>Arguments\<close>

definition check_str :: "lua_conv \<Rightarrow> lua_value list \<Rightarrow> nat \<Rightarrow> string binding" where
  "check_str conv args n = lift (check_string_view conv args n)"

definition check_cstr :: "lua_conv \<Rightarrow> lua_value list \<Rightarrow> nat \<Rightarrow> string binding" where
  "check_cstr conv args n = obind (check_str conv args n) (\<lambda>s. ret (c_str s))"

definition check_int :: "lua_conv \<Rightarrow> lua_value list \<Rightarrow> nat \<Rightarrow> int binding" where
  "check_int conv args n = lift (checkinteger conv args n)"

definition opt_str :: "lua_conv \<Rightarrow> lua_value list \<Rightarrow> nat \<Rightarrow> string option binding" where
  "opt_str conv args n =
     lift (luaL_opt (\<lambda>args n. sbind (check_string_view conv args n) (\<lambda>s. Inr (Some s))) args n None)"

lemmas argument_defs = check_str_def check_cstr_def check_int_def opt_str_def

section \<open>Userdata\<close>

text \<open>\<open>push_evp_pkey\<close>, \<open>push_x509\<close> and \<open>push_digest\<close>: a new userdata with the pointer in it.\<close>

definition push_box :: "okind \<Rightarrow> object \<Rightarrow> lua_value binding" where
  "push_box kind obj s =
     (Inr (LRef (length (os_boxes s))), s\<lparr>os_boxes := os_boxes s @ [(kind, Some (fst obj))]\<rparr>)"

text \<open>\<open>luaL_checkudata\<close> for the metatable of the kind: the index of the box.\<close>

definition check_box :: "okind \<Rightarrow> lua_value list \<Rightarrow> nat \<Rightarrow> nat binding" where
  "check_box kind args n s =
     (case lua_arg args n of
        Some (LRef i) \<Rightarrow>
          if i < length (os_boxes s) \<and> fst (os_boxes s ! i) = kind then (Inr i, s)
          else (Inl (BadArg n ''wrong userdata''), s)
      | _ \<Rightarrow> (Inl (BadArg n ''userdata expected''), s))"

text \<open>\<open>check_pkey\<close> and \<open>check_x509\<close>: the object of a box that has not been closed.\<close>

definition check_object :: "okind \<Rightarrow> string \<Rightarrow> lua_value list \<Rightarrow> nat \<Rightarrow> object binding" where
  "check_object kind msg args n =
     obind (check_box kind args n) (\<lambda>i s.
       case snd (os_boxes s ! i) of
         None \<Rightarrow> (Inl (BadArg n msg), s)
       | Some h \<Rightarrow> (Inr (h, kind), s))"

text \<open>The pointer in a userdata, which may be null.\<close>

definition check_pointer :: "okind \<Rightarrow> lua_value list \<Rightarrow> nat \<Rightarrow> object option binding" where
  "check_pointer kind args n =
     obind (check_box kind args n) (\<lambda>i s. (Inr (map_option (\<lambda>h. (h, kind)) (snd (os_boxes s ! i))), s))"

text \<open>The \<open>__gc\<close> and \<open>__close\<close> metamethods: free what is there (a null pointer is fine) and forget it.\<close>

definition gc_box :: "okind \<Rightarrow> string \<Rightarrow> lua_value list \<Rightarrow> lua_value list binding" where
  "gc_box kind f args =
     obind (check_box kind args 1) (\<lambda>i s.
       (case snd (os_boxes s ! i) of
          None \<Rightarrow> ret [] s
        | Some h \<Rightarrow>
            obind (release f (h, kind)) (\<lambda>_ s. (Inr [], s\<lparr>os_boxes := (os_boxes s)[i := (kind, None)]\<rparr>)) s))"

section \<open>Ownership\<close>

text \<open>The objects owned by boxes; message digests are static and owned by nobody.\<close>

definition box_objects :: "okind \<times> nat option \<Rightarrow> object list" where
  "box_objects b = (case b of (k, Some h) \<Rightarrow> if k = DigestObj then [] else [(h, k)] | (k, None) \<Rightarrow> [])"

definition boxed :: "native \<Rightarrow> object list" where
  "boxed s = concat (List.map box_objects (os_boxes s))"

text \<open>
  The failures the bindings do not look at, by the call in the log and its outcome: allocations that give
  null, a text that cannot be converted to UTF-8, the use of a closed database, and an array too small
  for what Lua says is the length of a table.
\<close>

definition unchecked_failure :: "string \<times> lua_value list \<times> object list \<Rightarrow> outcome \<Rightarrow> bool" where
  "unchecked_failure c r \<longleftrightarrow>
     fst c \<in> {''X509_NAME_new'', ''ASN1_TIME_new'', ''ASN1_INTEGER_new'', ''BN_new''} \<and> oc_rc r = 0 \<or>
     fst c = ''ASN1_STRING_to_UTF8'' \<and> oc_rc r < 0 \<or>
     fst c \<in> {''null database'', ''write behind the array''}"

definition failed_unchecked :: "native \<Rightarrow> bool" where
  "failed_unchecked s \<longleftrightarrow> (\<exists>n < length (os_log s). unchecked_failure (os_log s ! n) (os_oracle s n))"

lemma unchecked_failures [simp]:
  "\<not> not_null r \<Longrightarrow> unchecked_failure (''X509_NAME_new'', [], objs) r"
  "\<not> not_null r \<Longrightarrow> unchecked_failure (''ASN1_TIME_new'', [], objs) r"
  "\<not> not_null r \<Longrightarrow> unchecked_failure (''ASN1_INTEGER_new'', [], objs) r"
  "\<not> not_null r \<Longrightarrow> unchecked_failure (''BN_new'', [], objs) r"
  "oc_rc r < 0 \<Longrightarrow> unchecked_failure (''ASN1_STRING_to_UTF8'', [], objs) r"
  "unchecked_failure (''null database'', [], []) r" "unchecked_failure (''write behind the array'', [], []) r"
  by (simp_all add: unchecked_failure_def not_null_def)

text \<open>
  Each live object belongs to exactly one box or to the running binding (\<open>tmp\<close>), and nothing bad has
  happened; \<open>known\<close> are boxed objects the binding has looked up.  Names may have been lost, if there are
  values that cannot be made strings.
\<close>

definition lost_names :: "native \<Rightarrow> object list \<Rightarrow> bool" where
  "lost_names s lost \<longleftrightarrow> (\<forall>obj \<in> set lost. snd obj = NameObj \<and> (\<exists>v e. os_tolstr s v = Inl e))"

definition intact :: "object set \<Rightarrow> object list \<Rightarrow> native \<Rightarrow> bool" where
  "intact known tmp s \<longleftrightarrow>
     \<not> os_fault s \<and>
     (\<exists>lost. mset (os_live s) = mset (boxed s) + mset tmp + mset lost \<and> lost_names s lost) \<and>
     distinct (List.map fst (os_live s)) \<and> (\<forall>h \<in> fst ` set (os_live s). h < os_next s) \<and>
     known \<subseteq> set (boxed s)"

text \<open>
  What does not change in a run: the libraries, the metamethods and the memory that Lua can give, into
  which the sizes that the libraries ask for fit.
\<close>

record world =
  w_oracle :: "nat \<Rightarrow> outcome"
  w_tolstr :: "lua_value \<Rightarrow> lua_error + string"
  w_memory :: int

definition roomy :: "world \<Rightarrow> native \<Rightarrow> bool" where
  "roomy env s \<longleftrightarrow>
     os_oracle s = w_oracle env \<and> os_tolstr s = w_tolstr env \<and> os_memory s = w_memory env \<and>
     (\<forall>n. 0 \<le> oc_len (w_oracle env n) \<and> oc_len (w_oracle env n) \<le> w_memory env) \<and> w_memory env < 2 ^ 64"

definition owned :: "world \<Rightarrow> object set \<Rightarrow> object list \<Rightarrow> native \<Rightarrow> bool" where
  "owned env known tmp s \<longleftrightarrow> roomy env s \<and> (failed_unchecked s \<or> intact known tmp s)"

lemma unchecked_update [simp]:
  "failed_unchecked (s\<lparr>os_next := n\<rparr>) = failed_unchecked s" "failed_unchecked (s\<lparr>os_live := l\<rparr>) = failed_unchecked s"
  "failed_unchecked (s\<lparr>os_boxes := b\<rparr>) = failed_unchecked s" "failed_unchecked (s\<lparr>os_fault := b'\<rparr>) = failed_unchecked s"
  by (simp_all add: failed_unchecked_def)

lemma unchecked_log:
  "failed_unchecked (s\<lparr>os_log := os_log s @ [c]\<rparr>) \<longleftrightarrow>
   failed_unchecked s \<or> unchecked_failure c (os_oracle s (length (os_log s)))"
  by (simp add: failed_unchecked_def less_Suc_eq nth_append conj_disj_distribR ex_disj_distrib cong: conj_cong)

lemma roomy_update [simp]:
  "roomy env (s\<lparr>os_next := n\<rparr>) = roomy env s" "roomy env (s\<lparr>os_live := l\<rparr>) = roomy env s"
  "roomy env (s\<lparr>os_boxes := b\<rparr>) = roomy env s" "roomy env (s\<lparr>os_fault := b'\<rparr>) = roomy env s"
  "roomy env (s\<lparr>os_log := lg\<rparr>) = roomy env s"
  by (simp_all add: roomy_def)

lemma lost_update [simp]:
  "lost_names (s\<lparr>os_next := n\<rparr>) lost = lost_names s lost" "lost_names (s\<lparr>os_live := l\<rparr>) lost = lost_names s lost"
  "lost_names (s\<lparr>os_boxes := b\<rparr>) lost = lost_names s lost" "lost_names (s\<lparr>os_fault := b'\<rparr>) lost = lost_names s lost"
  "lost_names (s\<lparr>os_log := lg\<rparr>) lost = lost_names s lost" "lost_names s []"
  by (simp_all add: lost_names_def)

lemma boxed_update [simp]:
  "boxed (s\<lparr>os_next := n\<rparr>) = boxed s" "boxed (s\<lparr>os_live := l\<rparr>) = boxed s"
  "boxed (s\<lparr>os_fault := b'\<rparr>) = boxed s" "boxed (s\<lparr>os_log := lg\<rparr>) = boxed s"
  by (simp_all add: boxed_def)

text \<open>
  A binding that starts in an owned state ends, with a result or a Lua error, in an owned state; \<open>Q\<close>
  says what it still holds, depending on the result.  It is safe when it holds nothing any more.
\<close>

definition leaves ::
  "(lua_error + 'a \<Rightarrow> object list \<Rightarrow> bool) \<Rightarrow> world \<Rightarrow> object set \<Rightarrow> object list \<Rightarrow> 'a binding \<Rightarrow> bool" where
  "leaves Q env known tmp m \<longleftrightarrow>
     (\<forall>s. owned env known tmp s \<longrightarrow> (\<exists>tmp'. Q (fst (m s)) tmp' \<and> owned env {} tmp' (snd (m s))))"

abbreviation safe :: "world \<Rightarrow> object set \<Rightarrow> object list \<Rightarrow> 'a binding \<Rightarrow> bool" where
  "safe \<equiv> leaves (\<lambda>_ tmp. tmp = [])"

lemma leavesD:
  "leaves Q env known tmp m \<Longrightarrow> owned env known tmp s \<Longrightarrow>
   \<exists>tmp'. Q (fst (m s)) tmp' \<and> owned env {} tmp' (snd (m s))"
  by (simp add: leaves_def)

named_theorems safe_intros \<open>rules for the next step of a binding\<close>

lemma owned_weaken: "owned env known tmp s \<Longrightarrow> owned env {} tmp s"
  by (auto simp: owned_def intact_def)

lemma obind_assoc [simp]: "obind (obind m f) g = obind m (\<lambda>x. obind (f x) g)"
  by (rule ext) (simp add: obind_def split: prod.splits sum.splits)

lemma obind_ret [simp]: "obind (ret x) f = f x"
  by (rule ext) (simp add: obind_def ret_def)

lemma obind_throw [simp]: "obind (throw e) f = throw e"
  by (rule ext) (simp add: obind_def throw_def)

lemma obind_if [simp]: "obind (if b then m else m') f = (if b then obind m f else obind m' f)"
  by simp

lemma obind_option [simp]:
  "obind (case x of None \<Rightarrow> m | Some y \<Rightarrow> m' y) f = (case x of None \<Rightarrow> obind m f | Some y \<Rightarrow> obind (m' y) f)"
  by (cases x) simp_all

lemma leaves_if [safe_intros]:
  "(b \<Longrightarrow> leaves Q env known tmp m) \<Longrightarrow> (\<not> b \<Longrightarrow> leaves Q env known tmp m') \<Longrightarrow>
   leaves Q env known tmp (if b then m else m')"
  by simp

lemma leaves_option [safe_intros]:
  "(x = None \<Longrightarrow> leaves Q env known tmp m) \<Longrightarrow> (\<And>y. x = Some y \<Longrightarrow> leaves Q env known tmp (m' y)) \<Longrightarrow>
   leaves Q env known tmp (case x of None \<Rightarrow> m | Some y \<Rightarrow> m' y)"
  by (cases x) simp_all

lemma leaves_list [safe_intros]:
  "(xs = [] \<Longrightarrow> leaves Q env known tmp m) \<Longrightarrow> (\<And>y ys. xs = y # ys \<Longrightarrow> leaves Q env known tmp (m' y ys)) \<Longrightarrow>
   leaves Q env known tmp (case xs of [] \<Rightarrow> m | y # ys \<Rightarrow> m' y ys)"
  by (cases xs) simp_all

lemma leaves_ret [safe_intros]: "Q (Inr x) tmp \<Longrightarrow> leaves Q env known tmp (ret x)"
  by (auto simp: leaves_def ret_def owned_weaken)

lemma leaves_throw [safe_intros]: "Q (Inl e) tmp \<Longrightarrow> leaves Q env known tmp (throw e)"
  by (auto simp: leaves_def throw_def owned_weaken)

lemma intact_live: "intact known tmp s \<Longrightarrow> set (boxed s) \<union> set tmp \<subseteq> set (os_live s)"
proof -
  assume "intact known tmp s"
  then obtain lost where "mset (os_live s) = mset (boxed s) + mset tmp + mset lost"
    by (auto simp: intact_def)
  then have "set_mset (mset (os_live s)) = set (boxed s) \<union> set tmp \<union> set lost" by (simp add: Un_assoc)
  then show ?thesis by auto
qed

lemma intact_log [simp]: "intact known tmp (s\<lparr>os_log := l\<rparr>) = intact known tmp s"
  by (simp add: intact_def)

lemma owned_call:
  assumes "owned env known tmp s" "set objs \<subseteq> known \<union> set tmp"
  shows "owned env known tmp (snd (call f vals objs s))"
proof (cases "failed_unchecked s")
  case True
  with assms(1) show ?thesis by (simp add: owned_def call_def unchecked_log)
next
  case False
  with assms(1) have i: "intact known tmp s" by (simp add: owned_def)
  then have "known \<subseteq> set (boxed s)" by (simp add: intact_def)
  with intact_live [OF i] assms(2) have "set objs \<subseteq> set (os_live s)" by blast
  with i assms(1) show ?thesis by (auto simp: owned_def call_def intact_def)
qed

lemma owned_add:
  assumes "owned env known tmp s"
  shows "owned env known ((os_next s, kind) # tmp)
    (s\<lparr>os_next := Suc (os_next s), os_live := (os_next s, kind) # os_live s\<rparr>)"
  using assms by (auto simp: owned_def intact_def less_SucI)

text \<open>The rule for one step: whatever result the step has and state it leaves, so it goes on.\<close>

lemma leaves_stepI:
  assumes "\<And>s. owned env known tmp s \<Longrightarrow>
    (case m s of (Inl e, s') \<Rightarrow> \<exists>tmp'. Q (Inl e) tmp' \<and> owned env {} tmp' s'
     | (Inr x, s') \<Rightarrow> \<exists>known' tmp'. owned env known' tmp' s' \<and> leaves Q env known' tmp' (k x))"
  shows "leaves Q env known tmp (obind m k)"
  unfolding leaves_def
proof (intro allI impI)
  fix s assume "owned env known tmp s"
  from assms [OF this] show "\<exists>tmp'. Q (fst (obind m k s)) tmp' \<and> owned env {} tmp' (snd (obind m k s))"
    by (auto simp: obind_def leaves_def split: prod.splits sum.splits)
qed

lemma leaves_call [safe_intros]:
  assumes "set objs \<subseteq> known \<union> set tmp" "\<And>r. 0 \<le> oc_len r \<Longrightarrow> oc_len r \<le> w_memory env \<Longrightarrow> leaves Q env known tmp (k r)"
  shows "leaves Q env known tmp (obind (call f vals objs) k)"
proof (rule leaves_stepI)
  fix s assume o: "owned env known tmp s"
  let ?r = "os_oracle s (length (os_log s))"
  from o have "0 \<le> oc_len ?r" "oc_len ?r \<le> w_memory env" by (simp_all add: owned_def roomy_def)
  with owned_call [OF o assms(1), of f vals] assms(2) [of ?r]
  show "case call f vals objs s of (Inl e, s') \<Rightarrow> \<exists>tmp'. Q (Inl e) tmp' \<and> owned env {} tmp' s'
     | (Inr x, s') \<Rightarrow> \<exists>known' tmp'. owned env known' tmp' s' \<and> leaves Q env known' tmp' (k x)"
    by (auto simp: call_def)
qed

lemma leaves_create [safe_intros]:
  assumes "set objs \<subseteq> known \<union> set tmp" "leaves Q env known tmp (k None)"
    "\<And>h. leaves Q env known ((h, kind) # tmp) (k (Some (h, kind)))"
  shows "leaves Q env known tmp (obind (create kind f vals objs) k)"
proof (rule leaves_stepI)
  fix s assume o: "owned env known tmp s"
  let ?s = "snd (call f vals objs s)"
  have o1: "owned env known tmp ?s" by (rule owned_call [OF o assms(1)])
  from owned_add [OF this, of kind] o1 assms(2,3)
  show "case create kind f vals objs s of (Inl e, s') \<Rightarrow> \<exists>tmp'. Q (Inl e) tmp' \<and> owned env {} tmp' s'
     | (Inr x, s') \<Rightarrow> \<exists>known' tmp'. owned env known' tmp' s' \<and> leaves Q env known' tmp' (k x)"
    by (auto simp: create_def obind_def call_def)
qed

lemma leaves_receive [safe_intros]:
  assumes "\<And>h. leaves Q env known ((h, kind) # tmp) (k (h, kind))"
  shows "leaves Q env known tmp (obind (receive kind f) k)"
proof (rule leaves_stepI)
  fix s assume o: "owned env known tmp s"
  let ?s = "snd (call f [] [] s)"
  have "owned env known tmp ?s" by (rule owned_call [OF o]) simp
  from owned_add [OF this, of kind] assms
  show "case receive kind f s of (Inl e, s') \<Rightarrow> \<exists>tmp'. Q (Inl e) tmp' \<and> owned env {} tmp' s'
     | (Inr x, s') \<Rightarrow> \<exists>known' tmp'. owned env known' tmp' s' \<and> leaves Q env known' tmp' (k x)"
    by (auto simp: receive_def obind_def call_def)
qed

text \<open>After an unchecked failure nothing is promised any more, so only success counts.\<close>

lemma leaves_create_unchecked [safe_intros]:
  assumes "set objs \<subseteq> known \<union> set tmp" "\<And>r. \<not> ok r \<Longrightarrow> unchecked_failure (f, [], objs) r"
    "\<And>r h. leaves Q env known ((h, kind) # tmp) (k (r, (h, kind)))"
  shows "leaves Q env known tmp (obind (create_unchecked kind f ok objs) k)"
proof (rule leaves_stepI)
  fix s assume o: "owned env known tmp s"
  let ?s = "snd (call f [] objs s)" and ?r = "os_oracle s (length (os_log s))"
  have o1: "owned env known tmp ?s" by (rule owned_call [OF o assms(1)])
  have "owned env known ((os_next ?s, kind) # tmp) (snd (create_unchecked kind f ok objs s))"
  proof (cases "ok ?r")
    case True
    with owned_add [OF o1, of kind] show ?thesis by (simp add: create_unchecked_def obind_def call_def)
  next
    case False
    with assms(2) have "failed_unchecked ?s" by (simp add: call_def unchecked_log)
    with o1 False show ?thesis by (simp add: create_unchecked_def obind_def call_def owned_def)
  qed
  with assms(3)
  show "case create_unchecked kind f ok objs s of (Inl e, s') \<Rightarrow> \<exists>tmp'. Q (Inl e) tmp' \<and> owned env {} tmp' s'
     | (Inr x, s') \<Rightarrow> \<exists>known' tmp'. owned env known' tmp' s' \<and> leaves Q env known' tmp' (k x)"
    by (simp add: create_unchecked_def obind_def call_def split del: if_split) blast
qed

text \<open>An error of \<open>luaL_tolstring\<close> loses the name that is being made.\<close>

lemma leaves_tolstring [safe_intros]:
  assumes "\<And>e. Q (Inl e) (remove1 (h, NameObj) tmp)" "(h, NameObj) \<in> set tmp"
    "\<And>x. leaves Q env known tmp (k x)"
  shows "leaves Q env known tmp (obind (luaL_tolstring v) k)"
proof (rule leaves_stepI)
  fix s assume o: "owned env known tmp s"
  have "owned env {} (remove1 (h, NameObj) tmp) s" if "os_tolstr s v = Inl e" for e
  proof (cases "failed_unchecked s")
    case False
    with o obtain lost where lost: "mset (os_live s) = mset (boxed s) + mset tmp + mset lost" "lost_names s lost"
      by (auto simp: owned_def intact_def)
    have "mset (os_live s) = mset (boxed s) + (mset (remove1 (h, NameObj) tmp) + {#(h, NameObj)#}) + mset lost"
      using lost(1) assms(2) by simp
    then have "mset (os_live s) = mset (boxed s) + mset (remove1 (h, NameObj) tmp) + mset ((h, NameObj) # lost)"
      by (simp only: mset.simps add_mset_add_single [of _ "mset lost"] ac_simps)
    moreover have "lost_names s ((h, NameObj) # lost)" using lost(2) that unfolding lost_names_def by fastforce
    ultimately have "intact {} (remove1 (h, NameObj) tmp) s"
      using o False unfolding owned_def intact_def by blast
    with o show ?thesis by (simp add: owned_def)
  qed (use o in \<open>simp add: owned_def\<close>)
  with o assms(1,3)
  show "case luaL_tolstring v s of (Inl e, s') \<Rightarrow> \<exists>tmp'. Q (Inl e) tmp' \<and> owned env {} tmp' s'
     | (Inr x, s') \<Rightarrow> \<exists>known' tmp'. owned env known' tmp' s' \<and> leaves Q env known' tmp' (k x)"
    by (cases "os_tolstr s v") (auto simp: luaL_tolstring_def)
qed

lemma owned_remove:
  assumes "owned env known tmp s" "obj \<in> set tmp"
  shows "owned env known (remove1 obj tmp) (s\<lparr>os_live := remove1 obj (os_live s)\<rparr>)"
proof (cases "failed_unchecked s")
  case False
  with assms(1) have i: "intact known tmp s" by (simp add: owned_def)
  have "obj \<in> set (os_live s)" using intact_live [OF i] assms(2) by blast
  moreover have "distinct (List.map fst (remove1 obj (os_live s)))"
    using i by (simp add: intact_def) (metis distinct_map distinct_remove1 inj_on_subset set_remove1_subset)
  moreover have "set (remove1 obj (os_live s)) \<subseteq> set (os_live s)" by (rule set_remove1_subset)
  ultimately have "intact known (remove1 obj tmp) (s\<lparr>os_live := remove1 obj (os_live s)\<rparr>)"
    using i assms(2) unfolding intact_def by auto
  with assms(1) show ?thesis by (simp add: owned_def)
qed (use assms(1) in \<open>simp add: owned_def\<close>)

lemma leaves_release [safe_intros]:
  assumes "obj \<in> set tmp" "leaves Q env known (remove1 obj tmp) (k ())"
  shows "leaves Q env known tmp (obind (release f obj) k)"
proof (rule leaves_stepI)
  fix s assume "owned env known tmp s"
  then have "owned env known tmp (snd (call f [] [obj] s))" using assms(1) by (intro owned_call) auto
  from owned_remove [OF this assms(1)] assms(2)
  show "case release f obj s of (Inl e, s') \<Rightarrow> \<exists>tmp'. Q (Inl e) tmp' \<and> owned env {} tmp' s'
     | (Inr x, s') \<Rightarrow> \<exists>known' tmp'. owned env known' tmp' s' \<and> leaves Q env known' tmp' (k x)"
    by (auto simp: release_def obind_def call_def)
qed

lemma leaves_release_opt [safe_intros]:
  assumes "\<And>obj. p = Some obj \<Longrightarrow> obj \<in> set tmp"
    "leaves Q env known (case p of None \<Rightarrow> tmp | Some obj \<Rightarrow> remove1 obj tmp) (k ())"
  shows "leaves Q env known tmp (obind (release_opt f p) k)"
  using assms by (cases p) (simp_all add: release_opt_def leaves_release leaves_call)

lemma leaves_release_checked [safe_intros]:
  assumes "obj \<in> set tmp" "leaves Q env known (remove1 obj tmp) (k True)" "leaves Q env known tmp (k False)"
  shows "leaves Q env known tmp (obind (release_checked f obj) k)"
proof (rule leaves_stepI)
  fix s assume "owned env known tmp s"
  then have "owned env known tmp (snd (call f [] [obj] s))" using assms(1) by (intro owned_call) auto
  from this owned_remove [OF this assms(1)] assms(2,3)
  show "case release_checked f obj s of (Inl e, s') \<Rightarrow> \<exists>tmp'. Q (Inl e) tmp' \<and> owned env {} tmp' s'
     | (Inr x, s') \<Rightarrow> \<exists>known' tmp'. owned env known' tmp' s' \<and> leaves Q env known' tmp' (k x)"
    by (auto simp: release_checked_def obind_def call_def)
qed

lemma leaves_terminate [safe_intros]: "Q (Inl (Terminates w)) [] \<Longrightarrow> leaves Q env known tmp (terminate w)"
  by (auto simp: leaves_def terminate_def owned_def intact_def boxed_def intro!: exI [of _ "[]"])

lemma leaves_undefined [safe_intros]:
  "(\<And>r. unchecked_failure (w, [], []) r) \<Longrightarrow> Q (Inl (Terminates w)) [] \<Longrightarrow>
   leaves Q env known tmp (undefined_behaviour w)"
  by (auto simp: leaves_def undefined_behaviour_def owned_def unchecked_log intro!: exI [of _ "[]"])

lemma undefined_bind [simp]: "obind (undefined_behaviour w) f = undefined_behaviour w"
  by (rule ext) (simp add: obind_def undefined_behaviour_def)

lemma terminate_bind [simp]: "obind (terminate w) f = terminate w"
  by (rule ext) (simp add: obind_def terminate_def)

lemma boxed_push: "boxed (s\<lparr>os_boxes := os_boxes s @ [b]\<rparr>) = boxed s @ box_objects b"
  by (simp add: boxed_def)

lemma leaves_push [safe_intros]:
  assumes "(h, kind) \<in> set tmp" "kind \<noteq> DigestObj"
    "\<And>v. leaves Q env (insert (h, kind) known) (remove1 (h, kind) tmp) (k v)"
  shows "leaves Q env known tmp (obind (push_box kind (h, kind)) k)"
proof (rule leaves_stepI)
  fix s assume "owned env known tmp s"
  then have "owned env (insert (h, kind) known) (remove1 (h, kind) tmp)
      (s\<lparr>os_boxes := os_boxes s @ [(kind, Some h)]\<rparr>)"
    using assms(1,2) by (auto simp: owned_def intact_def boxed_push box_objects_def)
  with assms(3) show "case push_box kind (h, kind) s of (Inl e, s') \<Rightarrow> \<exists>tmp'. Q (Inl e) tmp' \<and> owned env {} tmp' s'
     | (Inr x, s') \<Rightarrow> \<exists>known' tmp'. owned env known' tmp' s' \<and> leaves Q env known' tmp' (k x)"
    by (auto simp: push_box_def)
qed

lemma leaves_push_digest [safe_intros]:
  assumes "\<And>v. leaves Q env known tmp (k v)"
  shows "leaves Q env known tmp (obind (push_box DigestObj obj) k)"
proof (rule leaves_stepI)
  fix s assume "owned env known tmp s"
  then have "owned env known tmp (s\<lparr>os_boxes := os_boxes s @ [(DigestObj, Some (fst obj))]\<rparr>)"
    by (simp add: owned_def intact_def boxed_push box_objects_def)
  with assms show "case push_box DigestObj obj s of (Inl e, s') \<Rightarrow> \<exists>tmp'. Q (Inl e) tmp' \<and> owned env {} tmp' s'
     | (Inr x, s') \<Rightarrow> \<exists>known' tmp'. owned env known' tmp' s' \<and> leaves Q env known' tmp' (k x)"
    by (auto simp: push_box_def)
qed

lemma leaves_check_box [safe_intros]:
  assumes "\<And>e. Q (Inl e) tmp" "\<And>i. leaves Q env known tmp (k i)"
  shows "leaves Q env known tmp (obind (check_box kind args n) k)"
  using assms
  by (intro leaves_stepI)
    (auto simp: check_box_def intro!: exI [of _ tmp] intro: owned_weaken split: option.split lua_value.split)

lemma boxed_nth: "i < length (os_boxes s) \<Longrightarrow> os_boxes s ! i = (kind, Some h) \<Longrightarrow> kind \<noteq> DigestObj \<Longrightarrow> (h, kind) \<in> set (boxed s)"
  using nth_mem [of i "os_boxes s"] by (force simp: boxed_def box_objects_def)

lemma check_object_boxed:
  assumes "check_object kind msg args n s = (Inr obj, s')" "kind \<noteq> DigestObj"
  shows "s' = s \<and> snd obj = kind \<and> obj \<in> set (boxed s)"
  using assms boxed_nth [of _ s kind "fst obj"]
  by (auto simp: check_object_def obind_def check_box_def prod_eq_iff
      split: option.splits lua_value.splits if_splits prod.splits sum.splits)

lemma check_object_state: "snd (check_object kind msg args n s) = s"
  by (simp add: check_object_def obind_def check_box_def split: option.split lua_value.split)

lemma leaves_check_object [safe_intros]:
  assumes "kind \<noteq> DigestObj" "\<And>e. Q (Inl e) tmp"
    "\<And>h. leaves Q env (insert (h, kind) known) tmp (k (h, kind))"
  shows "leaves Q env known tmp (obind (check_object kind msg args n) k)"
proof (rule leaves_stepI)
  fix s assume o: "owned env known tmp s"
  show "case check_object kind msg args n s of (Inl e, s') \<Rightarrow> \<exists>tmp'. Q (Inl e) tmp' \<and> owned env {} tmp' s'
     | (Inr x, s') \<Rightarrow> \<exists>known' tmp'. owned env known' tmp' s' \<and> leaves Q env known' tmp' (k x)"
  proof (cases "check_object kind msg args n s")
    case (Pair r s')
    have "s' = s" using check_object_state [of kind msg args n s] Pair by simp
    show ?thesis
    proof (cases r)
      case (Inl e)
      with Pair \<open>s' = s\<close> o assms(2) show ?thesis by (auto intro!: exI [of _ tmp] simp: owned_weaken)
    next
      case (Inr obj)
      with check_object_boxed [of kind msg args n s obj s'] Pair assms(1)
      have "snd obj = kind" "obj \<in> set (boxed s)" by auto
      with o have "owned env (insert (fst obj, kind) known) tmp s" by (auto simp: owned_def intact_def prod_eq_iff)
      with assms(3) [of "fst obj"] \<open>snd obj = kind\<close> Pair Inr \<open>s' = s\<close> show ?thesis by (metis (mono_tags, lifting) old.prod.case old.sum.simps(6) prod.collapse)
    qed
  qed
qed

lemma check_pointer_cases:
  assumes "kind \<noteq> DigestObj"
  shows "snd (check_pointer kind args n s) = s \<and>
    (case fst (check_pointer kind args n s) of
       Inr (Some obj) \<Rightarrow> snd obj = kind \<and> obj \<in> set (boxed s) | _ \<Rightarrow> True)"
  using assms boxed_nth [of _ s kind]
  by (auto simp: check_pointer_def obind_def check_box_def prod_eq_iff
      split: option.split lua_value.split)

lemma leaves_check_pointer [safe_intros]:
  assumes "kind \<noteq> DigestObj" "\<And>e. Q (Inl e) tmp" "leaves Q env known tmp (k None)"
    "\<And>h. leaves Q env (insert (h, kind) known) tmp (k (Some (h, kind)))"
  shows "leaves Q env known tmp (obind (check_pointer kind args n) k)"
proof (rule leaves_stepI)
  fix s assume o: "owned env known tmp s"
  obtain r where r: "check_pointer kind args n s = (r, s)"
    using check_pointer_cases [OF assms(1), of args n s] by (metis prod.collapse)
  show "case check_pointer kind args n s of (Inl e, s') \<Rightarrow> \<exists>tmp'. Q (Inl e) tmp' \<and> owned env {} tmp' s'
     | (Inr x, s') \<Rightarrow> \<exists>known' tmp'. owned env known' tmp' s' \<and> leaves Q env known' tmp' (k x)"
  proof (cases r)
    case (Inl e)
    with r o assms(2) show ?thesis by (auto intro!: exI [of _ tmp] simp: owned_weaken)
  next
    case (Inr p)
    show ?thesis
    proof (cases p)
      case None
      with r Inr o assms(3) show ?thesis by auto
    next
      case (Some obj)
      with check_pointer_cases [OF assms(1), of args n s] r Inr have "snd obj = kind" "obj \<in> set (boxed s)" by auto
      then have "obj = (fst obj, kind)" "owned env (insert (fst obj, kind) known) tmp s"
        using o by (auto simp: owned_def intact_def prod_eq_iff)
      then show ?thesis using assms(4) [of "fst obj"] r Inr Some by auto
    qed
  qed
qed

lemma leaves_lift [safe_intros]:
  assumes "\<And>e. Q (Inl e) tmp" "\<And>x. r = Inr x \<Longrightarrow> leaves Q env known tmp (k x)"
  shows "leaves Q env known tmp (obind (lift r) k)"
  using assms by (cases r) (simp_all add: lift_def leaves_throw)

text \<open>A size asked for by Lua code may be refused; one that came from the library is available.\<close>

lemma leaves_buffer [safe_intros]:
  assumes "0 \<le> n \<and> n \<le> w_memory env \<or> (\<forall>e. Q (Inl e) tmp)" "leaves Q env known tmp (k ())"
  shows "leaves Q env known tmp (obind (luaL_buffinitsize n) k)"
proof (rule leaves_stepI)
  fix s assume o: "owned env known tmp s"
  then have "n mod 2 ^ 64 \<le> os_memory s" if "0 \<le> n" "n \<le> w_memory env"
    using that by (subst mod_pos_pos_trivial) (auto simp: owned_def roomy_def)
  then show "case luaL_buffinitsize n s of (Inl e, s') \<Rightarrow> \<exists>tmp'. Q (Inl e) tmp' \<and> owned env {} tmp' s'
     | (Inr x, s') \<Rightarrow> \<exists>known' tmp'. owned env known' tmp' s' \<and> leaves Q env known' tmp' (k x)"
    using assms o
    by (auto simp: luaL_buffinitsize_def simp del: power_numeral intro!: exI [of _ tmp] intro: owned_weaken)
qed

lemma boxed_clear:
  assumes "i < length (os_boxes s)" "os_boxes s ! i = (kind, Some h)" "kind \<noteq> DigestObj"
  shows "mset (boxed (s\<lparr>os_boxes := (os_boxes s)[i := (kind, None)]\<rparr>)) + {#(h, kind)#} = mset (boxed s)"
proof -
  let ?bs = "os_boxes s"
  have bs: "?bs = take i ?bs @ (kind, Some h) # drop (Suc i) ?bs"
    using assms(1,2) by (metis id_take_nth_drop)
  have "boxed s = concat (List.map box_objects (take i ?bs)) @ (h, kind) # concat (List.map box_objects (drop (Suc i) ?bs))"
    unfolding boxed_def by (subst bs) (simp add: box_objects_def assms(3))
  moreover have "boxed (s\<lparr>os_boxes := ?bs[i := (kind, None)]\<rparr>) =
      concat (List.map box_objects (take i ?bs)) @ concat (List.map box_objects (drop (Suc i) ?bs))"
    using assms(1) by (simp add: boxed_def upd_conv_take_nth_drop box_objects_def)
  ultimately show ?thesis by simp
qed

lemma live_boxes_commute: "s\<lparr>os_boxes := b, os_live := l\<rparr> = s\<lparr>os_live := l, os_boxes := b\<rparr>"
  by simp

lemma check_box_cases:
  "(\<exists>e. check_box kind args n s = (Inl e, s)) \<or>
   (\<exists>i. check_box kind args n s = (Inr i, s) \<and> i < length (os_boxes s) \<and> fst (os_boxes s ! i) = kind)"
  by (auto simp: check_box_def split: option.split lua_value.split)

text \<open>An object that is freed while its box is emptied.\<close>

lemma owned_drop_box:
  assumes "owned env known tmp s" "i < length (os_boxes s)" "os_boxes s ! i = (kind, Some h)" "kind \<noteq> DigestObj"
  shows "owned env {} tmp (s\<lparr>os_live := remove1 (h, kind) (os_live s), os_boxes := (os_boxes s)[i := (kind, None)]\<rparr>)"
proof -
  have "mset (boxed s) = mset (boxed (s\<lparr>os_boxes := (os_boxes s)[i := (kind, None)]\<rparr>)) + {#(h, kind)#}"
    using boxed_clear [OF assms(2-4)] by simp
  then have "intact {} ((h, kind) # tmp) (s\<lparr>os_boxes := (os_boxes s)[i := (kind, None)]\<rparr>)" if "intact known tmp s"
    using that by (simp add: intact_def)
  with assms(1) have "owned env {} ((h, kind) # tmp) (s\<lparr>os_boxes := (os_boxes s)[i := (kind, None)]\<rparr>)"
    by (auto simp: owned_def)
  from owned_remove [OF this, of "(h, kind)"] show ?thesis by (simp add: live_boxes_commute)
qed

lemma safeI: "(\<And>s. owned env known tmp s \<Longrightarrow> owned env {} [] (snd (m s))) \<Longrightarrow> safe env known tmp m"
  by (simp add: leaves_def)

lemma safe_gc:
  assumes "kind \<noteq> DigestObj"
  shows "safe env {} [] (gc_box kind f args)"
proof (rule safeI)
  fix s assume o: "owned env {} [] s"
  from check_box_cases [of kind args 1 s]
  show "owned env {} [] (snd (gc_box kind f args s))"
  proof (elim disjE exE conjE)
    fix e assume "check_box kind args 1 s = (Inl e, s)"
    with o show ?thesis by (simp add: gc_box_def obind_def)
  next
    fix i assume i: "check_box kind args 1 s = (Inr i, s)" "i < length (os_boxes s)" "fst (os_boxes s ! i) = kind"
    show ?thesis
    proof (cases "snd (os_boxes s ! i)")
      case None
      with i o show ?thesis by (simp add: gc_box_def obind_def ret_def)
    next
      case (Some h)
      then have b: "os_boxes s ! i = (kind, Some h)" using i(3) by (simp add: prod_eq_iff)
      let ?s1 = "snd (call f [] [(h, kind)] s)"
      have "owned env {(h, kind)} [] s" using o boxed_nth [OF i(2) b assms] by (auto simp: owned_def intact_def)
      then have "owned env {(h, kind)} [] ?s1" by (rule owned_call) simp
      moreover have "os_boxes ?s1 = os_boxes s" by (simp add: call_def)
      ultimately show ?thesis
        using owned_drop_box [of env "{(h, kind)}" "[]" ?s1 i kind h] i b Some assms
        by (simp add: gc_box_def obind_def release_def call_def)
    qed
  qed
qed

section \<open>A library of bindings\<close>

type_synonym binding_table = "(string \<times> (lua_value list \<Rightarrow> lua_value list binding)) list"

text \<open>A call from Lua, or of the collector: any function of any table with any arguments.\<close>

definition lua_invoke ::
  "('t \<Rightarrow> binding_table) \<Rightarrow> 't \<times> string \<times> lua_value list \<Rightarrow> native \<Rightarrow> native" where
  "lua_invoke methods c s =
     (case c of (t, name, args) \<Rightarrow>
        (case map_of (methods t) name of None \<Rightarrow> s | Some f \<Rightarrow> snd (f args s)))"

definition native_start :: "(nat \<Rightarrow> outcome) \<Rightarrow> int \<Rightarrow> native" where
  "native_start oracle mem =
     \<lparr>os_oracle = oracle, os_tolstr = (\<lambda>_. Inr []), os_memory = mem, os_log = [], os_next = 0, os_live = [],
      os_boxes = [], os_fault = False\<rparr>"

text \<open>The start with metamethods of the Lua program.\<close>

definition native_start_with :: "(lua_value \<Rightarrow> lua_error + string) \<Rightarrow> (nat \<Rightarrow> outcome) \<Rightarrow> int \<Rightarrow> native" where
  "native_start_with tolstr oracle mem = (native_start oracle mem)\<lparr>os_tolstr := tolstr\<rparr>"

definition world_of :: "(lua_value \<Rightarrow> lua_error + string) \<Rightarrow> (nat \<Rightarrow> outcome) \<Rightarrow> int \<Rightarrow> world" where
  "world_of tolstr oracle mem = \<lparr>w_oracle = oracle, w_tolstr = tolstr, w_memory = mem\<rparr>"

lemma owned_start_with:
  "(\<And>n. 0 \<le> oc_len (oracle n) \<and> oc_len (oracle n) \<le> mem) \<Longrightarrow> mem < 2 ^ 64 \<Longrightarrow>
   owned (world_of tolstr oracle mem) {} [] (native_start_with tolstr oracle mem)"
  by (simp add: owned_def roomy_def intact_def native_start_with_def native_start_def boxed_def world_of_def)

lemma native_start_tolstr: "native_start oracle mem = native_start_with (\<lambda>_. Inr []) oracle mem"
  by (simp add: native_start_with_def native_start_def)

text \<open>What the tables of a library promise, and what it means for any sequence of calls.\<close>

locale native_library =
  fixes methods :: "'t \<Rightarrow> binding_table"
  assumes methods_safe: "(name, f) \<in> set (methods t) \<Longrightarrow> safe env {} [] (f args)"
begin

lemma invoke_owned: "owned env {} [] s \<Longrightarrow> owned env {} [] (lua_invoke methods c s)"
  using methods_safe
  by (auto simp: lua_invoke_def leaves_def split: prod.splits option.splits dest!: map_of_SomeD)

lemma run_owned: "owned env {} [] s \<Longrightarrow> owned env {} [] (fold (lua_invoke methods) calls s)"
  by (induction calls arbitrary: s) (simp_all add: invoke_owned)

lemma objects_owned:
  assumes "\<And>n. 0 \<le> oc_len (oracle n) \<and> oc_len (oracle n) \<le> mem" "mem < 2 ^ 64"
    "s = fold (lua_invoke methods) calls (native_start_with tolstr oracle mem)"
    "\<And>n. n < length (os_log s) \<Longrightarrow> \<not> unchecked_failure (os_log s ! n) (oracle n)"
  shows "\<not> os_fault s \<and> distinct (os_live s) \<and> mset (boxed s) \<subseteq># mset (os_live s) \<and>
    (\<forall>obj \<in># mset (os_live s) - mset (boxed s). snd obj = NameObj \<and> (\<exists>v e. tolstr v = Inl e))"
proof -
  have o: "owned (world_of tolstr oracle mem) {} [] s"
    using assms(1,2) unfolding assms(3) by (intro run_owned owned_start_with)
  then have "os_oracle s = oracle" "os_tolstr s = tolstr" by (simp_all add: owned_def roomy_def world_of_def)
  with assms(4) o have "intact {} [] s" by (auto simp: owned_def failed_unchecked_def)
  then show ?thesis using \<open>os_tolstr s = tolstr\<close> by (auto simp: intact_def distinct_map lost_names_def)
qed

end

end
