(* ===== verification/Pkey.thy ===== *)
theory Pkey
  imports NativeObjects
begin

text \<open>
  \<open>myopenssl/errors.cpp\<close>, \<open>myopenssl/digest.cpp\<close>, \<open>myopenssl/pkey.cpp\<close> and the functions of \<open>myopenssl/myopenssl.cpp\<close>: message
  digests, random bytes, and keys, each binding with its argument checks, the library calls in the
  order of the sources and the release of what it holds on each path.
\<close>

text \<open>\<open>openssl_failure\<close>: the name of the function and the library's error queue, a line each.\<close>

definition openssl_failure :: "string \<Rightarrow> 'a binding" where
  "openssl_failure func =
     obind (call ''ERR_print_errors_cb'' [] []) (\<lambda>r.
       throw (LuaErr (LStr (''OpenSSL error in '' @ func @ concat (List.map (\<lambda>str. LF # str) (oc_strs r))))))"

section \<open>Digests\<close>

definition EVP_MAX_MD_SIZE :: int where "EVP_MAX_MD_SIZE = 64"

definition check_digest :: "lua_value list \<Rightarrow> nat \<Rightarrow> nat binding" where
  "check_digest args n = check_box DigestObj args n"

definition digest_digest :: "lua_conv \<Rightarrow> lua_value list \<Rightarrow> lua_value list binding" where
  "digest_digest conv args =
     obind (check_digest args 1) (\<lambda>type.
     obind (check_str conv args 2) (\<lambda>data.
     obind (luaL_buffinitsize EVP_MAX_MD_SIZE) (\<lambda>_.
     obind (call ''EVP_Digest'' [LStr data, LRef type] []) (\<lambda>r.
       if 0 \<ge> oc_rc r then openssl_failure ''EVP_Digest'' else ret [buffer_bytes (oc_len r) r]))))"

definition digest_hmac :: "lua_conv \<Rightarrow> lua_value list \<Rightarrow> lua_value list binding" where
  "digest_hmac conv args =
     obind (check_digest args 1) (\<lambda>type.
     obind (check_str conv args 2) (\<lambda>data.
     obind (check_str conv args 3) (\<lambda>key.
     obind (luaL_buffinitsize EVP_MAX_MD_SIZE) (\<lambda>_.
     obind (call ''HMAC'' [LRef type, LStr key, LStr data] []) (\<lambda>r.
       if oc_rc r = 0 then openssl_failure ''HMAC'' else ret [buffer_bytes (oc_len r) r])))))"

definition digest_size :: "lua_value list \<Rightarrow> lua_value list binding" where
  "digest_size args =
     obind (check_digest args 1) (\<lambda>digest.
     obind (call ''EVP_MD_get_size'' [LRef digest] []) (\<lambda>r. ret [LInt (oc_rc r)]))"

definition digest_pbkdf2 :: "lua_conv \<Rightarrow> lua_value list \<Rightarrow> lua_value list binding" where
  "digest_pbkdf2 conv args =
     obind (check_digest args 1) (\<lambda>digest.
     obind (check_str conv args 2) (\<lambda>pass.
     obind (check_str conv args 3) (\<lambda>salt.
     obind (check_int conv args 4) (\<lambda>iter.
     obind (check_int conv args 5) (\<lambda>keylen.
     obind (luaL_buffinitsize keylen) (\<lambda>_.
     obind (call ''PKCS5_PBKDF2_HMAC''
         [LStr pass, LStr salt, LInt (to_int iter), LRef digest, LInt (to_int keylen)] []) (\<lambda>r.
       if oc_rc r = 0 then openssl_failure ''PKCS5_PBKDF2_HMAC'' else ret [buffer_bytes keylen r])))))))"

definition push_digest :: "nat \<Rightarrow> lua_value binding" where
  "push_digest digest = push_box DigestObj (digest, DigestObj)"

definition l_get_digest :: "lua_conv \<Rightarrow> lua_value list \<Rightarrow> lua_value list binding" where
  "l_get_digest conv args =
     obind (check_cstr conv args 1) (\<lambda>name.
     obind (call ''EVP_get_digestbyname'' [LStr name] []) (\<lambda>r.
       if oc_rc r = 0 then openssl_failure ''EVP_get_digestbyname''
       else obind (push_digest (nat (oc_rc r))) (\<lambda>v. ret [v])))"

section \<open>Random bytes and exclusive or\<close>

definition l_rand :: "lua_conv \<Rightarrow> lua_value list \<Rightarrow> lua_value list binding" where
  "l_rand conv args =
     obind (check_int conv args 1) (\<lambda>num.
       let priv = lua_toboolean (lua_arg args 2);
           f = (if priv then ''RAND_priv_bytes'' else ''RAND_bytes'')
       in obind (luaL_buffinitsize num) (\<lambda>_.
          obind (call f [LInt (to_int num)] []) (\<lambda>r.
            if oc_rc r \<noteq> 1 then openssl_failure f else ret [buffer_bytes num r])))"

unbundle bit_operations_syntax

definition xor_char :: "char \<Rightarrow> char \<Rightarrow> char" where
  "xor_char a b = to_char (uint8 a XOR uint8 b)"

text \<open>The transformed common part, then the rest of the longer string.\<close>

definition l_xor :: "lua_conv \<Rightarrow> lua_value list \<Rightarrow> lua_error + lua_value list" where
  "l_xor conv args =
     sbind (check_string_view conv args 1) (\<lambda>s1.
     sbind (check_string_view conv args 2) (\<lambda>s2.
       let lc = min (length s1) (length s2)
       in Inr [LStr (List.map2 xor_char (take lc s1) (take lc s2) @
            (if length s1 < length s2 then drop lc s2 else drop lc s1))]))"

section \<open>Keys\<close>

definition check_pkey :: "lua_value list \<Rightarrow> nat \<Rightarrow> object binding" where
  "check_pkey args n = check_object PkeyObj ''pkey already closed'' args n"

definition push_evp_pkey :: "object \<Rightarrow> lua_value binding" where
  "push_evp_pkey pkey = push_box PkeyObj pkey"

definition pkey_gc :: "lua_value list \<Rightarrow> lua_value list binding" where
  "pkey_gc args = gc_box PkeyObj ''EVP_PKEY_free'' args"

definition free_fail :: "string \<Rightarrow> object \<Rightarrow> string \<Rightarrow> 'a binding" where
  "free_fail free obj f = obind (release free obj) (\<lambda>_. openssl_failure f)"

definition pkey_sign :: "lua_conv \<Rightarrow> lua_value list \<Rightarrow> lua_value list binding" where
  "pkey_sign conv args =
     obind (check_pkey args 1) (\<lambda>pkey.
     obind (check_str conv args 2) (\<lambda>data.
     obind (create PkeyCtx ''EVP_PKEY_CTX_new'' [] [pkey]) (\<lambda>ctx.
     case ctx of None \<Rightarrow> openssl_failure ''EVP_PKEY_CTX_new'' | Some ctx \<Rightarrow>
     obind (call ''EVP_PKEY_sign_init'' [] [ctx]) (\<lambda>r.
     if 0 \<ge> oc_rc r then free_fail ''EVP_PKEY_CTX_free'' ctx ''EVP_PKEY_sign_init'' else
     obind (call ''EVP_PKEY_sign'' [LNil, LStr data] [ctx]) (\<lambda>r.
     if 0 \<ge> oc_rc r then free_fail ''EVP_PKEY_CTX_free'' ctx ''EVP_PKEY_sign'' else
     obind (luaL_buffinitsize (oc_len r)) (\<lambda>_.
     obind (call ''EVP_PKEY_sign'' [LInt (oc_len r), LStr data] [ctx]) (\<lambda>r.
     obind (release ''EVP_PKEY_CTX_free'' ctx) (\<lambda>_.
     if 0 \<ge> oc_rc r then openssl_failure ''EVP_PKEY_sign'' else ret [buffer_bytes (oc_len r) r]))))))))"

definition pkey_decrypt :: "lua_conv \<Rightarrow> lua_value list \<Rightarrow> lua_value list binding" where
  "pkey_decrypt conv args =
     obind (check_pkey args 1) (\<lambda>pkey.
     obind (check_str conv args 2) (\<lambda>inp.
     obind (opt_str conv args 3) (\<lambda>format.
     obind (create PkeyCtx ''EVP_PKEY_CTX_new'' [] [pkey]) (\<lambda>ctx.
     case ctx of None \<Rightarrow> openssl_failure ''EVP_PKEY_CTX_new'' | Some ctx \<Rightarrow>
     obind (call ''EVP_PKEY_decrypt_init'' [] [ctx]) (\<lambda>r.
     if 0 \<ge> oc_rc r then free_fail ''EVP_PKEY_CTX_free'' ctx ''EVP_PKEY_decrypt_init'' else
     obind (if format \<noteq> None \<and> c_str (the format) = ''oaep''
            then obind (call ''EVP_PKEY_CTX_set_rsa_padding'' [] [ctx]) (\<lambda>r. ret (oc_rc r)) else ret 1) (\<lambda>success.
     if 0 \<ge> success then free_fail ''EVP_PKEY_CTX_free'' ctx ''EVP_PKEY_CTX_set_rsa_padding'' else
     obind (call ''EVP_PKEY_decrypt'' [LNil, LStr inp] [ctx]) (\<lambda>r.
     if 0 \<ge> oc_rc r then free_fail ''EVP_PKEY_CTX_free'' ctx ''EVP_PKEY_decrypt'' else
     obind (luaL_buffinitsize (oc_len r)) (\<lambda>_.
     obind (call ''EVP_PKEY_decrypt'' [LInt (oc_len r), LStr inp] [ctx]) (\<lambda>r.
     obind (release ''EVP_PKEY_CTX_free'' ctx) (\<lambda>_.
     if 0 \<ge> oc_rc r then openssl_failure ''EVP_PKEY_decrypt'' else ret [buffer_bytes (oc_len r) r]))))))))))"

definition pkey_derive :: "lua_value list \<Rightarrow> lua_value list binding" where
  "pkey_derive args =
     obind (check_pkey args 1) (\<lambda>priv.
     obind (check_pkey args 2) (\<lambda>pub.
     obind (create PkeyCtx ''EVP_PKEY_CTX_new'' [] [priv]) (\<lambda>ctx.
     case ctx of None \<Rightarrow> openssl_failure ''EVP_PKEY_CTX_new'' | Some ctx \<Rightarrow>
     obind (call ''EVP_PKEY_derive_init'' [] [ctx]) (\<lambda>r.
     if 0 \<ge> oc_rc r then free_fail ''EVP_PKEY_CTX_free'' ctx ''EVP_PKEY_derive_init'' else
     obind (call ''EVP_PKEY_derive_set_peer'' [] [ctx, pub]) (\<lambda>r.
     if 0 \<ge> oc_rc r then free_fail ''EVP_PKEY_CTX_free'' ctx ''EVP_PKEY_derive_set_peer'' else
     obind (call ''EVP_PKEY_derive'' [LNil] [ctx]) (\<lambda>r.
     if 0 \<ge> oc_rc r then free_fail ''EVP_PKEY_CTX_free'' ctx ''EVP_PKEY_derive'' else
     obind (luaL_buffinitsize (oc_len r)) (\<lambda>_.
     obind (call ''EVP_PKEY_derive'' [LInt (oc_len r)] [ctx]) (\<lambda>r.
     obind (release ''EVP_PKEY_CTX_free'' ctx) (\<lambda>_.
     if 0 \<ge> oc_rc r then openssl_failure ''EVP_PKEY_derive'' else ret [buffer_bytes (oc_len r) r])))))))))"

text \<open>The contents of a memory BIO as a Lua string, and the BIO freed.\<close>

definition bio_result :: "object \<Rightarrow> lua_value list binding" where
  "bio_result bio =
     obind (call ''BIO_get_mem_data'' [] [bio]) (\<lambda>r.
     obind (release ''BIO_free_all'' bio) (\<lambda>_. ret [buffer_bytes (oc_len r) r]))"

definition pkey_to_private_pem :: "lua_conv \<Rightarrow> lua_value list \<Rightarrow> lua_value list binding" where
  "pkey_to_private_pem conv args =
     obind (check_pkey args 1) (\<lambda>pkey.
     obind (opt_str conv args 2) (\<lambda>cipher_name.
     obind (opt_str conv args 3) (\<lambda>pass.
     if cipher_name = None \<and> pass \<noteq> None then throw (BadArg 2 ''missing cipher'')
     else if cipher_name \<noteq> None \<and> pass = None then throw (BadArg 3 ''missing password'') else
     obind (case cipher_name of None \<Rightarrow> ret True
            | Some n \<Rightarrow> obind (call ''EVP_get_cipherbyname'' [LStr (c_str n)] []) (\<lambda>r. ret (oc_rc r \<noteq> 0))) (\<lambda>found.
     if \<not> found then openssl_failure ''EVP_get_cipherbyname'' else
     obind (create BioObj ''BIO_new'' [] []) (\<lambda>bio.
     case bio of None \<Rightarrow> openssl_failure ''BIO_new'' | Some bio \<Rightarrow>
     obind (call ''PEM_write_bio_PrivateKey''
         [case cipher_name of None \<Rightarrow> LNil | Some n \<Rightarrow> LStr n, case pass of None \<Rightarrow> LNil | Some p \<Rightarrow> LStr p] [bio, pkey]) (\<lambda>r.
     if oc_rc r = 0 then free_fail ''BIO_free_all'' bio ''PEM_write_bio_PrivateKey'' else bio_result bio))))))"

definition pkey_to_public_pem :: "lua_value list \<Rightarrow> lua_value list binding" where
  "pkey_to_public_pem args =
     obind (check_pkey args 1) (\<lambda>pkey.
     obind (create BioObj ''BIO_new'' [] []) (\<lambda>bio.
     case bio of None \<Rightarrow> openssl_failure ''BIO_new'' | Some bio \<Rightarrow>
     obind (call ''PEM_write_bio_PUBKEY'' [] [bio, pkey]) (\<lambda>r.
     if oc_rc r = 0 then free_fail ''BIO_free_all'' bio ''PEM_write_bio_PUBKEY'' else bio_result bio)))"

definition OSSL_PARAM_INTEGER :: int where "OSSL_PARAM_INTEGER = 1"
definition OSSL_PARAM_UNSIGNED_INTEGER :: int where "OSSL_PARAM_UNSIGNED_INTEGER = 2"
definition OSSL_PARAM_UTF8_STRING :: int where "OSSL_PARAM_UTF8_STRING = 4"
definition OSSL_PARAM_OCTET_STRING :: int where "OSSL_PARAM_OCTET_STRING = 5"

text \<open>
  The callback of \<open>EVP_PKEY_export\<close> over the parameters (name, type, data): numbers become bignum
  userdata, anything else a string; \<open>None\<close> is its failure return.
\<close>

fun export_params ::
  "(string \<times> int \<times> string) list \<Rightarrow> (lua_value \<times> lua_value) list \<Rightarrow> (lua_value \<times> lua_value) list option binding" where
  "export_params [] t = ret (Some t)"
| "export_params ((key, data_type, data) # ps) t =
     (if data_type = OSSL_PARAM_UNSIGNED_INTEGER \<or> data_type = OSSL_PARAM_INTEGER then
        obind (create_unchecked BignumObj ''BN_new'' not_null []) (\<lambda>(_, bn).
        obind (push_box BignumObj bn) (\<lambda>v.
        obind (call ''OSSL_PARAM_get_BN'' [LStr key] [bn]) (\<lambda>r.
          if oc_rc r = 0 then ret None else export_params ps (AList.update (LStr key) v t))))
      else export_params ps (AList.update (LStr key) (LStr data) t))"

definition pkey_export :: "lua_value list \<Rightarrow> lua_value list binding" where
  "pkey_export args =
     obind (check_pkey args 1) (\<lambda>pkey.
     obind (call ''EVP_PKEY_export'' [] [pkey]) (\<lambda>r.
     obind (if oc_rc r = 0 then ret None else export_params (oc_items r) []) (\<lambda>t.
       case t of None \<Rightarrow> openssl_failure ''EVP_PKEY_export'' | Some t \<Rightarrow> ret [LTable t])))"

definition set_param_with :: "string \<Rightarrow> string \<Rightarrow> lua_value list \<Rightarrow> object \<Rightarrow> lua_value list binding" where
  "set_param_with f err vals pkey =
     obind (call f vals [pkey]) (\<lambda>r. if oc_rc r = 0 then openssl_failure err else ret [])"

text \<open>The parameter found by \<open>OSSL_PARAM_locate_const\<close> has its type in the outcome's length field.\<close>

definition pkey_set_param :: "lua_conv \<Rightarrow> lua_value list \<Rightarrow> lua_value list binding" where
  "pkey_set_param conv args =
     obind (check_pkey args 1) (\<lambda>pkey.
     obind (check_cstr conv args 2) (\<lambda>name.
     obind (call ''EVP_PKEY_settable_params'' [] [pkey]) (\<lambda>r.
     if oc_rc r = 0 then openssl_failure ''EVP_PKEY_settable_params'' else
     obind (call ''OSSL_PARAM_locate_const'' [LStr name] []) (\<lambda>r.
     if oc_rc r = 0 then throw (LuaErr (LStr (''unknown parameter '' @ name)))
     else if oc_len r = OSSL_PARAM_UTF8_STRING then
       obind (check_cstr conv args 3) (\<lambda>str.
         set_param_with ''EVP_PKEY_set_utf8_string_param'' ''EVP_PKEY_set_utf8_string_param'' [LStr name, LStr str] pkey)
     else if oc_len r = OSSL_PARAM_OCTET_STRING then
       obind (check_str conv args 3) (\<lambda>str.
         set_param_with ''EVP_PKEY_set_octet_string_param'' ''EVP_PKEY_set_octet_string_param'' [LStr name, LStr str] pkey)
     else if oc_len r = OSSL_PARAM_UNSIGNED_INTEGER \<or> oc_len r = OSSL_PARAM_INTEGER then
       obind (check_int conv args 3) (\<lambda>n.
         set_param_with ''EVP_PKEY_set_int_param'' ''EVP_PKEY_set_octet_string_param'' [LStr name, LInt (to_int n)] pkey)
     else throw (LuaErr (LStr ''type not supported''))))))"

section \<open>Reading and generating keys\<close>

definition l_read_raw :: "lua_conv \<Rightarrow> lua_value list \<Rightarrow> lua_value list binding" where
  "l_read_raw conv args =
     obind (check_int conv args 1) (\<lambda>type.
     let priv = lua_toboolean (lua_arg args 2);
         f = (if priv then ''EVP_PKEY_new_raw_private_key'' else ''EVP_PKEY_new_raw_public_key'')
     in obind (check_str conv args 3) (\<lambda>raw.
        obind (create PkeyObj f [LInt (to_int type), LStr raw] []) (\<lambda>pkey.
        case pkey of None \<Rightarrow> openssl_failure f | Some pkey \<Rightarrow>
        obind (push_evp_pkey pkey) (\<lambda>v. ret [v]))))"

text \<open>
  The password callback that OpenSSL calls with a buffer of \<open>size\<close> bytes: its return value and the bytes
  it copies into the buffer.
\<close>

definition pem_password_cb :: "string \<Rightarrow> int \<Rightarrow> int \<times> string" where
  "pem_password_cb pass sz =
     (if sz < 0 \<or> nat sz < length pass then (- 1, []) else (int (length pass), pass))"

definition l_read_pem :: "lua_conv \<Rightarrow> lua_value list \<Rightarrow> lua_value list binding" where
  "l_read_pem conv args =
     obind (check_str conv args 1) (\<lambda>key.
     let priv = lua_toboolean (lua_arg args 2);
         f = (if priv then ''PEM_read_bio_PrivateKey'' else ''PEM_read_bio_PUBKEY'')
     in obind (opt_str conv args 3) (\<lambda>pass.
        obind (create BioObj ''BIO_new_mem_buf'' [LStr key] []) (\<lambda>bio.
        case bio of None \<Rightarrow> openssl_failure ''BIO_new_mem_buf'' | Some bio \<Rightarrow>
        obind (create PkeyObj f [case pass of None \<Rightarrow> LStr [] | Some p \<Rightarrow> LStr p] [bio]) (\<lambda>pkey.
        obind (release ''BIO_free_all'' bio) (\<lambda>_.
        case pkey of None \<Rightarrow> openssl_failure f | Some pkey \<Rightarrow>
        obind (push_evp_pkey pkey) (\<lambda>v. ret [v]))))))"

definition gen_arguments :: "lua_conv \<Rightarrow> string \<Rightarrow> lua_value list \<Rightarrow> lua_value list binding" where
  "gen_arguments conv type args =
     (if type = ''RSA'' then obind (check_int conv args 2) (\<lambda>size. ret [LStr type, LInt (size mod 2 ^ 64)])
      else if type = ''EC'' then obind (check_cstr conv args 2) (\<lambda>curve. ret [LStr type, LStr curve])
      else if type = ''X25519'' \<or> type = ''X448'' \<or> type = ''ED25519'' \<or> type = ''ED448'' \<or> type = ''SM2''
      then ret [LStr type]
      else throw (LuaErr (LStr ''Unknown key type'')))"

definition l_gen_pkey :: "lua_conv \<Rightarrow> lua_value list \<Rightarrow> lua_value list binding" where
  "l_gen_pkey conv args =
     obind (check_cstr conv args 1) (\<lambda>type.
     obind (gen_arguments conv type args) (\<lambda>vals.
     obind (create PkeyObj ''EVP_PKEY_Q_keygen'' vals []) (\<lambda>pkey.
     case pkey of None \<Rightarrow> openssl_failure ''EVP_PKEY_Q_keygen'' | Some pkey \<Rightarrow>
     obind (push_evp_pkey pkey) (\<lambda>v. ret [v]))))"

definition OSSL_STORE_INFO_PUBKEY :: int where "OSSL_STORE_INFO_PUBKEY = 3"
definition OSSL_STORE_INFO_PKEY :: int where "OSSL_STORE_INFO_PKEY = 4"

text \<open>The loop over the types of the entries of an open store, which end with a null entry.\<close>

fun load_keys :: "bool \<Rightarrow> object \<Rightarrow> (string \<times> int \<times> string) list \<Rightarrow> object option binding" where
  "load_keys priv store [] = obind (call ''OSSL_STORE_load'' [] [store]) (\<lambda>_. ret None)"
| "load_keys priv store ((_, ty, _) # entries) =
     obind (call ''OSSL_STORE_load'' [] [store]) (\<lambda>_.
     obind (receive StoreInfo ''OSSL_STORE_INFO'') (\<lambda>info.
     obind (call ''OSSL_STORE_INFO_get_type'' [] [info]) (\<lambda>_.
     obind (if priv \<and> OSSL_STORE_INFO_PKEY = ty then create PkeyObj ''OSSL_STORE_INFO_get1_PKEY'' [] [info]
            else if \<not> priv \<and> OSSL_STORE_INFO_PUBKEY = ty then create PkeyObj ''OSSL_STORE_INFO_get1_PUBKEY'' [] [info]
            else ret None) (\<lambda>pkey.
     obind (release ''OSSL_STORE_INFO_free'' info) (\<lambda>_.
     case pkey of Some k \<Rightarrow> ret (Some k) | None \<Rightarrow> load_keys priv store entries)))))"

definition l_pkey_from_store :: "lua_conv \<Rightarrow> lua_value list \<Rightarrow> lua_value list binding" where
  "l_pkey_from_store conv args =
     obind (check_cstr conv args 1) (\<lambda>key_name.
     let priv = lua_toboolean (lua_arg args 2)
     in obind (opt_str conv args 3) (\<lambda>pass.
        obind (create UiMethod ''UI_UTIL_wrap_read_pem_callback'' [] []) (\<lambda>ui_method.
        obind (call ''OSSL_STORE_open'' [LStr key_name, case pass of None \<Rightarrow> LStr [] | Some p \<Rightarrow> LStr p]
                 (case ui_method of None \<Rightarrow> [] | Some ui \<Rightarrow> [ui])) (\<lambda>r.
        if oc_rc r = 0
        then obind (release_opt ''UI_destroy_method'' ui_method) (\<lambda>_. openssl_failure ''OSSL_STORE_open'') else
        obind (receive StoreObj ''OSSL_STORE_CTX'') (\<lambda>store.
        obind (load_keys priv store (oc_items r)) (\<lambda>pkey.
        obind (release ''OSSL_STORE_close'' store) (\<lambda>_.
        obind (release_opt ''UI_destroy_method'' ui_method) (\<lambda>_.
        case pkey of None \<Rightarrow> throw (LuaErr (LStr ''key not found'')) | Some pkey \<Rightarrow>
        obind (push_evp_pkey pkey) (\<lambda>v. ret [v])))))))))"

section \<open>Ownership\<close>

lemma leaves_failure [safe_intros]: "(\<And>e. Q (Inl e) tmp) \<Longrightarrow> leaves Q mem known tmp (openssl_failure f)"
  by (simp add: openssl_failure_def leaves_call leaves_throw)

lemma failure_bind [simp]: "obind (openssl_failure f) k = openssl_failure f"
  by (simp add: openssl_failure_def)

lemmas pkey_helper_defs = argument_defs check_digest_def push_digest_def check_pkey_def push_evp_pkey_def
  free_fail_def bio_result_def set_param_with_def gen_arguments_def

lemma safe_load_keys [safe_intros]:
  assumes "store \<in> set tmp" "safe mem known tmp (k None)"
    "\<And>h. safe mem known ((h, PkeyObj) # tmp) (k (Some (h, PkeyObj)))"
  shows "safe mem known tmp (obind (load_keys priv store entries) k)"
  using assms by (induction entries) (auto intro!: safe_intros)

lemma safe_export_params [safe_intros]:
  assumes "\<And>known t. safe mem known tmp (k t)"
  shows "safe mem known tmp (obind (export_params ps t) k)"
  using assms by (induction ps t arbitrary: known rule: export_params.induct) (auto intro!: safe_intros)

lemma safe_digest:
  "safe mem {} [] (digest_digest conv args)" "safe mem {} [] (digest_hmac conv args)"
  "safe mem {} [] (digest_size args)" "safe mem {} [] (digest_pbkdf2 conv args)"
  "safe mem {} [] (l_get_digest conv args)" "safe mem {} [] (l_rand conv args)"
  by (auto simp: digest_digest_def digest_hmac_def digest_size_def digest_pbkdf2_def l_get_digest_def l_rand_def
      pkey_helper_defs Let_def intro!: safe_intros)

lemma safe_pkey_sign: "safe mem {} [] (pkey_sign conv args)"
  by (auto simp: pkey_sign_def pkey_helper_defs intro!: safe_intros)

lemma safe_pkey_decrypt: "safe mem {} [] (pkey_decrypt conv args)"
  by (auto simp: pkey_decrypt_def pkey_helper_defs intro!: safe_intros)

lemma safe_pkey_derive: "safe mem {} [] (pkey_derive args)"
  by (auto simp: pkey_derive_def pkey_helper_defs intro!: safe_intros)

lemma safe_pkey_pem:
  "safe mem {} [] (pkey_to_private_pem conv args)" "safe mem {} [] (pkey_to_public_pem args)"
  by (auto simp: pkey_to_private_pem_def pkey_to_public_pem_def pkey_helper_defs intro!: safe_intros)

lemma safe_pkey_params: "safe mem {} [] (pkey_export args)" "safe mem {} [] (pkey_set_param conv args)"
  by (auto simp: pkey_export_def pkey_set_param_def pkey_helper_defs intro!: safe_intros)

lemma safe_pkey_read:
  "safe mem {} [] (l_read_raw conv args)" "safe mem {} [] (l_read_pem conv args)"
  by (auto simp: l_read_raw_def l_read_pem_def pkey_helper_defs Let_def intro!: safe_intros)

lemma safe_pkey_gen: "safe mem {} [] (l_gen_pkey conv args)"
  by (auto simp: l_gen_pkey_def pkey_helper_defs intro!: safe_intros)

lemma safe_pkey_store: "safe mem {} [] (l_pkey_from_store conv args)"
  by (auto simp: l_pkey_from_store_def pkey_helper_defs Let_def intro!: safe_intros)

lemma safe_pkey_gc: "safe mem {} [] (pkey_gc args)"
  unfolding pkey_gc_def by (rule safe_gc) simp

section \<open>Exclusive or\<close>

lemma uint8_NUL: "uint8 NUL = 0"
  by (simp add: uint8_def)

lemma xor_char_simps [simp]: "xor_char (xor_char a b) b = a" "xor_char a NUL = a"
  by (simp_all add: xor_char_def xor.assoc uint8_NUL)

text \<open>
  the exclusive or of two strings is that of their bytes with the shorter one padded with zero bytes,
  whatever their lengths, and applying it again with the same second string gives the first back.
\<close>

theorem xor_padded:
  assumes "check_string_view conv args 1 = Inr a" "check_string_view conv args 2 = Inr b"
  shows "\<exists>r. l_xor conv args = Inr [LStr r] \<and> length r = max (length a) (length b) \<and>
    (\<forall>i < length r. r ! i = xor_char (if i < length a then a ! i else NUL) (if i < length b then b ! i else NUL)) \<and>
    (length b \<le> length a \<longrightarrow> l_xor plain_conv [LStr r, LStr b] = Inr [LStr a])"
proof -
  define f where "f a b = (let lc = min (length a) (length b)
    in List.map2 xor_char (take lc a) (take lc b) @ (if length a < length b then drop lc b else drop lc a))" for a b
  have sym: "xor_char NUL c = c" for c by (simp add: xor_char_def uint8_NUL)
  have len: "length (f a b) = max (length a) (length b)" for a b by (auto simp: f_def Let_def)
  have nth: "f a b ! i = xor_char (if i < length a then a ! i else NUL) (if i < length b then b ! i else NUL)"
    if "i < max (length a) (length b)" for a b i
    using that by (auto simp: f_def Let_def nth_append sym)
  have "f (f a b) b = a" if "length b \<le> length a"
    by (rule nth_equalityI) (use that len [of a b] in \<open>auto simp: len nth max_def\<close>)
  moreover have "l_xor conv args = Inr [LStr (f a b)]" using assms by (simp add: l_xor_def f_def Let_def)
  moreover have "l_xor plain_conv [LStr x, LStr y] = Inr [LStr (f x y)]" for x y
    by (simp add: l_xor_def f_def Let_def check_string_view_def lua_arg_def plain_conv_def)
  ultimately show ?thesis using len [of a b] nth by (intro exI [of _ "f a b"]) simp
qed

lemma xor_padded_witness:
  "\<exists>r. l_xor plain_conv [LStr ''abc'', LStr ''k''] = Inr [LStr r] \<and> l_xor plain_conv [LStr r, LStr ''k''] = Inr [LStr ''abc'']"
  using xor_padded [of plain_conv "[LStr ''abc'', LStr ''k'']" "''abc''" "''k''"]
  by (auto simp: check_string_view_def lua_arg_def plain_conv_def)

section \<open>Sizes\<close>

text \<open>
  Whatever size OpenSSL passes, the password callback never copies more bytes than fit; a password that
  does not fit is an error, not a truncated one.
\<close>

lemma pem_password_fits:
  "case pem_password_cb pass sz of (n, copied) \<Rightarrow>
     int (length copied) \<le> max 0 sz \<and> (n = - 1 \<and> copied = [] \<or> n = int (length copied) \<and> copied = pass)"
  by (auto simp: pem_password_cb_def)

text \<open>
  The number of bytes asked of \<open>RAND_bytes\<close> is the low 32 bits of the length of the result, so from 2 GiB
  on a part of the result is whatever the buffer held.
\<close>

lemma rand_length_truncated: "to_int n = n \<longleftrightarrow> - (2 ^ 31) \<le> n \<and> n < 2 ^ 31"
  unfolding to_int_def by (simp add: signed_of_int signed_take_bit_int_eq_self_iff)

end
