(* ===== verification/Certificates.thy ===== *)
theory Certificates
  imports Pkey
begin

text \<open>
  \<open>myopenssl/x509.cpp\<close>: certificates, and the tables of all bindings of OpenSSL, which keep its objects
  owned by userdata.
\<close>

definition check_x509 :: "lua_value list \<Rightarrow> nat \<Rightarrow> object binding" where
  "check_x509 args n = check_object CertObj ''x509 already closed'' args n"

definition push_x509 :: "object \<Rightarrow> lua_value binding" where
  "push_x509 x509 = push_box CertObj x509"

definition x509_gc :: "lua_value list \<Rightarrow> lua_value list binding" where
  "x509_gc args = gc_box CertObj ''X509_free'' args"

section \<open>Conversions\<close>

definition to_ASN1_TIME :: "string \<Rightarrow> object binding" where
  "to_ASN1_TIME str =
     obind (create_unchecked AsnTime ''ASN1_TIME_new'' not_null []) (\<lambda>(_, asnTime).
     obind (call ''ASN1_TIME_set_string_X509'' [LStr str] [asnTime]) (\<lambda>r.
       if oc_rc r = 0 then free_fail ''ASN1_TIME_free'' asnTime ''ASN1_TIME_set_string_X509'' else ret asnTime))"

text \<open>
  The loop over the entries of the table, in Lua's order; \<open>luaL_tolstring\<close> gives a text for every key or
  raises the error of a metamethod, which nobody catches here, \<open>lua_tolstring\<close> gives none for a value that
  is no string or number.  The result of adding an entry is not looked at.
\<close>

fun name_entries :: "lua_conv \<Rightarrow> object \<Rightarrow> (lua_value \<times> lua_value) list \<Rightarrow> bool binding" where
  "name_entries conv name [] = ret True"
| "name_entries conv name ((k, v) # es) =
     obind (luaL_tolstring k) (\<lambda>field.
     case lua_tostr conv v of
       None \<Rightarrow> ret False
     | Some val \<Rightarrow>
         obind (call ''X509_NAME_add_entry_by_txt'' [LStr (c_str field), LStr val] [name]) (\<lambda>_.
           name_entries conv name es))"

definition to_X509_NAME :: "lua_conv \<Rightarrow> (lua_value \<times> lua_value) list \<Rightarrow> object binding" where
  "to_X509_NAME conv es =
     obind (create_unchecked NameObj ''X509_NAME_new'' not_null []) (\<lambda>(_, name).
     obind (name_entries conv name es) (\<lambda>ok.
       if ok then ret name
       else obind (release ''X509_NAME_free'' name) (\<lambda>_. throw (LuaErr (LStr ''bad name'')))))"

datatype KeyUsage =
    DigitalSignature | ContentCommitment | KeyEncipherment | DataEncipherment | KeyAgreement | KeyCertSign
  | CRLSign | EncipherOnly | DecipherOnly

fun usage_bit :: "KeyUsage \<Rightarrow> int" where
  "usage_bit DigitalSignature = 0"
| "usage_bit ContentCommitment = 1"
| "usage_bit KeyEncipherment = 2"
| "usage_bit DataEncipherment = 3"
| "usage_bit KeyAgreement = 4"
| "usage_bit KeyCertSign = 5"
| "usage_bit CRLSign = 6"
| "usage_bit EncipherOnly = 7"
| "usage_bit DecipherOnly = 8"

fun set_usage_bits :: "object \<Rightarrow> KeyUsage list \<Rightarrow> bool binding" where
  "set_usage_bits usage [] = ret True"
| "set_usage_bits usage (i # flags) =
     obind (call ''ASN1_BIT_STRING_set_bit'' [LInt (usage_bit i), LInt 1] [usage]) (\<lambda>r.
       if oc_rc r \<noteq> 1 then ret False else set_usage_bits usage flags)"

text \<open>Adding an extension: name, criticality, and the temporary object freed before the result is looked at.\<close>

definition add_extension :: "object \<Rightarrow> string \<Rightarrow> int \<Rightarrow> string \<Rightarrow> object \<Rightarrow> unit binding" where
  "add_extension x509 nid crit free obj =
     obind (call ''X509_add1_ext_i2d'' [LStr nid, LInt crit] [x509, obj]) (\<lambda>r.
     obind (release free obj) (\<lambda>_.
       if oc_rc r \<noteq> 1 then openssl_failure ''X509_add1_ext_i2d'' else ret ()))"

definition add_key_usage :: "object \<Rightarrow> KeyUsage list \<Rightarrow> unit binding" where
  "add_key_usage x509 flags =
     obind (create BitString ''ASN1_BIT_STRING_new'' [] []) (\<lambda>usage.
     case usage of None \<Rightarrow> openssl_failure ''ASN1_BIT_STRING_new'' | Some usage \<Rightarrow>
     obind (set_usage_bits usage flags) (\<lambda>ok.
       if \<not> ok then free_fail ''ASN1_BIT_STRING_free'' usage ''ASN1_BIT_STRING_set_bit''
       else add_extension x509 ''NID_key_usage'' 1 ''ASN1_BIT_STRING_free'' usage))"

definition add_extended_key_usage :: "object \<Rightarrow> string \<Rightarrow> unit binding" where
  "add_extended_key_usage x509 nid =
     obind (create ExtKeyUsage ''EXTENDED_KEY_USAGE_new'' [] []) (\<lambda>usage.
     case usage of None \<Rightarrow> openssl_failure ''EXTENDED_KEY_USAGE_new'' | Some usage \<Rightarrow>
     obind (call ''sk_ASN1_OBJECT_push'' [LStr nid] [usage]) (\<lambda>r.
       if oc_rc r \<noteq> 1 then free_fail ''EXTENDED_KEY_USAGE_free'' usage ''sk_ASN1_OBJECT_push''
       else add_extension x509 ''NID_ext_key_usage'' 1 ''EXTENDED_KEY_USAGE_free'' usage))"

section \<open>Methods\<close>

definition fail_if :: "bool \<Rightarrow> string \<Rightarrow> lua_value list binding" where
  "fail_if b f = (if b then openssl_failure f else ret [])"

definition x509_set_version :: "lua_conv \<Rightarrow> lua_value list \<Rightarrow> lua_value list binding" where
  "x509_set_version conv args =
     obind (check_x509 args 1) (\<lambda>x509.
     obind (check_int conv args 2) (\<lambda>version.
     obind (call ''X509_set_version'' [LInt version] [x509]) (\<lambda>r. fail_if (oc_rc r = 0) ''X509_set_version'')))"

definition x509_set_pubkey :: "lua_value list \<Rightarrow> lua_value list binding" where
  "x509_set_pubkey args =
     obind (check_x509 args 1) (\<lambda>x509.
     obind (check_pkey args 2) (\<lambda>pkey.
     obind (call ''X509_set_pubkey'' [] [x509, pkey]) (\<lambda>r. fail_if (oc_rc r = 0) ''X509_set_pubkey'')))"

definition x509_get_pubkey :: "lua_value list \<Rightarrow> lua_value list binding" where
  "x509_get_pubkey args =
     obind (check_x509 args 1) (\<lambda>x509.
     obind (create PkeyObj ''X509_get_pubkey'' [] [x509]) (\<lambda>pkey.
     case pkey of None \<Rightarrow> openssl_failure ''X509_get_pubkey'' | Some pkey \<Rightarrow>
     obind (push_evp_pkey pkey) (\<lambda>v. ret [v])))"

definition x509_sign :: "lua_value list \<Rightarrow> lua_value list binding" where
  "x509_sign args =
     obind (check_x509 args 1) (\<lambda>x509.
     obind (check_pkey args 2) (\<lambda>pkey.
     obind (if noneornil args 3 then ret LNil else obind (check_digest args 3) (\<lambda>md. ret (LRef md))) (\<lambda>md.
     obind (call ''X509_sign'' [md] [x509, pkey]) (\<lambda>r. fail_if (oc_rc r = 0) ''X509_sign''))))"

definition x509_fingerprint :: "lua_value list \<Rightarrow> lua_value list binding" where
  "x509_fingerprint args =
     obind (check_x509 args 1) (\<lambda>x509.
     obind (check_digest args 2) (\<lambda>md.
     obind (call ''EVP_MD_get_size'' [LRef md] []) (\<lambda>len.
     obind (luaL_buffinitsize (oc_rc len mod 2 ^ 32)) (\<lambda>_.
     obind (call ''X509_digest'' [LRef md] [x509]) (\<lambda>r.
       if oc_rc r = 0 then openssl_failure ''X509_digest'' else ret [buffer_bytes (oc_len r) r])))))"

definition x509_export :: "lua_value list \<Rightarrow> lua_value list binding" where
  "x509_export args =
     obind (check_x509 args 1) (\<lambda>x509.
     obind (create BioObj ''BIO_new'' [] []) (\<lambda>bio.
     case bio of None \<Rightarrow> openssl_failure ''BIO_new'' | Some bio \<Rightarrow>
     obind (call ''PEM_write_bio_X509'' [] [bio, x509]) (\<lambda>r.
     if oc_rc r = 0 then free_fail ''BIO_free_all'' bio ''PEM_write_bio_X509'' else bio_result bio)))"

definition x509_set_serialNumber :: "lua_conv \<Rightarrow> lua_value list \<Rightarrow> lua_value list binding" where
  "x509_set_serialNumber conv args =
     obind (check_x509 args 1) (\<lambda>x509.
     obind (check_int conv args 2) (\<lambda>number.
     obind (create_unchecked AsnInteger ''ASN1_INTEGER_new'' not_null []) (\<lambda>(_, asnNumber).
     obind (call ''ASN1_INTEGER_set_int64'' [LInt number] [asnNumber]) (\<lambda>_.
     obind (call ''X509_set_serialNumber'' [] [x509, asnNumber]) (\<lambda>r.
     obind (release ''ASN1_INTEGER_free'' asnNumber) (\<lambda>_. fail_if (oc_rc r = 0) ''X509_set_serialNumber''))))))"

text \<open>\<open>set_notBefore\<close> and \<open>set_notAfter\<close> differ in the function they call; so do the two names below.\<close>

definition x509_set_time :: "string \<Rightarrow> lua_conv \<Rightarrow> lua_value list \<Rightarrow> lua_value list binding" where
  "x509_set_time f conv args =
     obind (check_x509 args 1) (\<lambda>x509.
     obind (check_cstr conv args 2) (\<lambda>timeStr.
     obind (to_ASN1_TIME timeStr) (\<lambda>asnTime.
     obind (call f [] [x509, asnTime]) (\<lambda>r.
     obind (release ''ASN1_TIME_free'' asnTime) (\<lambda>_. fail_if (oc_rc r = 0) f)))))"

definition x509_set_notBefore :: "lua_conv \<Rightarrow> lua_value list \<Rightarrow> lua_value list binding" where
  "x509_set_notBefore = x509_set_time ''X509_set1_notBefore''"

definition x509_set_notAfter :: "lua_conv \<Rightarrow> lua_value list \<Rightarrow> lua_value list binding" where
  "x509_set_notAfter = x509_set_time ''X509_set1_notAfter''"

definition check_table :: "lua_value list \<Rightarrow> nat \<Rightarrow> (lua_value \<times> lua_value) list binding" where
  "check_table args n =
     (case lua_arg args n of Some (LTable es) \<Rightarrow> ret es | _ \<Rightarrow> throw (BadArg n ''table expected''))"

definition x509_set_name :: "string \<Rightarrow> lua_conv \<Rightarrow> lua_value list \<Rightarrow> lua_value list binding" where
  "x509_set_name f conv args =
     obind (check_x509 args 1) (\<lambda>x509.
     obind (check_table args 2) (\<lambda>es.
     obind (to_X509_NAME conv es) (\<lambda>name.
     obind (call f [] [x509, name]) (\<lambda>r.
     obind (release ''X509_NAME_free'' name) (\<lambda>_. fail_if (oc_rc r = 0) f)))))"

definition x509_set_issuerName :: "lua_conv \<Rightarrow> lua_value list \<Rightarrow> lua_value list binding" where
  "x509_set_issuerName = x509_set_name ''X509_set_issuer_name''"

definition x509_set_subjectName :: "lua_conv \<Rightarrow> lua_value list \<Rightarrow> lua_value list binding" where
  "x509_set_subjectName = x509_set_name ''X509_set_subject_name''"

text \<open>
  The loop of \<open>get_subjectName\<close>: the name and its entries are internal pointers of the certificate, the
  converted text is a new object each time, its length the result of the conversion.  When that is
  negative there is no text, but a string is made of it all the same.
\<close>

fun subject_entries :: "object \<Rightarrow> nat \<Rightarrow> (lua_value \<times> lua_value) list \<Rightarrow> lua_value list binding" where
  "subject_entries x509 0 t = ret [LTable t]"
| "subject_entries x509 (Suc n) t =
     obind (call ''X509_NAME_get_entry'' [] [x509]) (\<lambda>_.
     obind (create_unchecked Utf8Str ''ASN1_STRING_to_UTF8'' (\<lambda>r. 0 \<le> oc_rc r) [x509]) (\<lambda>(text, utf8).
     obind (call ''lua_pushlstring'' [LInt (oc_rc text)] [utf8]) (\<lambda>_.
     obind (call ''OBJ_nid2sn'' [] [x509]) (\<lambda>r.
     obind (release ''OPENSSL_free'' utf8) (\<lambda>_.
       subject_entries x509 n (AList.update (LStr (oc_out r)) (buffer_bytes (oc_rc text) text) t))))))"

definition x509_get_subjectName :: "lua_value list \<Rightarrow> lua_value list binding" where
  "x509_get_subjectName args =
     obind (check_x509 args 1) (\<lambda>x509.
     obind (call ''X509_get_subject_name'' [] [x509]) (\<lambda>r.
     if oc_rc r = 0 then openssl_failure ''X509_get_subject_name'' else
     obind (call ''X509_NAME_entry_count'' [] [x509]) (\<lambda>r.
     if oc_rc r = 0 then openssl_failure ''X509_NAME_entry_count'' else
     subject_entries x509 (nat (oc_rc r)) [])))"

definition x509_add_caConstraint :: "lua_value list \<Rightarrow> lua_value list binding" where
  "x509_add_caConstraint args =
     obind (check_x509 args 1) (\<lambda>x509.
     let cA = lua_toboolean (lua_arg args 2)
     in obind (call ''X509_add1_ext_i2d'' [LStr ''NID_basic_constraints'', LBool cA, LInt 1] [x509]) (\<lambda>r.
        fail_if (oc_rc r \<noteq> 1) ''X509_add1_ext_i2d''))"

definition x509_add_clientUsageConstraint :: "lua_value list \<Rightarrow> lua_value list binding" where
  "x509_add_clientUsageConstraint args =
     obind (check_x509 args 1) (\<lambda>x509.
     obind (add_key_usage x509 [DigitalSignature, KeyAgreement]) (\<lambda>_.
     obind (add_extended_key_usage x509 ''NID_client_auth'') (\<lambda>_. ret [])))"

definition x509_add_serverUsageConstraint :: "lua_value list \<Rightarrow> lua_value list binding" where
  "x509_add_serverUsageConstraint args =
     obind (check_x509 args 1) (\<lambda>x509.
     obind (add_key_usage x509 [DigitalSignature, KeyEncipherment, KeyAgreement]) (\<lambda>_.
     obind (add_extended_key_usage x509 ''NID_server_auth'') (\<lambda>_. ret [])))"

definition add_key_identifier :: "string \<Rightarrow> lua_conv \<Rightarrow> lua_value list \<Rightarrow> lua_value list binding" where
  "add_key_identifier nid conv args =
     obind (check_x509 args 1) (\<lambda>x509.
     obind (check_str conv args 2) (\<lambda>bytes.
     obind (create OctetString ''ASN1_OCTET_STRING_new'' [] []) (\<lambda>key_identifier.
     case key_identifier of None \<Rightarrow> openssl_failure ''ASN1_OCTET_STRING_new'' | Some key_identifier \<Rightarrow>
     obind (call ''ASN1_OCTET_STRING_set'' [LStr bytes] [key_identifier]) (\<lambda>r.
     if oc_rc r = 0 then free_fail ''ASN1_OCTET_STRING_free'' key_identifier ''ASN1_OCTET_STRING_set'' else
     obind (add_extension x509 nid 0 ''ASN1_OCTET_STRING_free'' key_identifier) (\<lambda>_. ret [])))))"

definition x509_add_subjectKeyIdentifier :: "lua_conv \<Rightarrow> lua_value list \<Rightarrow> lua_value list binding" where
  "x509_add_subjectKeyIdentifier = add_key_identifier ''NID_subject_key_identifier''"

definition x509_add_authorityKeyIdentifier :: "lua_conv \<Rightarrow> lua_value list \<Rightarrow> lua_value list binding" where
  "x509_add_authorityKeyIdentifier = add_key_identifier ''NID_authority_key_identifier''"

definition l_new_x509 :: "lua_value list binding" where
  "l_new_x509 =
     obind (create CertObj ''X509_new'' [] []) (\<lambda>x509.
     case x509 of Some x509 \<Rightarrow> obind (push_x509 x509) (\<lambda>v. ret [v]) | None \<Rightarrow> openssl_failure ''X509_new'')"

definition l_read_x509 :: "lua_conv \<Rightarrow> lua_value list \<Rightarrow> lua_value list binding" where
  "l_read_x509 conv args =
     obind (check_str conv args 1) (\<lambda>key.
     obind (opt_str conv args 2) (\<lambda>pass.
     obind (create BioObj ''BIO_new_mem_buf'' [LStr key] []) (\<lambda>bio.
     case bio of None \<Rightarrow> openssl_failure ''BIO_new_mem_buf'' | Some bio \<Rightarrow>
     obind (create CertObj ''PEM_read_bio_X509'' [case pass of None \<Rightarrow> LStr [] | Some p \<Rightarrow> LStr p] [bio]) (\<lambda>x509.
     obind (release ''BIO_free_all'' bio) (\<lambda>_.
     case x509 of None \<Rightarrow> openssl_failure ''PEM_read_bio_X509'' | Some x509 \<Rightarrow>
     obind (push_x509 x509) (\<lambda>v. ret [v]))))))"

section \<open>Ownership\<close>

lemma safe_set_usage_bits [safe_intros]:
  assumes "usage \<in> known \<union> set tmp" "\<And>b. safe mem known tmp (k b)"
  shows "safe mem known tmp (obind (set_usage_bits usage flags) k)"
  using assms by (induction flags) (auto intro!: safe_intros)

lemma safe_name_entries [safe_intros]:
  assumes "\<And>b. safe mem known [(h, NameObj)] (k b)"
  shows "safe mem known [(h, NameObj)] (obind (name_entries conv (h, NameObj) es) k)"
  using assms by (induction es) (auto intro!: safe_intros)

lemma safe_subject_entries [safe_intros]:
  "x509 \<in> known \<Longrightarrow> safe mem known [] (subject_entries x509 n t)"
  by (induction n arbitrary: t) (auto intro!: safe_intros)

lemma safe_check_table [safe_intros]:
  "(\<And>es. safe mem known [] (k es)) \<Longrightarrow> safe mem known [] (obind (check_table args n) k)"
  by (auto simp: check_table_def intro!: safe_intros split: option.split lua_value.split)

lemmas x509_helper_defs = pkey_helper_defs check_x509_def push_x509_def to_ASN1_TIME_def to_X509_NAME_def
  add_extension_def add_key_usage_def add_extended_key_usage_def fail_if_def

lemma safe_x509_fields:
  "safe mem {} [] (x509_set_version conv args)" "safe mem {} [] (x509_set_pubkey args)"
  "safe mem {} [] (x509_get_pubkey args)" "safe mem {} [] (x509_fingerprint args)" "safe mem {} [] (x509_export args)"
  by (auto simp: x509_set_version_def x509_set_pubkey_def x509_get_pubkey_def x509_fingerprint_def
      x509_export_def x509_helper_defs intro!: safe_intros)

lemma safe_x509_sign: "safe mem {} [] (x509_sign args)"
  by (auto simp: x509_sign_def x509_helper_defs intro!: safe_intros)

lemma safe_x509_serial: "safe mem {} [] (x509_set_serialNumber conv args)"
  by (auto simp: x509_set_serialNumber_def x509_helper_defs intro!: safe_intros)

lemma safe_x509_time: "safe mem {} [] (x509_set_time f conv args)"
  by (auto simp: x509_set_time_def x509_helper_defs intro!: safe_intros)

lemma safe_x509_name: "safe mem {} [] (x509_set_name f conv args)"
  by (auto simp: x509_set_name_def x509_helper_defs intro!: safe_intros)

lemma safe_x509_subject: "safe mem {} [] (x509_get_subjectName args)"
  by (auto simp: x509_get_subjectName_def x509_helper_defs intro!: safe_intros)

lemma safe_x509_ca: "safe mem {} [] (x509_add_caConstraint args)"
  by (auto simp: x509_add_caConstraint_def x509_helper_defs Let_def intro!: safe_intros)

lemma safe_x509_usage:
  "safe mem {} [] (x509_add_clientUsageConstraint args)" "safe mem {} [] (x509_add_serverUsageConstraint args)"
  by (auto simp: x509_add_clientUsageConstraint_def x509_add_serverUsageConstraint_def x509_helper_defs
      simp del: set_usage_bits.simps intro!: safe_intros)

lemma safe_x509_key_identifier: "safe mem {} [] (add_key_identifier nid conv args)"
  by (auto simp: add_key_identifier_def x509_helper_defs intro!: safe_intros)

lemma safe_x509_new: "safe mem {} [] l_new_x509" "safe mem {} [] (l_read_x509 conv args)"
  by (auto simp: l_new_x509_def l_read_x509_def x509_helper_defs intro!: safe_intros)

lemma safe_x509_gc: "safe mem {} [] (x509_gc args)"
  unfolding x509_gc_def by (rule safe_gc) simp

section \<open>All bindings\<close>

text \<open>The registration tables, the bignum functions (a component of their own) left out.\<close>

definition DigestMethods :: "lua_conv \<Rightarrow> binding_table" where
  "DigestMethods conv =
     [(''digest'', digest_digest conv), (''hmac'', digest_hmac conv), (''size'', digest_size),
      (''pbkdf2'', digest_pbkdf2 conv)]"

definition PkeyMethods :: "lua_conv \<Rightarrow> binding_table" where
  "PkeyMethods conv =
     [(''__gc'', pkey_gc), (''__close'', pkey_gc), (''sign'', pkey_sign conv), (''decrypt'', pkey_decrypt conv),
      (''derive'', pkey_derive), (''to_private_pem'', pkey_to_private_pem conv),
      (''to_public_pem'', pkey_to_public_pem), (''export'', pkey_export), (''set_param'', pkey_set_param conv)]"

definition X509Methods :: "lua_conv \<Rightarrow> binding_table" where
  "X509Methods conv =
     [(''__gc'', x509_gc), (''__close'', x509_gc), (''set_version'', x509_set_version conv),
      (''set_pubkey'', x509_set_pubkey), (''get_pubkey'', x509_get_pubkey), (''sign'', x509_sign),
      (''fingerprint'', x509_fingerprint), (''export'', x509_export),
      (''set_serialNumber'', x509_set_serialNumber conv), (''set_notBefore'', x509_set_notBefore conv),
      (''set_notAfter'', x509_set_notAfter conv), (''set_issuerName'', x509_set_issuerName conv),
      (''set_subjectName'', x509_set_subjectName conv), (''get_subjectName'', x509_get_subjectName),
      (''add_caConstraint'', x509_add_caConstraint), (''add_clientUsageConstraint'', x509_add_clientUsageConstraint),
      (''add_serverUsageConstraint'', x509_add_serverUsageConstraint),
      (''add_subjectKeyIdentifier'', x509_add_subjectKeyIdentifier conv),
      (''add_authorityKeyIdentifier'', x509_add_authorityKeyIdentifier conv)]"

definition openssl_LIB :: "lua_conv \<Rightarrow> binding_table" where
  "openssl_LIB conv =
     [(''get_digest'', l_get_digest conv), (''read_raw'', l_read_raw conv), (''read_pem'', l_read_pem conv),
      (''gen_pkey'', l_gen_pkey conv), (''new_x509'', \<lambda>_. l_new_x509), (''read_x509'', l_read_x509 conv),
      (''pkey_from_store'', l_pkey_from_store conv), (''rand'', l_rand conv),
      (''xor'', \<lambda>args. lift (l_xor conv args))]"

datatype metatable = LIB | Digest_MT | Pkey_MT | X509_MT

fun methods :: "lua_conv \<Rightarrow> metatable \<Rightarrow> binding_table" where
  "methods conv LIB = openssl_LIB conv"
| "methods conv Digest_MT = DigestMethods conv"
| "methods conv Pkey_MT = PkeyMethods conv"
| "methods conv X509_MT = X509Methods conv"

lemma safe_methods:
  assumes "(name, f) \<in> set (methods conv mt)"
  shows "safe mem {} [] (f args)"
proof (cases mt)
  case LIB
  moreover have "safe mem {} [] (lift r)" for r :: "lua_error + lua_value list"
    by (cases r) (simp_all add: lift_def leaves_ret leaves_throw)
  ultimately show ?thesis using assms safe_digest(5,6) safe_pkey_read safe_pkey_gen safe_x509_new safe_pkey_store
    by (auto simp: openssl_LIB_def)
next
  case Digest_MT
  with assms show ?thesis using safe_digest by (auto simp: DigestMethods_def)
next
  case Pkey_MT
  with assms show ?thesis
    using safe_pkey_gc safe_pkey_sign safe_pkey_decrypt safe_pkey_derive safe_pkey_pem safe_pkey_params
    by (auto simp: PkeyMethods_def)
next
  case X509_MT
  with assms show ?thesis
    using safe_x509_gc safe_x509_fields safe_x509_sign safe_x509_serial safe_x509_time safe_x509_name safe_x509_subject
      safe_x509_ca safe_x509_usage safe_x509_key_identifier
    by (auto simp: X509Methods_def x509_set_notBefore_def x509_set_notAfter_def x509_set_issuerName_def
        x509_set_subjectName_def x509_add_subjectKeyIdentifier_def x509_add_authorityKeyIdentifier_def)
qed

interpretation openssl: native_library "methods conv" for conv
  by unfold_locales (rule safe_methods)

end
