(* ===== verification/Bignum.thy ===== *)
theory Bignum
  imports LuaApi
begin

text \<open>
  \<open>myopenssl/bignum.cpp\<close>: big numbers for Lua.

  A bignum userdata is a box with an integer, empty once it has been freed.  OpenSSL's arithmetic is a
  parameter: a function from the inputs to the outputs, or a failure.  The template \<open>Wrap\<close> turns the
  parameter list of such a function into the handling of the Lua stack, which is what is modelled.
\<close>

record bn_state =
  bn_stack :: "lua_value list"
  bn_boxes :: "int option list"

definition push_bignum :: "int \<Rightarrow> bn_state \<Rightarrow> nat \<times> bn_state" where
  "push_bignum v s =
     (length (bn_boxes s),
      s\<lparr>bn_stack := bn_stack s @ [LRef (length (bn_boxes s))], bn_boxes := bn_boxes s @ [Some v]\<rparr>)"

text \<open>An empty box is reported as argument 1, whichever argument it is.\<close>

definition checkbignum :: "nat \<Rightarrow> bn_state \<Rightarrow> lua_error + nat" where
  "checkbignum idx s =
     (case lua_arg (bn_stack s) idx of
        Some (LRef i) \<Rightarrow>
          if length (bn_boxes s) \<le> i then Inl (BadArg idx ''BN* expected'')
          else if bn_boxes s ! i = None then Inl (BadArg 1 ''panic: bignum not allocated'')
          else Inr i
      | _ \<Rightarrow> Inl (BadArg idx ''BN* expected''))"

definition bn_value :: "bn_state \<Rightarrow> nat \<Rightarrow> int" where
  "bn_value s i = (case bn_boxes s ! i of Some v \<Rightarrow> v | None \<Rightarrow> 0)"

section \<open>Wrapped functions\<close>

text \<open>The parameter types \<open>Arg\<close> is specialised for: an output, an input, an int, the shared context.\<close>

datatype bn_param = BnOut | BnIn | BnInt | BnCtx

datatype bn_actual = ActOut nat | ActIn nat | ActInt int | ActCtx

text \<open>
  The tuple initialiser: the parameters in order, \<open>a\<close> counting the Lua arguments taken and \<open>r\<close> the
  results pushed.
\<close>

fun wrap_args ::
  "lua_conv \<Rightarrow> bn_param list \<Rightarrow> nat \<Rightarrow> nat \<Rightarrow> bn_state \<Rightarrow> lua_error + bn_actual list \<times> nat \<times> bn_state" where
  "wrap_args conv [] a r s = Inr ([], r, s)"
| "wrap_args conv (BnOut # ps) a r s =
     (case push_bignum 0 s of (i, s) \<Rightarrow>
        sbind (wrap_args conv ps a (r + 1) s) (\<lambda>(acts, r, s). Inr (ActOut i # acts, r, s)))"
| "wrap_args conv (BnIn # ps) a r s =
     sbind (checkbignum (a + 1) s) (\<lambda>i.
       sbind (wrap_args conv ps (a + 1) r s) (\<lambda>(acts, r, s). Inr (ActIn i # acts, r, s)))"
| "wrap_args conv (BnInt # ps) a r s =
     sbind (checkinteger conv (bn_stack s) (a + 1)) (\<lambda>n.
       sbind (wrap_args conv ps (a + 1) r s) (\<lambda>(acts, r, s). Inr (ActInt (to_int n) # acts, r, s)))"
| "wrap_args conv (BnCtx # ps) a r s =
     sbind (wrap_args conv ps a r s) (\<lambda>(acts, r, s). Inr (ActCtx # acts, r, s))"

fun inputs :: "bn_state \<Rightarrow> bn_actual list \<Rightarrow> int list" where
  "inputs s [] = []"
| "inputs s (ActIn i # acts) = bn_value s i # inputs s acts"
| "inputs s (ActInt n # acts) = n # inputs s acts"
| "inputs s (_ # acts) = inputs s acts"

fun outputs :: "bn_actual list \<Rightarrow> nat list" where
  "outputs [] = []"
| "outputs (ActOut i # acts) = i # outputs acts"
| "outputs (_ # acts) = outputs acts"

text \<open>The call: the outputs are assigned in order; the last \<open>r\<close> values of the stack are returned.\<close>

definition wrap ::
  "bn_param list \<Rightarrow> (int list \<Rightarrow> int list option) \<Rightarrow> lua_conv \<Rightarrow> bn_state \<Rightarrow> lua_error + lua_value list \<times> bn_state" where
  "wrap params op conv s =
     sbind (wrap_args conv params 0 0 s) (\<lambda>(acts, r, s).
       case op (inputs s acts) of
         None \<Rightarrow> Inl (LuaErr (LStr ''OpenSSL error in bignum failure''))
       | Some vs \<Rightarrow>
           let s = s\<lparr>bn_boxes := fold (\<lambda>(i, v) bs. bs[i := Some v]) (zip (outputs acts) vs) (bn_boxes s)\<rparr>
           in Inr (drop (length (bn_stack s) - r) (bn_stack s), s))"

text \<open>The parameter lists of the functions in the metatable and the methods.\<close>

definition BN_add_params :: "bn_param list" where "BN_add_params = [BnOut, BnIn, BnIn]"
definition BN_mul_params :: "bn_param list" where "BN_mul_params = [BnOut, BnIn, BnIn, BnCtx]"
definition BN_shift_params :: "bn_param list" where "BN_shift_params = [BnOut, BnIn, BnInt]"
definition BN_div_params :: "bn_param list" where "BN_div_params = [BnOut, BnOut, BnIn, BnIn, BnCtx]"
definition BN_mod_exp_params :: "bn_param list" where "BN_mod_exp_params = [BnOut, BnIn, BnIn, BnIn, BnCtx]"

section \<open>Methods written out\<close>

definition compare_bignum :: "int \<Rightarrow> bool \<Rightarrow> (int \<Rightarrow> int \<Rightarrow> int) \<Rightarrow> bn_state \<Rightarrow> lua_error + bool" where
  "compare_bignum X B bn_cmp s =
     sbind (checkbignum 1 s) (\<lambda>a.
     sbind (checkbignum 2 s) (\<lambda>b.
       Inr ((bn_cmp (bn_value s a) (bn_value s b) = X) = B)))"

definition bn_gc :: "bn_state \<Rightarrow> lua_error + bn_state" where
  "bn_gc s = sbind (checkbignum 1 s) (\<lambda>i. Inr (s\<lparr>bn_boxes := (bn_boxes s)[i := None]\<rparr>))"

definition bn_tostring :: "(int \<Rightarrow> string) \<Rightarrow> bn_state \<Rightarrow> lua_error + string" where
  "bn_tostring bn2dec s = sbind (checkbignum 1 s) (\<lambda>i. Inr (c_str (bn2dec (bn_value s i))))"

text \<open>\<open>__idiv\<close> and \<open>__mod\<close>.\<close>

definition bn_divide :: "(int \<Rightarrow> int \<Rightarrow> int option) \<Rightarrow> bn_state \<Rightarrow> lua_error + lua_value list \<times> bn_state" where
  "bn_divide op s =
     sbind (checkbignum 1 s) (\<lambda>a.
     sbind (checkbignum 2 s) (\<lambda>b.
       case push_bignum 0 s of (r, s) \<Rightarrow>
         (case op (bn_value s a) (bn_value s b) of
            None \<Rightarrow> Inl (LuaErr (LStr ''bignum failure''))
          | Some v \<Rightarrow> Inr ([LRef r], s\<lparr>bn_boxes := (bn_boxes s)[r := Some v]\<rparr>))))"

definition bn_unm :: "bn_state \<Rightarrow> lua_error + lua_value list \<times> bn_state" where
  "bn_unm s =
     sbind (checkbignum 1 s) (\<lambda>a.
       case push_bignum (- bn_value s a) s of (r, s) \<Rightarrow> Inr ([LRef r], s))"

definition bignum_name :: string where "bignum_name = ''BN*''"

fun luaL_typename :: "lua_value option \<Rightarrow> string" where
  "luaL_typename None = ''no value''"
| "luaL_typename (Some LNil) = ''nil''"
| "luaL_typename (Some (LBool b)) = ''boolean''"
| "luaL_typename (Some (LInt i)) = ''number''"
| "luaL_typename (Some (LFloat d)) = ''number''"
| "luaL_typename (Some (LStr s)) = ''string''"
| "luaL_typename (Some (LTable t)) = ''table''"
| "luaL_typename (Some (LRef r)) = ''userdata''"

text \<open>
  \<open>tolstr\<close> is \<open>luaL_tolstring\<close>; \<open>dec2bn\<close> gives the number of characters \<open>BN_dec2bn\<close> used (0 on an
  error) and the value.
\<close>

definition l_bignum ::
  "(lua_value option \<Rightarrow> string) \<Rightarrow> (string \<Rightarrow> nat \<times> int) \<Rightarrow> bn_state \<Rightarrow> lua_error + lua_value list \<times> bn_state" where
  "l_bignum tolstr dec2bn s =
     (if bignum_name = luaL_typename (lua_arg (bn_stack s) 1) then
        Inr (take 1 (bn_stack s), s\<lparr>bn_stack := take 1 (bn_stack s)\<rparr>)
      else
        let str = tolstr (lua_arg (bn_stack s) 1)
        in case dec2bn (c_str str) of (used, v) \<Rightarrow>
             if length str = used then (case push_bignum v s of (r, s) \<Rightarrow> Inr ([LRef r], s))
             else Inl (LuaErr (LStr ''bad bignum string'')))"

section \<open>Properties\<close>

text \<open>
  The comparison operators; \<open>bn_cmp\<close> is documented to return -1, 0 or 1.
\<close>

lemma checkbignum_arg:
  "lua_arg (bn_stack s) n = Some (LRef i) \<Longrightarrow> i < length (bn_boxes s) \<Longrightarrow> bn_boxes s ! i = Some v \<Longrightarrow>
   checkbignum n s = Inr i"
  by (simp add: checkbignum_def)

text \<open>The arguments of a binary function: bignums with values \<open>x\<close> and \<open>y\<close>.\<close>

definition bn_args :: "bn_state \<Rightarrow> int list \<Rightarrow> bool" where
  "bn_args s vs \<longleftrightarrow> (\<forall>n < length vs. \<exists>i. n < length (bn_stack s) \<and> bn_stack s ! n = LRef i \<and>
     i < length (bn_boxes s) \<and> bn_boxes s ! i = Some (vs ! n))"

lemma bn_args_nth:
  assumes "bn_args s vs" "n < length vs"
  obtains i where "lua_arg (bn_stack s) (Suc n) = Some (LRef i)" "checkbignum (Suc n) s = Inr i" "bn_value s i = vs ! n"
proof -
  from assms obtain i where i: "n < length (bn_stack s)" "bn_stack s ! n = LRef i"
     "i < length (bn_boxes s)" "bn_boxes s ! i = Some (vs ! n)" by (auto simp: bn_args_def)
  then have "lua_arg (bn_stack s) (Suc n) = Some (LRef i)" by (simp add: lua_arg_def)
  with i that show thesis by (auto simp: checkbignum_arg bn_value_def)
qed

text \<open>
  the comparison metamethods are the comparisons of the numbers, given a \<open>BN_cmp\<close> that returns the
  sign of the difference.
\<close>

theorem bignum_compare:
  assumes "bn_args s [x, y]"
  shows "compare_bignum 0 True (\<lambda>a b. sgn (a - b)) s = Inr (x = y) \<and>
    compare_bignum (- 1) True (\<lambda>a b. sgn (a - b)) s = Inr (x < y) \<and>
    compare_bignum 1 True (\<lambda>a b. sgn (a - b)) s = Inr (x > y) \<and>
    compare_bignum 1 False (\<lambda>a b. sgn (a - b)) s = Inr (x \<le> y)"
proof -
  from bn_args_nth [OF assms, of 0] obtain a where a: "checkbignum 1 s = Inr a" "bn_value s a = x" by auto
  from bn_args_nth [OF assms, of 1] obtain b where b: "checkbignum 2 s = Inr b" "bn_value s b = y"
    by (auto simp: numeral_2_eq_2)
  from a b show ?thesis by (auto simp: compare_bignum_def sgn_if)
qed

lemma bignum_compare_witness:
  "compare_bignum (- 1) True (\<lambda>a b. sgn (a - b)) \<lparr>bn_stack = [LRef 1, LRef 0], bn_boxes = [Some 7, Some (- 3)]\<rparr> = Inr True"
  using bignum_compare [of "\<lparr>bn_stack = [LRef 1, LRef 0], bn_boxes = [Some 7, Some (- 3)]\<rparr>" "- 3" 7]
  by (simp add: bn_args_def less_Suc_eq)

section \<open>The wrapper\<close>

definition fresh_boxes :: "nat \<Rightarrow> bn_state \<Rightarrow> bn_state" where
  "fresh_boxes k s =
     s\<lparr>bn_stack := bn_stack s @ List.map LRef [length (bn_boxes s)..<length (bn_boxes s) + k],
       bn_boxes := bn_boxes s @ replicate k (Some 0)\<rparr>"

lemma fresh_boxes_Suc: "fresh_boxes k (snd (push_bignum 0 s)) = fresh_boxes (Suc k) s"
  by (simp add: fresh_boxes_def push_bignum_def upt_conv_Cons del: upt_Suc)

lemma wrap_outs:
  "wrap_args conv (replicate k BnOut @ ps) a r s =
     sbind (wrap_args conv ps a (r + k) (fresh_boxes k s)) (\<lambda>(acts, r, s').
       Inr (List.map ActOut [length (bn_boxes s)..<length (bn_boxes s) + k] @ acts, r, s'))"
proof (induction k arbitrary: r s)
  case 0
  have "fresh_boxes 0 s = s" by (simp add: fresh_boxes_def)
  then show ?case by (cases "wrap_args conv ps a r s") auto
next
  case (Suc k)
  obtain s1 where s1: "push_bignum 0 s = (length (bn_boxes s), s1)" "length (bn_boxes s1) = Suc (length (bn_boxes s))"
    by (simp add: push_bignum_def)
  then have f: "fresh_boxes k s1 = fresh_boxes (Suc k) s" using fresh_boxes_Suc [of k s] by simp
  show ?case
    by (cases "wrap_args conv ps a (Suc (r + k)) (fresh_boxes (Suc k) s)")
      (auto simp: s1 Suc.IH f upt_conv_Cons simp del: upt_Suc)
qed

lemma wrap_ins:
  "bn_args s vs \<Longrightarrow> set ps \<subseteq> {BnIn, BnCtx} \<Longrightarrow> a + count_list ps BnIn = length vs \<Longrightarrow>
   \<exists>acts. wrap_args conv ps a r s = Inr (acts, r, s) \<and> inputs s acts = drop a vs \<and> outputs acts = []"
proof (induction ps arbitrary: a)
  case (Cons p ps)
  show ?case
  proof (cases "p = BnIn")
    case True
    with Cons.prems have a: "a < length vs" by simp
    from bn_args_nth [OF Cons.prems(1) this] obtain i where i: "checkbignum (Suc a) s = Inr i" "bn_value s i = vs ! a" .
    from Cons.IH [of "Suc a"] Cons.prems True obtain acts where
      "wrap_args conv ps (Suc a) r s = Inr (acts, r, s)" "inputs s acts = drop (Suc a) vs" "outputs acts = []"
      by auto
    with True i a show ?thesis by (simp add: Cons_nth_drop_Suc)
  next
    case False
    with Cons.prems have "p = BnCtx" by auto
    with Cons.IH [of a] Cons.prems show ?thesis by auto
  qed
qed simp

lemma outputs_append: "outputs (List.map ActOut is @ acts) = is @ outputs acts"
  by (induction "is") simp_all

lemma inputs_append: "inputs s (List.map ActOut is @ acts) = inputs s acts"
  by (induction "is") simp_all

lemma assign_fresh:
  "length vs = k \<Longrightarrow>
   fold (\<lambda>(i, v) bs. bs[i := Some v]) (zip [length bs..<length bs + k] vs) (bs @ replicate k (Some 0)) = bs @ List.map Some vs"
proof (induction vs arbitrary: k bs)
  case (Cons v vs)
  then obtain k' where k: "k = Suc k'" by (cases k) auto
  with Cons.prems Cons.IH [of k' "bs @ [Some v]"] show ?case
    by (simp add: upt_conv_Cons list_update_append del: upt_Suc)
qed simp

lemma fresh_args: "bn_args s vs \<Longrightarrow> bn_args (fresh_boxes k s) vs"
  unfolding bn_args_def fresh_boxes_def by (fastforce simp: nth_append)

text \<open>
  a wrapped function of OpenSSL gets the bignum arguments of the call in order, its results are new
  bignums that are returned in the order of its output parameters, and no bignum that existed before
  is changed; its failure is a Lua error.
\<close>

theorem wrap_correct:
  assumes "bn_args s vs" "set ins \<subseteq> {BnIn, BnCtx}" "count_list ins BnIn = length vs"
    "\<And>xs ys. op xs = Some ys \<Longrightarrow> length ys = k"
  shows "wrap (replicate k BnOut @ ins) op conv s =
    (case op vs of
       None \<Rightarrow> Inl (LuaErr (LStr ''OpenSSL error in bignum failure''))
     | Some ys \<Rightarrow>
         Inr (List.map LRef [length (bn_boxes s)..<length (bn_boxes s) + k],
           s\<lparr>bn_stack := bn_stack (fresh_boxes k s), bn_boxes := bn_boxes s @ List.map Some ys\<rparr>))"
proof -
  from wrap_ins [OF fresh_args [OF assms(1)] assms(2), of 0] assms(3) obtain acts where
    acts: "wrap_args conv ins 0 k (fresh_boxes k s) = Inr (acts, k, fresh_boxes k s)"
      "inputs (fresh_boxes k s) acts = vs" "outputs acts = []" by force
  show ?thesis
  proof (cases "op vs")
    case None
    then show ?thesis by (simp add: wrap_def wrap_outs acts inputs_append)
  next
    case (Some ys)
    then have "length ys = k" by (rule assms(4))
    then show ?thesis using Some
      by (simp add: wrap_def wrap_outs acts inputs_append outputs_append Let_def)
        (simp add: fresh_boxes_def assign_fresh)
  qed
qed

definition tdiv_op :: "int list \<Rightarrow> int list option" where
  "tdiv_op xs = (case xs of [a, b] \<Rightarrow> if b = 0 then None else Some [a div b, a mod b] | _ \<Rightarrow> None)"

lemma wrap_correct_witness:
  "map_sum id fst (wrap BN_div_params tdiv_op plain_conv \<lparr>bn_stack = [LRef 0, LRef 1], bn_boxes = [Some 17, Some 5]\<rparr>)
     = Inr [LRef 2, LRef 3]"
proof -
  have "length ys = 2" if "tdiv_op xs = Some ys" for xs ys
    using that by (auto simp: tdiv_op_def split: list.splits if_splits)
  from wrap_correct [of "\<lparr>bn_stack = [LRef 0, LRef 1], bn_boxes = [Some 17, Some 5]\<rparr>" "[17, 5]" "[BnIn, BnIn, BnCtx]" tdiv_op 2, OF _ _ _ this]
  show ?thesis
    by (simp add: bn_args_def less_Suc_eq BN_div_params_def tdiv_op_def numeral_2_eq_2)
qed

text \<open>
  a missing argument is not noticed: the results have been pushed before the arguments are looked at,
  so \<open>div_mod\<close> called with one number divides it by its own, still zero, quotient.
\<close>

theorem missing_divisor:
  assumes "bn_args s [x]" "length (bn_stack s) = 1" "op [x, 0] = None"
  shows "wrap BN_div_params op conv s = Inl (LuaErr (LStr ''OpenSSL error in bignum failure''))"
proof -
  let ?s = "fresh_boxes 2 s"
  have "bn_args ?s [x, 0]"
  proof -
    from bn_args_nth [OF fresh_args [OF assms(1)], of 0 2] assms(1,2) show ?thesis
      unfolding bn_args_def fresh_boxes_def by (auto simp: less_Suc_eq nth_append numeral_2_eq_2)
  qed
  from wrap_ins [OF this, of "[BnIn, BnIn, BnCtx]" 0 conv 2] obtain acts where
    acts: "wrap_args conv [BnIn, BnIn, BnCtx] 0 (0 + 2) ?s = Inr (acts, 2, ?s)" "inputs ?s acts = [x, 0]"
    by (auto simp: eval_nat_numeral simp del: wrap_args.simps)
  have params: "BN_div_params = replicate 2 BnOut @ [BnIn, BnIn, BnCtx]"
    by (simp add: BN_div_params_def eval_nat_numeral)
  show ?thesis
    unfolding wrap_def params wrap_outs acts(1) using assms(3) acts(2) by (simp add: inputs_append)
qed

lemma missing_divisor_witness:
  "wrap BN_div_params tdiv_op plain_conv \<lparr>bn_stack = [LRef 0], bn_boxes = [Some 17]\<rparr> =
     Inl (LuaErr (LStr ''OpenSSL error in bignum failure''))"
  by (rule missing_divisor [of _ 17]) (simp_all add: bn_args_def tdiv_op_def)

text \<open>
  The pass-through for existing bignums is never taken, since the type name of a userdata is not the name
  of its metatable: the number is printed and parsed again.
\<close>

lemma bignum_no_pass_through: "bignum_name \<noteq> luaL_typename v"
  by (cases v; cases "the v") (auto simp: bignum_name_def)

text \<open>Closing a bignum makes the collector's call fail, unlike for keys and certificates.\<close>

lemma bignum_gc_after_close:
  assumes "bn_gc s = Inr s'"
  shows "bn_gc s' = Inl (BadArg 1 ''panic: bignum not allocated'')"
  using assms
  by (auto simp: bn_gc_def checkbignum_def split: option.splits lua_value.splits if_splits)

end
