(* ===== verification/Filters.thy ===== *)
theory Filters
  imports NativeObjects
begin

text \<open>
  \<open>hsfilter/hsfilter.cpp\<close>, \<open>mystringprep/mystringprep.c\<close> and \<open>mygeoip/mygeoip.c\<close>: compiling sets of
  regular expressions, preparing strings, and looking up the owners of addresses.

  What Lua does with lengths, fields and numbers beyond \<open>lua_conv\<close> is the parameter \<open>lua_ops\<close>:
  \<open>luaL_len\<close> (with metamethods), \<open>lua_getfield\<close> on any value, and the conversion of a number to an
  \<open>unsigned\<close> and, for \<open>luaL_checknumber\<close>, to an \<open>int\<close>.
\<close>

record lua_ops =
  lo_len :: "lua_value \<Rightarrow> int"
  lo_getfield :: "lua_value \<Rightarrow> string \<Rightarrow> lua_error + lua_value"
  lo_unsigned :: "lua_value \<Rightarrow> int"
  lo_number :: "lua_value \<Rightarrow> int option"

section \<open>Hyperscan\<close>

definition push_platform :: "int \<Rightarrow> int \<Rightarrow> lua_value" where
  "push_platform cpu_features tune = LTable [(LStr ''cpu_features'', LInt cpu_features), (LStr ''tune'', LInt tune)]"

definition get_platform :: "lua_ops \<Rightarrow> lua_conv \<Rightarrow> lua_value \<Rightarrow> lua_error + int \<times> int" where
  "get_platform ops conv v =
     (let number = (\<lambda>x. case lua_toint conv x of None \<Rightarrow> 0 | Some i \<Rightarrow> i)
      in sbind (lo_getfield ops v ''cpu_features'') (\<lambda>c.
         sbind (lo_getfield ops v ''tune'') (\<lambda>t.
           Inr (number c mod 2 ^ 64, number t mod 2 ^ 32))))"

definition HS_SUCCESS :: int where "HS_SUCCESS = 0"
definition HS_COMPILER_ERROR :: int where "HS_COMPILER_ERROR = - 4"

text \<open>
  \<open>compile\<close>: the database or the error is what the library allocates for the two results, the bytes of
  the serialised database come from \<open>malloc\<close>.
\<close>

definition hs_compile :: "(string \<times> int \<times> int) list \<Rightarrow> int \<Rightarrow> (int \<times> int) option \<Rightarrow> lua_value list binding" where
  "hs_compile pats N platform =
     obind (call ''hs_compile_multi''
       (concat (List.map (\<lambda>(expr, flag, ident). [LStr expr, LInt flag, LInt ident]) pats) @ [LInt N] @
        (case platform of None \<Rightarrow> [] | Some (c, t) \<Rightarrow> [LInt c, LInt t])) []) (\<lambda>r.
     if oc_rc r = HS_SUCCESS then
       obind (receive HsDatabase ''hs_database_t'') (\<lambda>db.
       obind (call ''hs_serialize_database'' [] [db]) (\<lambda>ser.
       obind (release_checked ''hs_free_database'' db) (\<lambda>ok.
         if \<not> ok then terminate ''std::terminate''
         else if oc_rc ser \<noteq> HS_SUCCESS then throw (LuaErr (LStr (''hs_serialize_database('' @ show_int (oc_rc ser) @ '')'')))
         else
           obind (receive HsBytes ''malloc'') (\<lambda>bytes.
           obind (release ''free'' bytes) (\<lambda>_. ret [buffer_bytes (oc_len ser) ser])))))
     else if oc_rc r = HS_COMPILER_ERROR then
       obind (receive HsError ''hs_compile_error_t'') (\<lambda>error.
       obind (call ''error->message'' [] [error]) (\<lambda>msg.
       obind (release_checked ''hs_free_compile_error'' error) (\<lambda>ok.
         if \<not> ok then terminate ''std::terminate''
         else throw (LuaErr (LStr (''error in regular expression '' @ show_int (oc_rc msg) @ '': '' @ oc_out msg))))))
     else throw (LuaErr (LStr (''hs_compile_multi('' @ show_int (oc_rc r) @ '')''))))"

definition table_entry :: "lua_value \<Rightarrow> int \<Rightarrow> lua_value" where
  "table_entry v i = (case v of LTable es \<Rightarrow> (case map_of es (LInt i) of None \<Rightarrow> LNil | Some x \<Rightarrow> x) | _ \<Rightarrow> LNil)"

fun is_number :: "lua_value \<Rightarrow> bool" where
  "is_number (LInt i) = True"
| "is_number (LFloat d) = True"
| "is_number _ = False"

text \<open>
  The loop over the three tables, \<open>k\<close> rounds from index \<open>i\<close>.  The arrays have the room of \<open>N\<close> elements as
  a \<open>size_t\<close>; a write behind the end of the array of pointers, the smallest for its elements, is
  undefined.
\<close>

fun collect ::
  "lua_ops \<Rightarrow> lua_value \<Rightarrow> lua_value \<Rightarrow> lua_value \<Rightarrow> int \<Rightarrow> int \<Rightarrow> nat \<Rightarrow> (string \<times> int \<times> int) list binding" where
  "collect ops exprs flags ids N i 0 = ret []"
| "collect ops exprs flags ids N i (Suc k) =
     (case table_entry exprs i of
        LStr expr \<Rightarrow>
          if 8 * N mod 2 ^ 64 < 8 * i then undefined_behaviour ''write behind the array''
          else if \<not> is_number (table_entry flags i) then throw (LuaErr (LStr (''flags['' @ show_int i @ ''] not a number'')))
          else if \<not> is_number (table_entry ids i) then throw (LuaErr (LStr (''ids['' @ show_int i @ ''] not a number'')))
          else
            obind (collect ops exprs flags ids N (i + 1) k) (\<lambda>ps.
              ret ((c_str expr, lo_unsigned ops (table_entry flags i), lo_unsigned ops (table_entry ids i)) # ps))
      | _ \<Rightarrow> throw (LuaErr (LStr (''exprs['' @ show_int i @ ''] not a string''))))"

definition check_table_arg :: "lua_value list \<Rightarrow> nat \<Rightarrow> lua_error + lua_value" where
  "check_table_arg args n =
     (case lua_arg args n of Some (LTable es) \<Rightarrow> Inr (LTable es) | _ \<Rightarrow> Inl (BadArg n ''table expected''))"

definition l_serialize_regexp_db :: "lua_ops \<Rightarrow> lua_conv \<Rightarrow> lua_value list \<Rightarrow> lua_value list binding" where
  "l_serialize_regexp_db ops conv args =
     obind (lift (check_table_arg args 1)) (\<lambda>exprs.
     obind (lift (check_table_arg args 2)) (\<lambda>flags.
     obind (lift (check_table_arg args 3)) (\<lambda>ids.
     obind (if noneornil args 4 then ret None
            else lift (sbind (get_platform ops conv (args ! 3)) (\<lambda>p. Inr (Some p)))) (\<lambda>platform.
     let N = lo_len ops exprs in
     obind (luaL_buffinitsize (8 * N)) (\<lambda>_.
     obind (luaL_buffinitsize (4 * N)) (\<lambda>_.
     obind (luaL_buffinitsize (4 * N)) (\<lambda>_.
     obind (collect ops exprs flags ids N 1 (nat N)) (\<lambda>pats.
       hs_compile pats (N mod 2 ^ 32) platform))))))))"

definition l_get_current_platform :: "lua_value list binding" where
  "l_get_current_platform =
     obind (call ''hs_populate_platform'' [] []) (\<lambda>r.
       if oc_rc r \<noteq> HS_SUCCESS then throw (LuaErr (LStr (''hs_populate_platform('' @ show_int (oc_rc r) @ '')'')))
       else ret [push_platform (out_number r 0) (out_number r 1)])"

section \<open>Stringprep\<close>

definition l_stringprep :: "lua_conv \<Rightarrow> lua_value list \<Rightarrow> lua_value list binding" where
  "l_stringprep conv args =
     obind (check_cstr conv args 1) (\<lambda>str.
     obind (check_cstr conv args 2) (\<lambda>profile.
     obind (call ''stringprep_profile'' [LStr str, LStr profile] []) (\<lambda>r.
       if oc_rc r = 0 then
         obind (receive MallocStr ''malloc'') (\<lambda>output.
         obind (release ''free'' output) (\<lambda>_. ret [LStr (c_str (oc_out r))]))
       else
         obind (call ''stringprep_strerror'' [LInt (oc_rc r)] []) (\<lambda>err.
           throw (LuaErr (LStr (''stringprep failed: '' @ oc_out err)))))))"

section \<open>GeoIP\<close>

definition close_org_db :: "lua_value list \<Rightarrow> lua_value list binding" where
  "close_org_db = gc_box GeoIpDb ''GeoIP_delete''"

definition open_db :: "lua_ops \<Rightarrow> lua_value list \<Rightarrow> lua_value list binding" where
  "open_db ops args =
     (case Option.bind (lua_arg args 1) (lo_number ops) of
        None \<Rightarrow> throw (BadArg 1 ''number expected'')
      | Some type \<Rightarrow>
          obind (create GeoIpDb ''GeoIP_open_type'' [LInt type] []) (\<lambda>geoip.
          case geoip of
            None \<Rightarrow> throw (LuaErr (LStr ''Failed to open''))
          | Some geoip \<Rightarrow> obind (push_box GeoIpDb geoip) (\<lambda>v. ret [v])))"

text \<open>
  \<open>get_name_by_addr\<close> and \<open>get_name_by_addr_v6\<close> differ in the function they call.  The pointer of a closed
  database is null and not checked, and the library follows it, which is undefined.  A name that is not
  null comes from \<open>malloc\<close>.
\<close>

definition geoip_name :: "string \<Rightarrow> lua_conv \<Rightarrow> lua_value list \<Rightarrow> lua_value list binding" where
  "geoip_name f conv args =
     obind (check_pointer GeoIpDb args 1) (\<lambda>geoip.
     obind (check_cstr conv args 2) (\<lambda>addr.
     case geoip of
       None \<Rightarrow> undefined_behaviour ''null database''
     | Some geoip \<Rightarrow>
         obind (call f [LStr addr] [geoip]) (\<lambda>r.
           case oc_strs r of
             [] \<Rightarrow> ret [LNil]
           | org # _ \<Rightarrow>
               obind (receive MallocStr ''malloc'') (\<lambda>ptr.
               obind (release ''free'' ptr) (\<lambda>_. ret [LStr (c_str org)])))))"

definition get_name_by_addr :: "lua_conv \<Rightarrow> lua_value list \<Rightarrow> lua_value list binding" where
  "get_name_by_addr = geoip_name ''GeoIP_name_by_addr_gl''"

definition get_name_by_addr_v6 :: "lua_conv \<Rightarrow> lua_value list \<Rightarrow> lua_value list binding" where
  "get_name_by_addr_v6 = geoip_name ''GeoIP_name_by_addr_v6_gl''"

section \<open>Ownership\<close>

datatype filter_table = Hsfilter_M | Stringprep_M | GeoIP_M | GeoIP_DbM | GeoIP_MT

fun filter_methods :: "lua_ops \<Rightarrow> lua_conv \<Rightarrow> filter_table \<Rightarrow> binding_table" where
  "filter_methods ops conv Hsfilter_M =
     [(''serialize_regexp_db'', l_serialize_regexp_db ops conv), (''get_current_platform'', \<lambda>_. l_get_current_platform)]"
| "filter_methods ops conv Stringprep_M = [(''stringprep'', l_stringprep conv)]"
| "filter_methods ops conv GeoIP_M = [(''open_db'', open_db ops)]"
| "filter_methods ops conv GeoIP_DbM =
     [(''get_name_by_addr'', get_name_by_addr conv), (''get_name_by_addr_v6'', get_name_by_addr_v6 conv)]"
| "filter_methods ops conv GeoIP_MT = [(''__gc'', close_org_db), (''__close'', close_org_db)]"

lemma leaves_collect [safe_intros]:
  assumes "\<And>e. Q (Inl e) tmp" "\<And>w. Q (Inl (Terminates w)) []" "\<And>ps. leaves Q mem known tmp (m ps)"
  shows "leaves Q mem known tmp (obind (collect ops exprs flags ids N i k) m)"
  using assms
  by (induction k arbitrary: i m) (auto intro!: safe_intros split: lua_value.split)

lemma safe_hs_compile: "safe mem {} [] (hs_compile pats N platform)"
  by (auto simp: hs_compile_def intro!: safe_intros split: option.split)

lemma safe_serialize: "safe mem {} [] (l_serialize_regexp_db ops conv args)"
  by (auto simp: l_serialize_regexp_db_def Let_def intro!: safe_intros safe_hs_compile)

lemma safe_platform: "safe mem {} [] l_get_current_platform"
  by (auto simp: l_get_current_platform_def intro!: safe_intros)

lemma safe_stringprep: "safe mem {} [] (l_stringprep conv args)"
  by (auto simp: l_stringprep_def argument_defs intro!: safe_intros)

lemma safe_open_db: "safe mem {} [] (open_db ops args)"
  by (auto simp: open_db_def intro!: safe_intros split: option.split)

lemma safe_geoip_name: "safe mem {} [] (geoip_name f conv args)"
  by (auto simp: geoip_name_def argument_defs intro!: safe_intros)

lemma safe_close_org_db: "safe mem {} [] (close_org_db args)"
  unfolding close_org_db_def by (rule safe_gc) simp

interpretation filters: native_library "filter_methods ops conv" for ops conv
proof unfold_locales
  fix name f t args mem
  assume "(name, f) \<in> set (filter_methods ops conv t)"
  then show "safe mem {} [] (f args)"
    using safe_serialize safe_platform safe_stringprep safe_open_db safe_geoip_name safe_close_org_db
    by (cases t) (auto simp: get_name_by_addr_def get_name_by_addr_v6_def)
qed

section \<open>The patterns handed to the compiler\<close>

text \<open>The complaint about the patterns at an index, and the pattern.\<close>

definition pattern_error :: "lua_value \<Rightarrow> lua_value \<Rightarrow> lua_value \<Rightarrow> int \<Rightarrow> string option" where
  "pattern_error exprs flags ids i =
     (if \<nexists>e. table_entry exprs i = LStr e then Some (''exprs['' @ show_int i @ ''] not a string'')
      else if \<not> is_number (table_entry flags i) then Some (''flags['' @ show_int i @ ''] not a number'')
      else if \<not> is_number (table_entry ids i) then Some (''ids['' @ show_int i @ ''] not a number'')
      else None)"

definition pattern_at :: "lua_ops \<Rightarrow> lua_value \<Rightarrow> lua_value \<Rightarrow> lua_value \<Rightarrow> int \<Rightarrow> string \<times> int \<times> int" where
  "pattern_at ops exprs flags ids i =
     ((case table_entry exprs i of LStr e \<Rightarrow> c_str e | _ \<Rightarrow> []),
      lo_unsigned ops (table_entry flags i), lo_unsigned ops (table_entry ids i))"

lemma collect_from:
  assumes "0 \<le> N" "N < 2 ^ 61"
  shows "i + int k = N + 1 \<Longrightarrow> 1 \<le> i \<Longrightarrow>
    collect ops exprs flags ids N i k s =
      ((case List.find (\<lambda>i. pattern_error exprs flags ids i \<noteq> None) [i..N] of
          Some j \<Rightarrow> Inl (LuaErr (LStr (the (pattern_error exprs flags ids j))))
        | None \<Rightarrow> Inr (List.map (pattern_at ops exprs flags ids) [i..N])), s)"
proof (induction k arbitrary: i)
  case 0
  then show ?case by (simp add: ret_def)
next
  case (Suc k)
  then have i: "i \<le> N" "[i..N] = i # [i + 1..N]" by (simp_all add: upto_rec1)
  have room: "\<not> 8 * N mod 2 ^ 64 < 8 * i"
  proof -
    have "8 * N mod 2 ^ 64 = 8 * N" using assms by (intro mod_pos_pos_trivial) auto
    then show ?thesis using i(1) by simp
  qed
  show ?case
  proof (cases "pattern_error exprs flags ids i")
    case None
    then obtain e where "table_entry exprs i = LStr e" "is_number (table_entry flags i)" "is_number (table_entry ids i)"
      by (auto simp: pattern_error_def split: if_splits)
    with None Suc.IH [of "i + 1"] Suc.prems room show ?thesis
      unfolding i(2)
      by (simp add: obind_def ret_def pattern_at_def split: option.split del: power_numeral)
  next
    case (Some e)
    with room show ?thesis
      unfolding i(2)
      by (auto simp: pattern_error_def throw_def split: lua_value.splits if_splits simp del: power_numeral)
  qed
qed

text \<open>
  The three tables of \<open>serialize_regexp_db\<close>: for fewer than \<open>2^61\<close> patterns nothing is written behind the
  arrays, the compiler is given exactly the patterns of the tables in order, and otherwise the error
  names the first index, and of its three fields the first, that has the wrong type.
\<close>

theorem regexps_collected:
  assumes "0 \<le> N" "N < 2 ^ 61"
  shows "collect ops exprs flags ids N 1 (nat N) s =
    ((case List.find (\<lambda>i. pattern_error exprs flags ids i \<noteq> None) [1..N] of
        Some j \<Rightarrow> Inl (LuaErr (LStr (the (pattern_error exprs flags ids j))))
      | None \<Rightarrow> Inr (List.map (pattern_at ops exprs flags ids) [1..N])), s)"
  using collect_from [OF assms, of 1 "nat N"] assms(1) by simp

lemma regexps_collected_witness:
  "fst (collect \<lparr>lo_len = \<lambda>_. 2, lo_getfield = \<lambda>_ _. Inr LNil, lo_unsigned = \<lambda>_. 0, lo_number = \<lambda>_. None\<rparr>
      (LTable [(LInt 1, LStr ''a''), (LInt 2, LStr ''b'')]) (LTable [(LInt 1, LInt 0)]) (LTable [(LInt 1, LInt 5)])
      2 1 2 (native_start (\<lambda>_. undefined) 0)) = Inl (LuaErr (LStr ''flags[2] not a number''))"
proof -
  let ?e = "LTable [(LInt 1, LStr ''a''), (LInt 2, LStr ''b'')]" and ?f = "LTable [(LInt 1, LInt 0)]"
    and ?i = "LTable [(LInt 1, LInt 5)]"
  have "[1..2] = [1, 2::int]" by (simp add: upto_rec1)
  moreover have "show_int 2 = ''2''" by code_simp
  then have "pattern_error ?e ?f ?i 1 = None" "pattern_error ?e ?f ?i 2 = Some ''flags[2] not a number''"
    by (simp_all add: pattern_error_def table_entry_def)
  ultimately show ?thesis
    using regexps_collected [of 2 _ ?e ?f ?i] by (simp add: numeral_2_eq_2 del: collect.simps)
qed

end
