(* ===== verification/Curses.thy ===== *)
theory Curses
  imports NativeObjects
begin

text \<open>
  \<open>myncurses/window.c\<close> and \<open>myncurses/myncurses.c\<close>: windows for Lua, and colours.

  A window is an object of the library; the standard screen is not owned by Lua and appears as no object.
  Integers are narrowed to \<open>int\<close> where a function of ncurses takes one.
\<close>

definition ERR :: int where "ERR = - 1"

definition checkwindow :: "lua_value list \<Rightarrow> nat \<Rightarrow> object binding" where
  "checkwindow args n = check_object WindowObj ''WINDOW used after delwin'' args n"

definition optwindow :: "lua_value list \<Rightarrow> nat \<Rightarrow> object list binding" where
  "optwindow args n =
     (if noneornil args n then ret [] else obind (checkwindow args n) (\<lambda>w. ret [w]))"

text \<open>A call that reports \<open>ERR\<close>, which becomes a Lua error.\<close>

definition curses_call :: "string \<Rightarrow> string \<Rightarrow> lua_value list \<Rightarrow> object list \<Rightarrow> lua_value list binding" where
  "curses_call f msg vals win =
     obind (call f vals win) (\<lambda>r. if oc_rc r = ERR then throw (LuaErr (LStr msg)) else ret [])"

text \<open>Integer arguments \<open>n\<close>, \<open>n + 1\<close>, ..., narrowed.\<close>

fun check_ints :: "lua_conv \<Rightarrow> lua_value list \<Rightarrow> nat \<Rightarrow> nat \<Rightarrow> lua_value list binding" where
  "check_ints conv args n 0 = ret []"
| "check_ints conv args n (Suc k) =
     obind (check_int conv args n) (\<lambda>i.
     obind (check_ints conv args (Suc n) k) (\<lambda>is. ret (LInt (to_int i) # is)))"

section \<open>Windows\<close>

definition l_delwin :: "lua_value list \<Rightarrow> lua_value list binding" where
  "l_delwin args =
     obind (check_box WindowObj args 1) (\<lambda>i s.
       (case snd (os_boxes s ! i) of
          None \<Rightarrow> ret [] s
        | Some h \<Rightarrow>
            obind (call ''delwin'' [] [(h, WindowObj)]) (\<lambda>r s.
              if oc_rc r = ERR then throw (LuaErr (LStr ''delwin: ncurses error'')) s
              else (Inr [], s\<lparr>os_live := remove1 (h, WindowObj) (os_live s),
                              os_boxes := (os_boxes s)[i := (WindowObj, None)]\<rparr>)) s))"

definition l_prefresh :: "lua_conv \<Rightarrow> lua_value list \<Rightarrow> lua_value list binding" where
  "l_prefresh conv args =
     obind (checkwindow args 1) (\<lambda>win.
     obind (check_ints conv args 2 6) (\<lambda>is. curses_call ''prefresh'' ''prefresh: ncurses error'' is [win]))"

definition l_pnoutrefresh :: "lua_conv \<Rightarrow> lua_value list \<Rightarrow> lua_value list binding" where
  "l_pnoutrefresh conv args =
     obind (checkwindow args 1) (\<lambda>win.
     obind (check_ints conv args 2 6) (\<lambda>is. curses_call ''pnoutrefresh'' ''pnoutrefresh: ncurses error'' is [win]))"

definition l_wresize :: "lua_conv \<Rightarrow> lua_value list \<Rightarrow> lua_value list binding" where
  "l_wresize conv args =
     obind (checkwindow args 1) (\<lambda>win.
     obind (check_ints conv args 2 2) (\<lambda>is. curses_call ''wresize'' ''wresize: ncurses error'' is [win]))"

definition l_wmove :: "lua_conv \<Rightarrow> lua_value list \<Rightarrow> lua_value list binding" where
  "l_wmove conv args =
     obind (checkwindow args 1) (\<lambda>win.
     obind (check_ints conv args 2 2) (\<lambda>is. curses_call ''wmove'' ''wmove: ncurses error'' is [win]))"

definition l_werase :: "lua_value list \<Rightarrow> lua_value list binding" where
  "l_werase args =
     obind (checkwindow args 1) (\<lambda>win. curses_call ''werase'' ''werase: ncurses error'' [] [win])"

definition l_wclear :: "lua_value list \<Rightarrow> lua_value list binding" where
  "l_wclear args =
     obind (checkwindow args 1) (\<lambda>win. curses_call ''wclear'' ''wclear: ncurses error'' [] [win])"

text \<open>The string arguments from \<open>n\<close> on, each written when it has been checked; the results are ignored.\<close>

fun add_strings :: "string \<Rightarrow> object list \<Rightarrow> lua_conv \<Rightarrow> lua_value list \<Rightarrow> nat \<Rightarrow> nat \<Rightarrow> lua_value list binding" where
  "add_strings f win conv args n 0 = ret []"
| "add_strings f win conv args n (Suc k) =
     obind (check_str conv args n) (\<lambda>str.
     obind (call f [LStr str, LInt (to_int (int (length str)))] win) (\<lambda>_.
       add_strings f win conv args (Suc n) k))"

definition l_waddstr :: "lua_conv \<Rightarrow> lua_value list \<Rightarrow> lua_value list binding" where
  "l_waddstr conv args =
     obind (checkwindow args 1) (\<lambda>win. add_strings ''waddnstr'' [win] conv args 2 (length args - 1))"

definition pushwindow :: "object \<Rightarrow> lua_value binding" where
  "pushwindow win = push_box WindowObj win"

definition l_newwin :: "lua_conv \<Rightarrow> lua_value list \<Rightarrow> lua_value list binding" where
  "l_newwin conv args =
     obind (check_ints conv args 1 4) (\<lambda>is.
     obind (create WindowObj ''newwin'' is []) (\<lambda>result.
     case result of
       None \<Rightarrow> throw (LuaErr (LStr ''newwin: ncurses error''))
     | Some win \<Rightarrow> obind (pushwindow win) (\<lambda>v. ret [v])))"

definition l_newpad :: "lua_conv \<Rightarrow> lua_value list \<Rightarrow> lua_value list binding" where
  "l_newpad conv args =
     obind (check_ints conv args 1 2) (\<lambda>is.
     obind (create WindowObj ''newpad'' is []) (\<lambda>result.
     case result of
       None \<Rightarrow> throw (LuaErr (LStr ''newpad: ncurses error''))
     | Some win \<Rightarrow> obind (pushwindow win) (\<lambda>v. ret [v])))"

section \<open>The functions on any window\<close>

definition l_erase :: "lua_value list \<Rightarrow> lua_value list binding" where
  "l_erase args = obind (optwindow args 1) (curses_call ''werase'' ''erase: ncurses error'' [])"

definition l_clear :: "lua_value list \<Rightarrow> lua_value list binding" where
  "l_clear args = obind (optwindow args 1) (curses_call ''wclear'' ''clear: ncurses error'' [])"

definition l_refresh :: "lua_value list \<Rightarrow> lua_value list binding" where
  "l_refresh args = obind (optwindow args 1) (curses_call ''wrefresh'' ''refresh: ncurses error'' [])"

definition l_noutrefresh :: "lua_value list \<Rightarrow> lua_value list binding" where
  "l_noutrefresh args = obind (optwindow args 1) (curses_call ''wnoutrefresh'' ''wnoutrefresh: ncurses error'' [])"

text \<open>An \<open>attr_t\<close> is unsigned, a colour pair a \<open>short\<close>.\<close>

definition l_attron :: "lua_conv \<Rightarrow> lua_value list \<Rightarrow> lua_value list binding" where
  "l_attron conv args =
     obind (check_int conv args 1) (\<lambda>a.
     obind (optwindow args 2) (curses_call ''wattr_on'' ''wattr_on: ncurses error'' [LInt (a mod 2 ^ 32)]))"

definition l_attroff :: "lua_conv \<Rightarrow> lua_value list \<Rightarrow> lua_value list binding" where
  "l_attroff conv args =
     obind (check_int conv args 1) (\<lambda>a.
     obind (optwindow args 2) (curses_call ''wattr_off'' ''wattr_off: ncurses error'' [LInt (a mod 2 ^ 32)]))"

definition l_attrget :: "lua_value list \<Rightarrow> lua_value list binding" where
  "l_attrget args =
     obind (optwindow args 1) (\<lambda>win.
     obind (call ''wattr_get'' [] win) (\<lambda>r.
       if oc_rc r = ERR then throw (LuaErr (LStr ''wattr_get: ncurses error''))
       else ret [LInt (out_number r 0), LInt (out_number r 1)]))"

definition l_attrset :: "lua_conv \<Rightarrow> lua_value list \<Rightarrow> lua_value list binding" where
  "l_attrset conv args =
     obind (check_int conv args 1) (\<lambda>a.
     obind (check_int conv args 2) (\<lambda>color.
     obind (optwindow args 3) (curses_call ''wattr_set'' ''wattr_set: ncurses error''
       [LInt (to_int a mod 2 ^ 32), LInt (sint (word_of_int color :: 16 word))])))"

definition l_addstr :: "lua_conv \<Rightarrow> lua_value list \<Rightarrow> lua_value list binding" where
  "l_addstr conv args = add_strings ''addnstr'' [] conv args 1 (length args)"

definition l_mvaddstr :: "lua_conv \<Rightarrow> lua_value list \<Rightarrow> lua_value list binding" where
  "l_mvaddstr conv args =
     obind (check_int conv args 1) (\<lambda>y.
     obind (check_int conv args 2) (\<lambda>x.
     obind (call ''getmaxyx'' [] []) (\<lambda>r.
       let y = to_int y; x = to_int x; wy = out_number r 0; wx = out_number r 1 in
       if 0 \<le> y \<and> 0 \<le> x \<and> y < wy \<and> x < wx then
         if length args < 3 then obind (call ''move'' [LInt y, LInt x] []) (\<lambda>_. ret [])
         else
           obind (check_str conv args 3) (\<lambda>str.
           obind (call ''mvaddnstr'' [LInt y, LInt x, LStr str, LInt (to_int (int (length str)))] []) (\<lambda>_.
             add_strings ''addnstr'' [] conv args 4 (length args - 3)))
       else ret [])))"

definition l_getyx :: "lua_value list \<Rightarrow> lua_value list binding" where
  "l_getyx args =
     obind (optwindow args 1) (\<lambda>win.
     obind (call ''getyx'' [] win) (\<lambda>r. ret [LInt (out_number r 0), LInt (out_number r 1)]))"

definition l_getmaxyx :: "lua_value list \<Rightarrow> lua_value list binding" where
  "l_getmaxyx args =
     obind (optwindow args 1) (\<lambda>win.
     obind (call ''getmaxyx'' [] win) (\<lambda>r. ret [LInt (out_number r 0), LInt (out_number r 1)]))"

definition l_doupdate :: "lua_value list binding" where
  "l_doupdate = curses_call ''doupdate'' ''doupdate: ncurses error'' [] []"

definition l_move :: "lua_conv \<Rightarrow> lua_value list \<Rightarrow> lua_value list binding" where
  "l_move conv args =
     obind (check_ints conv args 1 2) (\<lambda>is.
     obind (optwindow args 3) (curses_call ''wmove'' ''move'' is))"

definition l_cursset :: "lua_conv \<Rightarrow> lua_value list \<Rightarrow> lua_value list binding" where
  "l_cursset conv args =
     obind (check_int conv args 1) (\<lambda>visibility.
     obind (call ''curs_set'' [LInt (to_int visibility)] []) (\<lambda>r.
       if oc_rc r = ERR then throw (LuaErr (LStr ''curs_set: invalid argument'')) else ret [LInt (oc_rc r)]))"

definition l_flash :: "lua_value list binding" where
  "l_flash = obind (call ''flash'' [] []) (\<lambda>_. ret [])"

definition l_beep :: "lua_value list binding" where
  "l_beep = obind (call ''beep'' [] []) (\<lambda>_. ret [])"

text \<open>The globals set when the terminal has changed its size.\<close>

definition l_ncurses_resize :: "(string \<times> lua_value) list binding" where
  "l_ncurses_resize =
     obind (call ''getmaxyx'' [] []) (\<lambda>r.
       ret [(''tty_width'', LInt (out_number r 1)), (''tty_height'', LInt (out_number r 0))])"

section \<open>Colours\<close>

text \<open>
  The two static variables of \<open>l_colorset\<close>: the pair numbers by colours, moved up by one, and the next
  number.  \<open>cl_inits\<close> records the calls of \<open>init_pair\<close>; \<open>pairs\<close> is the library's \<open>COLOR_PAIRS\<close>.
\<close>

record colors =
  cl_map :: "int list list"
  cl_assigned :: int
  cl_inits :: "(int \<times> int \<times> int) list"

definition colors_start :: colors where
  "colors_start = \<lparr>cl_map = replicate 9 (replicate 9 0), cl_assigned = 1, cl_inits = []\<rparr>"

definition color_pair :: "int \<Rightarrow> int \<Rightarrow> int \<Rightarrow> colors \<Rightarrow> int \<times> colors" where
  "color_pair pairs fore back c =
     (let i = nat (fore + 1); j = nat (back + 1); p = cl_map c ! i ! j in
      if p = 0 \<and> (fore \<ge> 0 \<or> back \<ge> 0) then
        if cl_assigned c < pairs then
          (cl_assigned c,
           c\<lparr>cl_map := (cl_map c)[i := (cl_map c ! i)[j := cl_assigned c]],
             cl_assigned := cl_assigned c + 1,
             cl_inits := cl_inits c @ [(cl_assigned c, fore, back)]\<rparr>)
        else (p, c)
      else (p, c))"

definition opt_color :: "lua_conv \<Rightarrow> lua_value list \<Rightarrow> nat \<Rightarrow> int binding" where
  "opt_color conv args n =
     obind (lift (luaL_opt (checkinteger conv) args n (- 1))) (\<lambda>color.
     obind (lift (argcheck (- 1 \<le> color \<and> color \<le> 7) n ''out of range'')) (\<lambda>_. ret color))"

definition colorset_args :: "lua_conv \<Rightarrow> lua_value list \<Rightarrow> (int \<times> int \<times> object list) binding" where
  "colorset_args conv args =
     obind (opt_color conv args 1) (\<lambda>fore.
     obind (opt_color conv args 2) (\<lambda>back.
     obind (optwindow args 3) (\<lambda>win. ret (fore, back, win))))"

definition l_colorset ::
  "int \<Rightarrow> lua_conv \<Rightarrow> lua_value list \<Rightarrow> colors \<Rightarrow> native \<Rightarrow> (lua_error + lua_value list) \<times> colors \<times> native" where
  "l_colorset pairs conv args c s =
     (case colorset_args conv args s of
        (Inl e, s) \<Rightarrow> (Inl e, c, s)
      | (Inr (fore, back, win), s) \<Rightarrow>
          (case color_pair pairs fore back c of
             (p, c) \<Rightarrow>
               (case curses_call ''wcolor_set'' ''color_set: ncurses error'' [LInt p] win s of (r, s) \<Rightarrow> (r, c, s))))"

section \<open>Ownership of windows\<close>

datatype curses_table = Curses_lib | Window_Methods | Window_MT

text \<open>The registration tables; \<open>colorset\<close> with the colours there are when it is called.\<close>

fun curses_methods :: "int \<Rightarrow> colors \<Rightarrow> lua_conv \<Rightarrow> curses_table \<Rightarrow> binding_table" where
  "curses_methods pairs c conv Window_MT = [(''__gc'', l_delwin), (''__close'', l_delwin)]"
| "curses_methods pairs c conv Window_Methods =
     [(''delwin'', l_delwin), (''wresize'', l_wresize conv), (''wmove'', l_wmove conv), (''werase'', l_werase),
      (''wclear'', l_wclear), (''prefresh'', l_prefresh conv), (''pnoutrefresh'', l_pnoutrefresh conv),
      (''waddstr'', l_waddstr conv)]"
| "curses_methods pairs c conv Curses_lib =
     [(''addstr'', l_addstr conv), (''mvaddstr'', l_mvaddstr conv), (''getyx'', l_getyx), (''getmaxyx'', l_getmaxyx),
      (''refresh'', l_refresh), (''noutrefresh'', l_noutrefresh), (''erase'', l_erase), (''clear'', l_clear),
      (''attron'', l_attron conv), (''attroff'', l_attroff conv), (''attrset'', l_attrset conv),
      (''attrget'', l_attrget),
      (''colorset'', \<lambda>args s. case l_colorset pairs conv args c s of (r, _, s) \<Rightarrow> (r, s)),
      (''cursset'', l_cursset conv), (''move'', l_move conv), (''beep'', \<lambda>_. l_beep), (''flash'', \<lambda>_. l_flash),
      (''newwin'', l_newwin conv), (''newpad'', l_newpad conv), (''doupdate'', \<lambda>_. l_doupdate)]"

lemma safe_check_ints [safe_intros]:
  assumes "\<And>e. Q (Inl e) tmp" "\<And>is. leaves Q mem known tmp (m is)"
  shows "leaves Q mem known tmp (obind (check_ints conv args n k) m)"
  using assms
  by (induction k arbitrary: n m) (auto simp: check_int_def intro!: safe_intros)

lemma safe_curses_call [safe_intros]: "set win \<subseteq> known \<Longrightarrow> safe mem known [] (curses_call f msg vals win)"
  by (auto simp: curses_call_def intro!: safe_intros)

lemma safe_add_strings [safe_intros]: "set win \<subseteq> known \<Longrightarrow> safe mem known [] (add_strings f win conv args n k)"
  by (induction k arbitrary: n) (auto simp: argument_defs intro!: safe_intros)

lemma safe_optwindow [safe_intros]:
  assumes "\<And>win known'. set win \<subseteq> known' \<Longrightarrow> safe mem known' [] (k win)"
  shows "safe mem known [] (obind (optwindow args n) k)"
  using assms by (auto simp: optwindow_def checkwindow_def intro!: safe_intros)

lemma safe_delwin: "safe mem {} [] (l_delwin args)"
proof (rule safeI)
  fix s assume o: "owned mem {} [] s"
  from check_box_cases [of WindowObj args 1 s]
  show "owned mem {} [] (snd (l_delwin args s))"
  proof (elim disjE exE conjE)
    fix e assume "check_box WindowObj args 1 s = (Inl e, s)"
    with o show ?thesis by (simp add: l_delwin_def obind_def)
  next
    fix i assume i: "check_box WindowObj args 1 s = (Inr i, s)" "i < length (os_boxes s)" "fst (os_boxes s ! i) = WindowObj"
    show ?thesis
    proof (cases "snd (os_boxes s ! i)")
      case None
      with i o show ?thesis by (simp add: l_delwin_def obind_def ret_def)
    next
      case (Some h)
      then have b: "os_boxes s ! i = (WindowObj, Some h)" using i(3) by (simp add: prod_eq_iff)
      let ?s1 = "snd (call ''delwin'' [] [(h, WindowObj)] s)"
      have "owned mem {(h, WindowObj)} [] s" using o boxed_nth [OF i(2) b] by (auto simp: owned_def intact_def)
      then have o1: "owned mem {(h, WindowObj)} [] ?s1" by (rule owned_call) simp
      moreover have "os_boxes ?s1 = os_boxes s" by (simp add: call_def)
      ultimately show ?thesis
        using owned_drop_box [of mem "{(h, WindowObj)}" "[]" ?s1 i WindowObj h] owned_weaken [OF o1] i b Some
        by (simp add: l_delwin_def obind_def throw_def call_def)
    qed
  qed
qed

lemma safe_windows:
  "safe mem {} [] (l_prefresh conv args)" "safe mem {} [] (l_pnoutrefresh conv args)"
  "safe mem {} [] (l_wresize conv args)" "safe mem {} [] (l_wmove conv args)" "safe mem {} [] (l_werase args)"
  "safe mem {} [] (l_wclear args)" "safe mem {} [] (l_waddstr conv args)"
  by (auto simp: l_prefresh_def l_pnoutrefresh_def l_wresize_def l_wmove_def l_werase_def l_wclear_def l_waddstr_def
      checkwindow_def simp del: check_ints.simps intro!: safe_intros)

lemma safe_newwin: "safe mem {} [] (l_newwin conv args)" "safe mem {} [] (l_newpad conv args)"
  by (auto simp: l_newwin_def l_newpad_def pushwindow_def simp del: check_ints.simps intro!: safe_intros)

lemma safe_output:
  "safe mem {} [] (l_erase args)" "safe mem {} [] (l_clear args)" "safe mem {} [] (l_refresh args)"
  "safe mem {} [] (l_noutrefresh args)" "safe mem {} [] (l_attron conv args)" "safe mem {} [] (l_attroff conv args)"
  "safe mem {} [] (l_attrset conv args)" "safe mem {} [] (l_attrget args)" "safe mem {} [] (l_addstr conv args)"
  "safe mem {} [] (l_getyx args)" "safe mem {} [] (l_getmaxyx args)"
  by (auto simp: l_erase_def l_clear_def l_refresh_def l_noutrefresh_def l_attron_def l_attroff_def l_attrset_def
      l_attrget_def l_addstr_def l_getyx_def l_getmaxyx_def argument_defs intro!: safe_intros)

lemma safe_screen:
  "safe mem {} [] (l_mvaddstr conv args)" "safe mem {} [] (l_cursset conv args)" "safe mem {} [] (l_move conv args)"
  "safe mem {} [] l_beep" "safe mem {} [] l_flash" "safe mem {} [] l_doupdate"
  by (auto simp: l_mvaddstr_def l_cursset_def l_move_def l_beep_def l_flash_def l_doupdate_def argument_defs Let_def
      simp del: check_ints.simps intro!: safe_intros)

lemma colorset_binding:
  "(\<lambda>s. case l_colorset pairs conv args c s of (r, _, s) \<Rightarrow> (r, s)) =
   obind (colorset_args conv args) (\<lambda>(fore, back, win).
     curses_call ''wcolor_set'' ''color_set: ncurses error'' [LInt (fst (color_pair pairs fore back c))] win)"
  by (rule ext) (simp add: l_colorset_def obind_def split: prod.split sum.split)

lemma safe_colorset: "safe mem {} [] (\<lambda>s. case l_colorset pairs conv args c s of (r, _, s) \<Rightarrow> (r, s))"
  unfolding colorset_binding
  by (auto simp: colorset_args_def opt_color_def intro!: safe_intros)

interpretation curses: native_library "curses_methods pairs c conv" for pairs c conv
proof unfold_locales
  fix name f t args mem
  assume "(name, f) \<in> set (curses_methods pairs c conv t)"
  then show "safe mem {} [] (f args)"
    using safe_delwin safe_windows safe_newwin safe_output safe_screen safe_colorset
    by (cases t) auto
qed

section \<open>Colour pairs\<close>

definition colorset_run ::
  "int \<Rightarrow> lua_conv \<Rightarrow> lua_value list list \<Rightarrow> colors \<times> native \<Rightarrow> colors \<times> native" where
  "colorset_run pairs conv calls cs = fold (\<lambda>args (c, s). snd (l_colorset pairs conv args c s)) calls cs"

text \<open>The pair number the table has for two colours.\<close>

definition pair_of :: "colors \<Rightarrow> int \<Rightarrow> int \<Rightarrow> int" where
  "pair_of c fore back = cl_map c ! nat (fore + 1) ! nat (back + 1)"

definition color_range :: "int \<Rightarrow> bool" where
  "color_range x \<longleftrightarrow> - 1 \<le> x \<and> x \<le> 7"

definition colors_ok :: "int \<Rightarrow> colors \<Rightarrow> bool" where
  "colors_ok pairs c \<longleftrightarrow>
     length (cl_map c) = 9 \<and> (\<forall>row \<in> set (cl_map c). length row = 9) \<and>
     List.map fst (cl_inits c) = [1..cl_assigned c - 1] \<and> 1 \<le> cl_assigned c \<and> cl_assigned c \<le> max 1 pairs \<and>
     (\<forall>(p, f, b) \<in> set (cl_inits c). color_range f \<and> color_range b \<and> pair_of c f b = p) \<and>
     (\<forall>f b. color_range f \<longrightarrow> color_range b \<longrightarrow> pair_of c f b \<noteq> 0 \<longrightarrow> (pair_of c f b, f, b) \<in> set (cl_inits c))"

lemma colors_ok_range:
  assumes "colors_ok pairs c" "(p, f, b) \<in> set (cl_inits c)"
  shows "1 \<le> p \<and> p < cl_assigned c"
proof -
  have "p \<in> set (List.map fst (cl_inits c))" using assms(2) by force
  also have "List.map fst (cl_inits c) = [1..cl_assigned c - 1]" using assms(1) by (simp add: colors_ok_def)
  finally show ?thesis by simp
qed

lemma colors_ok_start: "colors_ok pairs colors_start"
  by (auto simp: colors_ok_def colors_start_def pair_of_def color_range_def)

lemma pair_of_update:
  assumes "length (cl_map c) = 9" "\<forall>row \<in> set (cl_map c). length row = 9"
    "color_range f" "color_range b" "color_range f'" "color_range b'"
  shows "pair_of (c\<lparr>cl_map := (cl_map c)[nat (f + 1) := (cl_map c ! nat (f + 1))[nat (b + 1) := p]],
      cl_assigned := x, cl_inits := y\<rparr>) f' b' = (if f' = f \<and> b' = b then p else pair_of c f' b')"
proof -
  have "nat (f + 1) < 9" "nat (b + 1) < 9" "nat (f' + 1) < 9" "nat (b' + 1) < 9"
    using assms(3-6) by (auto simp: color_range_def)
  moreover have "length (cl_map c ! nat (f + 1)) = 9" using assms(1,2) calculation by auto
  moreover have "nat (f' + 1) = nat (f + 1) \<longleftrightarrow> f' = f" "nat (b' + 1) = nat (b + 1) \<longleftrightarrow> b' = b"
    using assms(3-6) by (auto simp: color_range_def)
  ultimately show ?thesis using assms(1) by (auto simp: pair_of_def nth_list_update)
qed

lemma colors_ok_pair:
  assumes "colors_ok pairs c" "color_range f" "color_range b" "color_pair pairs f b c = (p, c')"
  shows "colors_ok pairs c' \<and> p = pair_of c' f b \<and> (\<exists>new. cl_inits c' = cl_inits c @ new) \<and>
    (p = 0 \<longrightarrow> f = -1 \<and> b = -1 \<or> pairs \<le> cl_assigned c)"
proof (cases "pair_of c f b = 0 \<and> (f \<ge> 0 \<or> b \<ge> 0) \<and> cl_assigned c < pairs")
  case False
  with assms have "p = pair_of c f b" "c' = c" by (auto simp: color_pair_def pair_of_def Let_def split: if_splits)
  with False assms show ?thesis by (auto simp: color_range_def)
next
  case True
  let ?n = "cl_assigned c"
  from True assms(4) have c': "p = ?n"
    "c' = c\<lparr>cl_map := (cl_map c)[nat (f + 1) := (cl_map c ! nat (f + 1))[nat (b + 1) := ?n]],
      cl_assigned := ?n + 1, cl_inits := cl_inits c @ [(?n, f, b)]\<rparr>"
    by (auto simp: color_pair_def pair_of_def Let_def)
  have ok: "length (cl_map c) = 9" "\<forall>row \<in> set (cl_map c). length row = 9"
    "List.map fst (cl_inits c) = [1..?n - 1]" "1 \<le> ?n"
    using assms(1) by (auto simp: colors_ok_def)
  note upd = pair_of_update [OF ok(1,2) assms(2,3)]
  have new: "(0, f, b) \<notin> set (cl_inits c)" using colors_ok_range [OF assms(1), of 0] by auto
  have "length (cl_map c ! nat (f + 1)) = 9" using ok assms(2) by (auto simp: color_range_def)
  then have "\<forall>row \<in> set (cl_map c'). length row = 9" using ok(2)
    by (auto simp: c' dest!: set_update_subset_insert [THEN subsetD])
  moreover have "List.map fst (cl_inits c') = [1..cl_assigned c' - 1]"
    using ok(3,4) by (simp add: c' upto_rec2)
  moreover have "\<forall>(p', f', b') \<in> set (cl_inits c'). color_range f' \<and> color_range b' \<and> pair_of c' f' b' = p'"
    using assms(1-3) True upd new unfolding colors_ok_def
    by (auto simp: c' split: prod.splits)
  moreover have "\<forall>f' b'. color_range f' \<longrightarrow> color_range b' \<longrightarrow> pair_of c' f' b' \<noteq> 0 \<longrightarrow>
      (pair_of c' f' b', f', b') \<in> set (cl_inits c')"
    using assms(1-3) True upd unfolding colors_ok_def by (auto simp: c')
  ultimately have "colors_ok pairs c'" using ok(1,4) True unfolding colors_ok_def by (auto simp: c')
  then show ?thesis using upd [OF assms(2,3)] ok(4) by (auto simp: c')
qed

lemma obind_Inr: "obind m k s = (Inr y, s') \<longleftrightarrow> (\<exists>x s1. m s = (Inr x, s1) \<and> k x s1 = (Inr y, s'))"
  by (auto simp: obind_def split: prod.split sum.split)

lemma opt_color_range: "opt_color conv args n s = (Inr x, s') \<Longrightarrow> color_range x"
  by (auto simp: opt_color_def obind_Inr ret_def lift_def throw_def argcheck_def color_range_def
      split: sum.splits if_splits)

lemma colorset_args_range:
  "colorset_args conv args s = (Inr (f, b, win), s') \<Longrightarrow> color_range f \<and> color_range b"
  unfolding colorset_args_def obind_Inr by (auto simp: ret_def dest: opt_color_range)

lemma colors_ok_colorset:
  assumes "colors_ok pairs c" "l_colorset pairs conv args c s = (r, c', s')"
  shows "colors_ok pairs c'"
proof (cases "colorset_args conv args s")
  case (Pair q s1)
  show ?thesis
  proof (cases q)
    case (Inl e)
    with Pair assms show ?thesis by (simp add: l_colorset_def)
  next
    case (Inr x)
    obtain f b win where x: "x = (f, b, win)" by (cases x)
    obtain p c1 where p: "color_pair pairs f b c = (p, c1)" by fastforce
    have "color_range f \<and> color_range b" using colorset_args_range Pair Inr x by simp
    with colors_ok_pair [OF assms(1) _ _ p] have "colors_ok pairs c1" by blast
    with assms(2) Pair Inr x p show ?thesis by (auto simp: l_colorset_def split: prod.splits)
  qed
qed

lemma colors_ok_run: "colors_ok pairs c \<Longrightarrow> colors_ok pairs (fst (colorset_run pairs conv calls (c, s)))"
proof (induction calls arbitrary: c s)
  case (Cons args calls)
  obtain r c1 s1 where l: "l_colorset pairs conv args c s = (r, c1, s1)" by (cases "l_colorset pairs conv args c s") auto
  with Cons.IH [OF colors_ok_colorset [OF Cons.prems l]] show ?case by (simp add: colorset_run_def)
qed (simp add: colorset_run_def)

text \<open>
  Colour pairs: after any calls of \<open>colorset\<close> every pair of the terminal has been initialised at most once,
  with numbers from 1 up that stay below \<open>COLOR_PAIRS\<close>; and the number selected for two colours is one
  that was initialised with exactly these colours, or 0, the default, which means that both colours are
  the default or that the terminal has no pair left.
\<close>

theorem colorset_pairs:
  assumes "- 1 \<le> fore \<and> fore \<le> 7" "- 1 \<le> back \<and> back \<le> 7"
  shows "let c = fst (colorset_run pairs conv calls (colors_start, s))
    in case color_pair pairs fore back c of
         (p, c') \<Rightarrow>
           distinct (List.map fst (cl_inits c')) \<and> cl_assigned c' \<le> max 1 pairs \<and>
           (if p = 0 then fore = - 1 \<and> back = - 1 \<or> pairs \<le> cl_assigned c
            else (p, fore, back) \<in> set (cl_inits c') \<and> 1 \<le> p \<and> p < cl_assigned c')"
proof -
  let ?c = "fst (colorset_run pairs conv calls (colors_start, s))"
  obtain p c' where p: "color_pair pairs fore back ?c = (p, c')" by fastforce
  have "colors_ok pairs ?c" by (intro colors_ok_run) (simp add: colors_ok_start)
  then have r: "colors_ok pairs c'" "p = pair_of c' fore back"
    "p = 0 \<longrightarrow> fore = - 1 \<and> back = - 1 \<or> pairs \<le> cl_assigned ?c"
    using colors_ok_pair [OF _ _ _ p] assms by (auto simp: color_range_def)
  have "distinct (List.map fst (cl_inits c'))" using r(1) by (simp add: colors_ok_def)
  moreover have "cl_assigned c' \<le> max 1 pairs" using r(1) by (simp add: colors_ok_def)
  moreover have "p \<noteq> 0 \<longrightarrow> (p, fore, back) \<in> set (cl_inits c')"
    using r(1,2) assms by (auto simp: colors_ok_def color_range_def)
  ultimately show ?thesis using r(3) colors_ok_range [OF r(1)] p by (auto simp: Let_def)
qed

lemma colorset_pairs_witness:
  "fst (color_pair 8 3 (- 1) (fst (colorset_run 8 plain_conv [[LInt 1], [LInt 3]]
     (colors_start, native_start (\<lambda>_. \<lparr>oc_rc = 0, oc_len = 0, oc_out = [], oc_junk = (\<lambda>_. NUL), oc_strs = [], oc_items = []\<rparr>) 0)))) = 2 \<and>
   (2, 3, - 1) \<in> set (cl_inits (snd (color_pair 8 3 (- 1) (fst (colorset_run 8 plain_conv [[LInt 1], [LInt 3]]
     (colors_start, native_start (\<lambda>_. \<lparr>oc_rc = 0, oc_len = 0, oc_out = [], oc_junk = (\<lambda>_. NUL), oc_strs = [], oc_items = []\<rparr>) 0))))))"
proof -
  let ?s = "native_start (\<lambda>_. \<lparr>oc_rc = 0, oc_len = 0, oc_out = [], oc_junk = (\<lambda>_. NUL), oc_strs = [], oc_items = []\<rparr>) 0"
  have "fst (color_pair 8 3 (- 1) (fst (colorset_run 8 plain_conv [[LInt 1], [LInt 3]] (colors_start, ?s)))) = 2"
    by code_simp
  with colorset_pairs [of 3 "- 1" 8 plain_conv "[[LInt 1], [LInt 3]]" ?s] show ?thesis
    by (simp add: Let_def split: prod.splits)
qed

end
