(* ===== verification/Userdata.thy ===== *)
theory Userdata
  imports HttpServer Certificates Filters Curses
begin

text \<open>
  How C++ objects become Lua userdata: \<open>client/userdata.hpp\<close> and the \<open>push_\<close> functions of the libraries.

  The other theories tell userdata apart by the kind of their object.  In the code the kind is the name
  of a metatable in Lua's registry, and \<open>static_cast\<close> turns the memory into what the name promises;
  this theory shows that the name decides the type, and that a type's metatable holds its own methods.
\<close>

section \<open>Types, names and tables\<close>

datatype cpp_type =
    Connection_ptr | Websocket_ptr | Listener_ptr | Steady_timer
  | X509_ptr | EVP_PKEY_ptr | EVP_MD_ptr | BIGNUM_ptr | WINDOW_ptr | GeoIP_ptr

fun udata_name :: "cpp_type \<Rightarrow> string" where
  "udata_name Connection_ptr = ''irc_connection''"
| "udata_name Websocket_ptr = ''websocket''"
| "udata_name Listener_ptr = ''listener''"
| "udata_name Steady_timer = ''steady_timer''"
| "udata_name X509_ptr = ''X509*''"
| "udata_name EVP_PKEY_ptr = ''EVP_PKEY*''"
| "udata_name EVP_MD_ptr = ''EVP_MD*''"
| "udata_name BIGNUM_ptr = ''BN*''"
| "udata_name WINDOW_ptr = ''WINDOW*''"
| "udata_name GeoIP_ptr = ''GeoIP*''"

lemma udata_name_inj: "udata_name T = udata_name T' \<longleftrightarrow> T = T'"
  by (cases T; cases T') simp_all

text \<open>The metamethods of a table and the methods in its \<open>__index\<close>.\<close>

record class_table =
  ct_meta :: "string list"
  ct_index :: "string list"

definition is_metamethod :: "string \<Rightarrow> bool" where
  "is_metamethod name \<longleftrightarrow> take 2 name = ''__''"

text \<open>One list with the entries of both of a class's \<open>luaL_Reg\<close> tables, taken apart again.\<close>

definition class_of :: "(string \<times> 'f) list \<Rightarrow> class_table" where
  "class_of t = \<lparr>ct_meta = filter is_metamethod (List.map fst t), ct_index = filter (\<lambda>n. \<not> is_metamethod n) (List.map fst t)\<rparr>"

definition irc_class :: class_table where
  "irc_class = \<lparr>ct_meta = [''__gc''], ct_index = [''send'', ''close'']\<rparr>"

definition timer_class :: class_table where
  "timer_class = \<lparr>ct_meta = [''__gc''], ct_index = [''start'', ''cancel'']\<rparr>"

definition bignum_class :: class_table where
  "bignum_class = \<lparr>ct_meta = [''__tostring'', ''__gc'', ''__close'', ''__idiv'', ''__mod'', ''__unm'', ''__add'',
     ''__sub'', ''__mul'', ''__pow'', ''__shl'', ''__shr'', ''__eq'', ''__lt'', ''__gt'', ''__le''],
     ct_index = [''div_mod'', ''mod_exp'']\<rparr>"

text \<open>The parameters of the bindings do not matter for their names.\<close>

definition plain_ops :: lua_ops where
  "plain_ops = \<lparr>lo_len = \<lambda>_. 0, lo_getfield = \<lambda>_ _. Inr LNil, lo_unsigned = \<lambda>_. 0, lo_number = \<lambda>_. None\<rparr>"

definition window_class :: class_table where
  "window_class =
     class_of (curses_methods 0 colors_start plain_conv Window_MT @ curses_methods 0 colors_start plain_conv Window_Methods)"

definition geoip_class :: class_table where
  "geoip_class = class_of (filter_methods plain_ops plain_conv GeoIP_MT @ filter_methods plain_ops plain_conv GeoIP_DbM)"

fun push_metatable :: "cpp_type \<Rightarrow> class_table" where
  "push_metatable Connection_ptr = irc_class"
| "push_metatable Websocket_ptr = class_of (WsMT @ WsM plain_conv)"
| "push_metatable Listener_ptr = class_of (ListenerMT @ ListenerM)"
| "push_metatable Steady_timer = timer_class"
| "push_metatable X509_ptr = class_of (X509Methods plain_conv)"
| "push_metatable EVP_PKEY_ptr = class_of (PkeyMethods plain_conv)"
| "push_metatable EVP_MD_ptr = class_of (DigestMethods plain_conv)"
| "push_metatable BIGNUM_ptr = bignum_class"
| "push_metatable WINDOW_ptr = window_class"
| "push_metatable GeoIP_ptr = geoip_class"

section \<open>The registry\<close>

text \<open>
  \<open>lt_registry\<close> gives the metatable of a name, as a position in \<open>lt_tables\<close>; \<open>lt_objects\<close> are the userdata:
  the type of what is in their memory, and their metatable.
\<close>

record lua_types =
  lt_registry :: "(string \<times> nat) list"
  lt_tables :: "class_table list"
  lt_objects :: "(cpp_type \<times> nat option) list"

definition types_start :: lua_types where
  "types_start = \<lparr>lt_registry = [], lt_tables = [], lt_objects = []\<rparr>"

definition empty_class :: class_table where "empty_class = \<lparr>ct_meta = [], ct_index = []\<rparr>"

text \<open>\<open>luaL_newmetatable\<close>: the table of the name, and whether it had to be created.\<close>

definition luaL_newmetatable :: "string \<Rightarrow> lua_types \<Rightarrow> bool \<times> nat \<times> lua_types" where
  "luaL_newmetatable name st =
     (case map_of (lt_registry st) name of
        Some i \<Rightarrow> (False, i, st)
      | None \<Rightarrow>
          (let i = length (lt_tables st)
           in (True, i, st\<lparr>lt_registry := (name, i) # lt_registry st, lt_tables := lt_tables st @ [empty_class]\<rparr>)))"

text \<open>A metatable that was just created is filled in: \<open>new_udata\<close> and the \<open>push_\<close> functions.\<close>

definition with_metatable :: "cpp_type \<Rightarrow> lua_types \<Rightarrow> nat \<times> lua_types" where
  "with_metatable T st =
     (case luaL_newmetatable (udata_name T) st of
        (fresh, i, st) \<Rightarrow> (i, if fresh then st\<lparr>lt_tables := (lt_tables st)[i := push_metatable T]\<rparr> else st))"

definition new_udata :: "cpp_type \<Rightarrow> lua_types \<Rightarrow> lua_types" where
  "new_udata T st =
     (case with_metatable T st of (i, st) \<Rightarrow> st\<lparr>lt_objects := lt_objects st @ [(T, Some i)]\<rparr>)"

text \<open>\<open>luaopen_mygeoip\<close> fills in its metatable, and \<open>open_db\<close> uses what is registered.\<close>

definition luaopen_mygeoip :: "lua_types \<Rightarrow> lua_types" where
  "luaopen_mygeoip st = snd (with_metatable GeoIP_ptr st)"

definition geoip_udata :: "lua_types \<Rightarrow> lua_types" where
  "geoip_udata st = st\<lparr>lt_objects := lt_objects st @ [(GeoIP_ptr, map_of (lt_registry st) (udata_name GeoIP_ptr))]\<rparr>"

text \<open>\<open>check_udata\<close>: whether the metatable of an object is the one registered for the type.\<close>

definition check_udata :: "cpp_type \<Rightarrow> nat \<Rightarrow> lua_types \<Rightarrow> bool" where
  "check_udata T n st =
     (n < length (lt_objects st) \<and> snd (lt_objects st ! n) \<noteq> None \<and>
      snd (lt_objects st ! n) = map_of (lt_registry st) (udata_name T))"

text \<open>
  What happens to the registry: objects of this program, and metatables of other libraries, such as
  that of Lua's files.
\<close>

datatype type_event = NewObject cpp_type | OpenGeoIP | GeoIPObject | OtherMetatable string class_table

fun type_step :: "type_event \<Rightarrow> lua_types \<Rightarrow> lua_types" where
  "type_step (NewObject T) st = (if T = GeoIP_ptr then st else new_udata T st)"
| "type_step OpenGeoIP st = luaopen_mygeoip st"
| "type_step GeoIPObject st = geoip_udata st"
| "type_step (OtherMetatable name t) st =
     (case luaL_newmetatable name st of
        (fresh, i, st) \<Rightarrow> if fresh then st\<lparr>lt_tables := (lt_tables st)[i := t]\<rparr> else st)"

definition foreign :: "type_event \<Rightarrow> bool" where
  "foreign e \<longleftrightarrow> (\<forall>name t. e = OtherMetatable name t \<longrightarrow> (\<forall>T. name \<noteq> udata_name T))"

section \<open>The name decides the type\<close>

definition types_ok :: "lua_types \<Rightarrow> bool" where
  "types_ok st \<longleftrightarrow>
     distinct (List.map snd (lt_registry st)) \<and> snd ` set (lt_registry st) \<subseteq> {..<length (lt_tables st)} \<and>
     (\<forall>T i. map_of (lt_registry st) (udata_name T) = Some i \<longrightarrow> lt_tables st ! i = push_metatable T) \<and>
     (\<forall>(T, m) \<in> set (lt_objects st). m \<noteq> None \<longrightarrow> map_of (lt_registry st) (udata_name T) = m)"

lemma registry_range:
  "types_ok st \<Longrightarrow> map_of (lt_registry st) name = Some i \<Longrightarrow> i < length (lt_tables st)"
  by (auto simp: types_ok_def dest!: map_of_SomeD)

lemma registry_inj:
  assumes "types_ok st" "map_of (lt_registry st) a = Some i" "map_of (lt_registry st) b = Some i"
  shows "a = b"
proof -
  have "(a, i) \<in> set (lt_registry st)" "(b, i) \<in> set (lt_registry st)"
    using assms(2,3) by (auto dest: map_of_SomeD)
  moreover have "distinct (List.map snd (lt_registry st))" using assms(1) by (simp add: types_ok_def)
  ultimately show ?thesis by (metis eq_key_imp_eq_value distinct_map inj_on_contraD prod.inject snd_conv)
qed

lemma registered_table:
  assumes "types_ok st" "map_of (lt_registry st) (udata_name T) = Some i"
  shows "lt_tables st ! i = push_metatable T"
  using assms unfolding types_ok_def by blast

lemma object_registered:
  assumes "types_ok st" "(T, Some i) \<in> set (lt_objects st)"
  shows "map_of (lt_registry st) (udata_name T) = Some i"
proof -
  have "\<forall>(T, m) \<in> set (lt_objects st). m \<noteq> None \<longrightarrow> map_of (lt_registry st) (udata_name T) = m"
    using assms(1) by (simp add: types_ok_def)
  from bspec [OF this assms(2)] show ?thesis by simp
qed

text \<open>A name that is not registered gets a table of its own.\<close>

lemma types_ok_fresh:
  assumes "types_ok st" "map_of (lt_registry st) name = None"
    "\<And>T. udata_name T = name \<Longrightarrow> t = push_metatable T"
  shows "types_ok (st\<lparr>lt_registry := (name, length (lt_tables st)) # lt_registry st, lt_tables := lt_tables st @ [t]\<rparr>)"
proof -
  have "i < length (lt_tables st)" if "map_of (lt_registry st) (udata_name T) = Some i" for T i
    using registry_range [OF assms(1) that] .
  moreover have "map_of (lt_registry st) (udata_name T) = None" if "udata_name T = name" for T
    using assms(2) that by simp
  ultimately show ?thesis
    using assms(1,3) by (fastforce simp: types_ok_def nth_append)
qed

lemma newmetatable_ok:
  assumes "types_ok st" "luaL_newmetatable name st = (fresh, i, st')"
    "\<And>T. udata_name T = name \<Longrightarrow> t = push_metatable T"
  shows "types_ok (if fresh then st'\<lparr>lt_tables := (lt_tables st')[i := t]\<rparr> else st')"
    "map_of (lt_registry st') name = Some i" "lt_objects st' = lt_objects st"
proof -
  show "types_ok (if fresh then st'\<lparr>lt_tables := (lt_tables st')[i := t]\<rparr> else st')"
  proof (cases "map_of (lt_registry st) name")
    case None
    with assms(2) have "fresh" "st'\<lparr>lt_tables := (lt_tables st')[i := t]\<rparr> =
        st\<lparr>lt_registry := (name, length (lt_tables st)) # lt_registry st, lt_tables := lt_tables st @ [t]\<rparr>"
      by (auto simp: luaL_newmetatable_def Let_def)
    with types_ok_fresh [OF assms(1) None assms(3)] show ?thesis by simp
  qed (use assms(1,2) in \<open>auto simp: luaL_newmetatable_def\<close>)
qed (use assms(2) in \<open>auto simp: luaL_newmetatable_def Let_def split: option.splits\<close>)

lemma types_ok_object:
  "types_ok st \<Longrightarrow> m = map_of (lt_registry st) (udata_name T) \<Longrightarrow>
   types_ok (st\<lparr>lt_objects := lt_objects st @ [(T, m)]\<rparr>)"
  by (auto simp: types_ok_def)

lemma with_metatable_ok:
  assumes "types_ok st" "with_metatable T st = (i, st')"
  shows "types_ok st'" "map_of (lt_registry st') (udata_name T) = Some i" "lt_objects st' = lt_objects st"
proof -
  obtain fresh i' st1 where n: "luaL_newmetatable (udata_name T) st = (fresh, i', st1)" by (rule prod_cases3)
  have t: "push_metatable T = push_metatable T'" if "udata_name T' = udata_name T" for T'
    using that udata_name_inj by simp
  note ok = newmetatable_ok [OF assms(1) n t]
  from assms(2) n have "st' = (if fresh then st1\<lparr>lt_tables := (lt_tables st1)[i' := push_metatable T]\<rparr> else st1)" "i = i'"
    by (simp_all add: with_metatable_def)
  with ok show "types_ok st'" "map_of (lt_registry st') (udata_name T) = Some i" "lt_objects st' = lt_objects st"
    by simp_all
qed

lemma types_ok_step:
  assumes "types_ok st" "foreign e"
  shows "types_ok (type_step e st)"
proof (cases e)
  case (NewObject T)
  obtain i st' where w: "with_metatable T st = (i, st')" by fastforce
  from with_metatable_ok [OF assms(1) w] have "types_ok (st'\<lparr>lt_objects := lt_objects st' @ [(T, Some i)]\<rparr>)"
    by (intro types_ok_object) simp_all
  with NewObject w assms(1) show ?thesis by (simp add: new_udata_def)
next
  case OpenGeoIP
  obtain i st' where w: "with_metatable GeoIP_ptr st = (i, st')" by fastforce
  with with_metatable_ok [OF assms(1) w] OpenGeoIP show ?thesis by (simp add: luaopen_mygeoip_def)
next
  case GeoIPObject
  with assms(1) show ?thesis by (simp add: geoip_udata_def types_ok_object)
next
  case (OtherMetatable name t)
  obtain fresh i st' where n: "luaL_newmetatable name st = (fresh, i, st')" by (rule prod_cases3)
  from assms(2) OtherMetatable have "t = push_metatable T" if "udata_name T = name" for T
    using that by (auto simp: foreign_def)
  from newmetatable_ok(1) [OF assms(1) n this] n OtherMetatable show ?thesis by simp
qed

interpretation types_machine: total_machine type_step foreign types_ok
  by unfold_locales (rule types_ok_step)

text \<open>
  C31: type safety of userdata: in whatever order objects are made and the libraries loaded, \<open>check_udata\<close> accepts
  an object for a type only if an object of that type is in its memory, and every accepted object has
  exactly the methods and metamethods of its type.
\<close>

theorem udata_types_sound:
  assumes "list_all foreign es" "st = fold type_step es types_start" "check_udata T n st"
  shows "fst (lt_objects st ! n) = T \<and>
    map_option (\<lambda>i. lt_tables st ! i) (snd (lt_objects st ! n)) = Some (push_metatable T)"
proof -
  have "types_ok types_start" by (simp add: types_ok_def types_start_def)
  from types_machine.fold_inv [OF this assms(1)] have ok: "types_ok st" by (simp only: assms(2))
  from assms(3) obtain T' i where n: "n < length (lt_objects st)" "lt_objects st ! n = (T', Some i)"
    "map_of (lt_registry st) (udata_name T) = Some i"
    by (cases "lt_objects st ! n") (auto simp: check_udata_def)
  then have o: "(T', Some i) \<in> set (lt_objects st)" "lt_objects st ! n = (T', Some i)"
    "map_of (lt_registry st) (udata_name T) = Some i"
    by (metis nth_mem)+
  have "map_of (lt_registry st) (udata_name T') = Some i" by (rule object_registered [OF ok o(1)])
  from registry_inj [OF ok this o(3)] have "T' = T" by (simp only: udata_name_inj)
  with o(2) registered_table [OF ok o(3)] show ?thesis by simp
qed

lemma udata_types_sound_witness:
  "let st = fold type_step [OtherMetatable ''FILE*'' empty_class, NewObject X509_ptr, NewObject Websocket_ptr,
       NewObject X509_ptr] types_start
   in check_udata X509_ptr 2 st \<and> \<not> check_udata Websocket_ptr 0 st \<and>
      map_option (\<lambda>i. ct_index (lt_tables st ! i)) (snd (lt_objects st ! 1)) = Some [''send'', ''close'', ''on_recv'']"
proof -
  let ?es = "[OtherMetatable ''FILE*'' empty_class, NewObject X509_ptr, NewObject Websocket_ptr, NewObject X509_ptr]"
  let ?st = "fold type_step ?es types_start"
  have "name \<noteq> udata_name T" if "name = ''FILE*''" for name T using that by (cases T) simp_all
  then have "list_all foreign ?es" by (simp add: foreign_def)
  moreover have checks: "check_udata X509_ptr 2 ?st" "\<not> check_udata Websocket_ptr 0 ?st" "check_udata Websocket_ptr 1 ?st"
    by code_simp+
  ultimately have "map_option (\<lambda>i. lt_tables ?st ! i) (snd (lt_objects ?st ! 1)) = Some (push_metatable Websocket_ptr)"
    using udata_types_sound [OF _ refl] by blast
  moreover have "ct_index (push_metatable Websocket_ptr) = [''send'', ''close'', ''on_recv'']" by code_simp
  ultimately have "map_option (\<lambda>i. ct_index (lt_tables ?st ! i)) (snd (lt_objects ?st ! 1)) =
      Some [''send'', ''close'', ''on_recv'']"
    by (auto simp del: push_metatable.simps)
  with checks show ?thesis unfolding Let_def by blast
qed

end
