(* ===== verification/Archive.thy ===== *)
theory Archive
  imports NativeObjects
begin

text \<open>
  \<open>myarchive/myarchive.c\<close>: reading and writing archives with libarchive.

  The results \<open>archive_read_next_header\<close> has for an archive are the codes in the outcome of opening it,
  then the end; what it tells of an entry are the outcomes of the calls.  Following a null pointer, and
  \<open>lua_next\<close> on something that is no table, end the program as \<open>abort\<close> does.
\<close>

definition ARCHIVE_EOF :: int where "ARCHIVE_EOF = 1"
definition ARCHIVE_OK :: int where "ARCHIVE_OK = 0"
definition ARCHIVE_RETRY :: int where "ARCHIVE_RETRY = - 10"
definition ARCHIVE_WARN :: int where "ARCHIVE_WARN = - 20"
definition ARCHIVE_FAILED :: int where "ARCHIVE_FAILED = - 25"
definition ARCHIVE_FATAL :: int where "ARCHIVE_FATAL = - 30"

lemmas archive_codes = ARCHIVE_EOF_def ARCHIVE_OK_def ARCHIVE_RETRY_def ARCHIVE_WARN_def ARCHIVE_FAILED_def
  ARCHIVE_FATAL_def

text \<open>\<open>lua_pushstring\<close> of a pointer from the library: a null pointer pushes nil.\<close>

definition push_cstr :: "outcome \<Rightarrow> lua_value" where
  "push_cstr r = (case oc_strs r of [] \<Rightarrow> LNil | s # _ \<Rightarrow> LStr (c_str s))"

text \<open>The failure returns: nil and the error text, fetched before the archive is freed.\<close>

definition archive_fail :: "string \<Rightarrow> object \<Rightarrow> lua_value list binding" where
  "archive_fail free a =
     obind (call ''archive_error_string'' [] [a]) (\<lambda>r.
     obind (release free a) (\<lambda>_. ret [LNil, push_cstr r]))"

definition open_reader :: "object binding" where
  "open_reader =
     obind (receive ArchiveObj ''archive_read_new'') (\<lambda>a.
     obind (call ''archive_read_support_format_all'' [] [a]) (\<lambda>_.
     obind (call ''archive_read_support_filter_all'' [] [a]) (\<lambda>_. ret a)))"

definition header_codes :: "outcome \<Rightarrow> int list" where
  "header_codes r = List.map (\<lambda>(_, code, _). code) (oc_items r)"

text \<open>A Lua string of the size the entry claims, and as much of it as the archive holds.\<close>

definition read_entry :: "object \<Rightarrow> lua_value binding" where
  "read_entry a =
     obind (call ''archive_entry_size'' [] [a]) (\<lambda>r.
       let size = oc_rc r in
       obind (luaL_buffinitsize size) (\<lambda>_.
       obind (call ''archive_read_data'' [LInt size] [a]) (\<lambda>r. ret (buffer_bytes size r))))"

section \<open>\<open>get_archive_file\<close>\<close>

fun find_entry :: "string \<Rightarrow> object \<Rightarrow> int list \<Rightarrow> lua_value list binding" where
  "find_entry target a [] =
     obind (call ''archive_read_next_header'' [LInt ARCHIVE_EOF] [a]) (\<lambda>_.
     obind (release ''archive_read_free'' a) (\<lambda>_. ret [LNil, LStr ''entry not found'']))"
| "find_entry target a (code # codes) =
     obind (call ''archive_read_next_header'' [LInt code] [a]) (\<lambda>_.
       if code = ARCHIVE_OK \<or> code = ARCHIVE_WARN then
         obind (call ''archive_entry_pathname_utf8'' [] [a]) (\<lambda>r.
           case oc_strs r of
             [] \<Rightarrow> terminate ''strcmp of a null pointer''
           | path # _ \<Rightarrow>
               if target = c_str path then
                 obind (read_entry a) (\<lambda>data.
                 obind (release ''archive_read_free'' a) (\<lambda>_. ret [data]))
               else find_entry target a codes)
       else if code = ARCHIVE_EOF then
         obind (release ''archive_read_free'' a) (\<lambda>_. ret [LNil, LStr ''entry not found''])
       else if code = ARCHIVE_RETRY then find_entry target a codes
       else if code = ARCHIVE_FATAL then archive_fail ''archive_read_free'' a
       else terminate ''abort'')"

definition l_get_archive_file :: "lua_conv \<Rightarrow> lua_value list \<Rightarrow> lua_value list binding" where
  "l_get_archive_file conv args =
     obind (check_cstr conv args 1) (\<lambda>archive.
     obind (check_cstr conv args 2) (\<lambda>target.
     obind open_reader (\<lambda>a.
     obind (call ''archive_read_open_filename'' [LStr archive, LInt 10240] [a]) (\<lambda>r.
       if oc_rc r \<noteq> ARCHIVE_OK then archive_fail ''archive_read_free'' a
       else find_entry target a (header_codes r)))))"

section \<open>\<open>get_archive\<close>\<close>

text \<open>The loop; \<open>lua_rawset\<close> with a nil key, which a null path name is, raises an error.\<close>

fun all_entries :: "object \<Rightarrow> int list \<Rightarrow> (lua_value \<times> lua_value) list \<Rightarrow> lua_value list binding" where
  "all_entries a [] t =
     obind (call ''archive_read_next_header'' [LInt ARCHIVE_EOF] [a]) (\<lambda>_.
     obind (release ''archive_read_free'' a) (\<lambda>_. ret [LTable t]))"
| "all_entries a (code # codes) t =
     obind (call ''archive_read_next_header'' [LInt code] [a]) (\<lambda>_.
       if code = ARCHIVE_OK \<or> code = ARCHIVE_WARN then
         obind (call ''archive_entry_pathname_utf8'' [] [a]) (\<lambda>r.
         obind (read_entry a) (\<lambda>data.
           if push_cstr r = LNil then throw (LuaErr (LStr ''index is nil''))
           else all_entries a codes (AList.update (push_cstr r) data t)))
       else if code = ARCHIVE_EOF then obind (release ''archive_read_free'' a) (\<lambda>_. ret [LTable t])
       else if code = ARCHIVE_RETRY then all_entries a codes t
       else if code = ARCHIVE_FATAL \<or> code = ARCHIVE_FAILED then archive_fail ''archive_read_free'' a
       else terminate ''abort'')"

definition l_get_archive :: "lua_conv \<Rightarrow> lua_value list \<Rightarrow> lua_value list binding" where
  "l_get_archive conv args =
     obind (check_cstr conv args 1) (\<lambda>archive.
     obind open_reader (\<lambda>a.
     obind (call ''archive_read_open_filename'' [LStr archive, LInt 10240] [a]) (\<lambda>r.
       if oc_rc r = ARCHIVE_FAILED then archive_fail ''archive_read_free'' a
       else all_entries a (header_codes r) [])))"

section \<open>\<open>save_archive\<close>\<close>

text \<open>The failure returns inside the loop; the mode is \<open>AE_IFREG | 0666\<close>.\<close>

definition entry_fail :: "object \<Rightarrow> object \<Rightarrow> lua_value list binding" where
  "entry_fail a entry =
     obind (call ''archive_error_string'' [] [a]) (\<lambda>r.
     obind (release ''archive_entry_free'' entry) (\<lambda>_.
     obind (release ''archive_write_free'' a) (\<lambda>_. ret [LNil, push_cstr r])))"

fun write_entries ::
  "(lua_value \<Rightarrow> string) \<Rightarrow> object \<Rightarrow> object \<Rightarrow> (lua_value \<times> lua_value) list \<Rightarrow> lua_value list binding" where
  "write_entries tolstr a entry [] =
     obind (release ''archive_entry_free'' entry) (\<lambda>_.
     obind (release ''archive_write_free'' a) (\<lambda>_. ret [LBool True]))"
| "write_entries tolstr a entry ((k, v) # es) =
     obind (call ''archive_entry_clear'' [] [entry]) (\<lambda>_.
     obind (call ''archive_entry_set_pathname_utf8'' [LStr (c_str (tolstr k))] [entry]) (\<lambda>_.
     obind (call ''archive_entry_set_size'' [LInt (int (length (tolstr v)))] [entry]) (\<lambda>_.
     obind (call ''archive_entry_set_mode'' [LInt 33206] [entry]) (\<lambda>_.
     obind (call ''archive_write_header'' [] [a, entry]) (\<lambda>r.
       if oc_rc r \<noteq> ARCHIVE_OK then entry_fail a entry
       else
         obind (call ''archive_write_data'' [LStr (tolstr v)] [a]) (\<lambda>r.
           if 0 > oc_rc r then entry_fail a entry
           else write_entries tolstr a entry es))))))"

definition l_save_archive ::
  "(lua_value \<Rightarrow> string) \<Rightarrow> lua_conv \<Rightarrow> lua_value list \<Rightarrow> lua_value list binding" where
  "l_save_archive tolstr conv args =
     obind (check_cstr conv args 1) (\<lambda>filename.
     obind (lift (checkany args 2)) (\<lambda>_.
     obind (create FileDescr ''open'' [LStr filename, LInt 438] []) (\<lambda>fd.
     case fd of
       None \<Rightarrow> obind (call ''strerror'' [] []) (\<lambda>r. ret [LNil, push_cstr r])
     | Some fd \<Rightarrow>
         obind (receive ArchiveObj ''archive_write_new'') (\<lambda>a.
         obind (receive ArchiveEntry ''archive_entry_new'') (\<lambda>entry.
         obind (call ''archive_write_set_format_filter_by_ext'' [LStr filename] [a]) (\<lambda>r.
         obind (if oc_rc r \<noteq> ARCHIVE_OK
                then obind (call ''archive_write_add_filter_gzip'' [] [a]) (\<lambda>_.
                       call ''archive_write_set_format_ustar'' [] [a])
                else ret r) (\<lambda>_.
         obind (call ''archive_write_open_fd'' [] [a, fd]) (\<lambda>r.
           if oc_rc r \<noteq> ARCHIVE_OK then
             obind (release ''close'' fd) (\<lambda>_. archive_fail ''archive_write_free'' a)
           else
             (case lua_arg args 2 of
                Some (LTable es) \<Rightarrow> write_entries tolstr a entry es
              | _ \<Rightarrow> terminate ''lua_next'')))))))))"

section \<open>What the bindings leave behind\<close>

text \<open>Reading frees the archive whenever it returns; a Lua error leaves it.\<close>

definition reader_leaves :: "lua_error + lua_value list \<Rightarrow> object list \<Rightarrow> bool" where
  "reader_leaves r t \<longleftrightarrow> (case r of Inr _ \<Rightarrow> t = [] | Inl _ \<Rightarrow> length t \<le> 1)"

lemma reader_leaves_simps [simp]:
  "reader_leaves (Inr vs) t \<longleftrightarrow> t = []" "reader_leaves (Inl e) t \<longleftrightarrow> length t \<le> 1"
  by (simp_all add: reader_leaves_def)

lemma leaves_find_entry:
  "leaves reader_leaves mem known [(h, ArchiveObj)] (find_entry target (h, ArchiveObj) codes)"
  by (induction codes) (auto simp: archive_fail_def read_entry_def Let_def intro!: safe_intros)

lemma leaves_all_entries:
  "leaves reader_leaves mem known [(h, ArchiveObj)] (all_entries (h, ArchiveObj) codes t)"
  by (induction codes arbitrary: t) (auto simp: archive_fail_def read_entry_def Let_def intro!: safe_intros)

lemma leaves_get_archive:
  "leaves reader_leaves mem {} [] (l_get_archive_file conv args)"
  "leaves reader_leaves mem {} [] (l_get_archive conv args)"
  by (auto simp: l_get_archive_file_def l_get_archive_def archive_fail_def open_reader_def argument_defs
      intro!: safe_intros leaves_find_entry leaves_all_entries)

text \<open>What is held over what was held before, by kind, latest first.\<close>

fun held :: "okind list \<Rightarrow> object list \<Rightarrow> object list \<Rightarrow> bool" where
  "held [] before tmp \<longleftrightarrow> tmp = before"
| "held (k # ks) before [] \<longleftrightarrow> False"
| "held (k # ks) before (obj # tmp) \<longleftrightarrow> snd obj = k \<and> held ks before tmp"

text \<open>
  Writing: on success, and when an entry could not be written, the file descriptor stays open; when the
  archive could not be opened the entry is not freed.
\<close>

definition save_leaves :: "object list \<Rightarrow> lua_error + lua_value list \<Rightarrow> object list \<Rightarrow> bool" where
  "save_leaves before r t \<longleftrightarrow>
     (case r of
        Inr vs \<Rightarrow>
          if vs = [LBool True] then held [FileDescr] before t
          else held [] before t \<or> held [ArchiveEntry] before t \<or> held [FileDescr] before t
      | Inl (Terminates _) \<Rightarrow> t = [] \<or> t = before
      | Inl _ \<Rightarrow> t = before)"

lemma save_leaves_simps [simp]:
  "save_leaves before (Inr [LBool True]) t \<longleftrightarrow> held [FileDescr] before t"
  "save_leaves before (Inr [LNil, v]) t \<longleftrightarrow>
     held [] before t \<or> held [ArchiveEntry] before t \<or> held [FileDescr] before t"
  "save_leaves before (Inl (Terminates w)) t \<longleftrightarrow> t = [] \<or> t = before"
  by (simp_all add: save_leaves_def)

lemma save_leaves_error [simp]: "save_leaves before (Inl e) before"
  by (cases e) (simp_all add: save_leaves_def)

lemma leaves_write_entries:
  "leaves (save_leaves before) mem known ((e, ArchiveEntry) # (a, ArchiveObj) # (fd, FileDescr) # before)
     (write_entries tolstr (a, ArchiveObj) (e, ArchiveEntry) es)"
  by (induction es) (auto simp: entry_fail_def intro!: safe_intros)

lemma leaves_lua_value [safe_intros]:
  "(\<And>es. v = Some (LTable es) \<Longrightarrow> leaves Q mem known tmp (m es)) \<Longrightarrow>
   ((\<nexists>es. v = Some (LTable es)) \<Longrightarrow> leaves Q mem known tmp m') \<Longrightarrow>
   leaves Q mem known tmp (case v of Some (LTable es) \<Rightarrow> m es | _ \<Rightarrow> m')"
  by (auto split: option.split lua_value.split)

lemma leaves_save_archive:
  "leaves (save_leaves before) mem {} before (l_save_archive tolstr conv args)"
  by (auto simp: l_save_archive_def archive_fail_def argument_defs
      intro!: safe_intros leaves_write_entries)

text \<open>None of these bindings makes a userdata, or has one of the failures other bindings do not look at.\<close>

definition unboxed :: "'a binding \<Rightarrow> bool" where
  "unboxed m \<longleftrightarrow> 
     (\<forall>s. os_boxes s = [] \<and> \<not> failed_unchecked s \<longrightarrow>
        os_boxes (snd (m s)) = [] \<and> \<not> failed_unchecked (snd (m s)))"

named_theorems unboxed_intros \<open>bindings that make no userdata\<close>

lemma unboxed_bind [unboxed_intros]:
  "unboxed m \<Longrightarrow> (\<And>x. unboxed (k x)) \<Longrightarrow> unboxed (obind m k)"
  by (simp add: unboxed_def obind_def split: prod.split sum.split) (metis snd_conv)

lemma unboxed_steps [unboxed_intros]:
  "unboxed (ret x)" "unboxed (throw e)" "unboxed (terminate w)" "unboxed (luaL_buffinitsize n)"
  by (simp_all add: unboxed_def ret_def throw_def terminate_def luaL_buffinitsize_def obind_def)

lemma unboxed_call [unboxed_intros]:
  "(\<And>r. \<not> unchecked_failure (f, vs, objs) r) \<Longrightarrow> unboxed (call f vs objs)"
  "(\<And>r. \<not> unchecked_failure (f, vs, objs) r) \<Longrightarrow> unboxed (create kind f vs objs)"
  "(\<And>r. \<not> unchecked_failure (f, [], []) r) \<Longrightarrow> unboxed (receive kind f)"
  "(\<And>r. \<not> unchecked_failure (f, [], [obj]) r) \<Longrightarrow> unboxed (release f obj)"
  by (simp_all add: unboxed_def call_def create_def receive_def release_def obind_def unchecked_log)

lemma unboxed_lift [unboxed_intros]: "unboxed (lift r)"
  by (cases r) (simp_all add: lift_def unboxed_steps)

lemma unboxed_cases [unboxed_intros]:
  "unboxed m \<Longrightarrow> unboxed m' \<Longrightarrow> unboxed (if b then m else m')"
  "unboxed n \<Longrightarrow> (\<And>y ys. unboxed (n' y ys)) \<Longrightarrow> unboxed (case xs of [] \<Rightarrow> n | y # ys \<Rightarrow> n' y ys)"
  by (simp_all split: list.split)

lemma unboxed_loops [unboxed_intros]:
  "unboxed (find_entry target a codes)" "unboxed (all_entries a codes t)"
  by (induction codes arbitrary: t)
    (auto simp: archive_fail_def read_entry_def Let_def unchecked_failure_def intro!: unboxed_intros)

lemma unboxed_bindings: "unboxed (l_get_archive_file conv args)" "unboxed (l_get_archive conv args)"
  by (auto simp: l_get_archive_file_def l_get_archive_def archive_fail_def open_reader_def argument_defs
      unchecked_failure_def intro!: unboxed_intros)

lemma unboxed_start:
  assumes "unboxed m" "owned (world_of (\<lambda>_. Inr []) oracle mem) {} t (snd (m (native_start oracle mem)))"
  shows "\<not> os_fault (snd (m (native_start oracle mem))) \<and>
    mset (os_live (snd (m (native_start oracle mem)))) = mset t"
proof -
  let ?s = "snd (m (native_start oracle mem))"
  have "\<not> failed_unchecked (native_start oracle mem)" by (simp add: failed_unchecked_def native_start_def)
  with assms(1) have "boxed ?s = []" "\<not> failed_unchecked ?s"
    by (simp_all add: unboxed_def native_start_def boxed_def)
  moreover from this assms(2) obtain lost where
    l: "\<not> os_fault ?s" "mset (os_live ?s) = mset t + mset lost" "lost_names ?s lost"
    by (auto simp: owned_def intact_def)
  moreover have "lost = []"
    using l(3) assms(2) by (cases lost) (auto simp: owned_def roomy_def world_of_def lost_names_def)
  ultimately show ?thesis by simp
qed

section \<open>Properties\<close>

text \<open>
  C36: Reading from an archive touches only live objects and gives the archive back whenever the function
  returns, with a result or with nil and a message, whatever the archive holds and whichever calls of the
  library fail; a Lua error (no memory for an entry, an entry without a name) loses at most that archive.
\<close>

theorem archive_reads_free:
  assumes "\<And>n. 0 \<le> oc_len (oracle n) \<and> oc_len (oracle n) \<le> mem" "mem < 2 ^ 64"
    "f = l_get_archive_file \<or> f = l_get_archive"
  shows "case f conv args (native_start oracle mem) of
    (Inr vs, s) \<Rightarrow> \<not> os_fault s \<and> os_live s = []
  | (Inl e, s) \<Rightarrow> \<not> os_fault s \<and> length (os_live s) \<le> 1"
proof -
  let ?r = "f conv args (native_start oracle mem)"
  let ?w = "world_of (\<lambda>_. Inr []) oracle mem"
  have l: "leaves reader_leaves ?w {} [] (f conv args)" and u: "unboxed (f conv args)"
    using assms(3) leaves_get_archive unboxed_bindings by (elim disjE; simp)+
  have "owned ?w {} [] (native_start oracle mem)"
    using assms(1,2) unfolding native_start_tolstr by (rule owned_start_with)
  from leavesD [OF l this] obtain t where t: "reader_leaves (fst ?r) t" "owned ?w {} t (snd ?r)" by blast
  with unboxed_start [OF u t(2)] show ?thesis
    by (auto split: prod.split sum.split dest: mset_eq_length)
qed

text \<open>Calls in a row, and the number of open files.\<close>

fun save_all ::
  "(lua_value \<Rightarrow> string) \<Rightarrow> lua_conv \<Rightarrow> lua_value list list \<Rightarrow> native \<Rightarrow> (lua_error + lua_value list) list \<times> native" where
  "save_all tolstr conv [] s = ([], s)"
| "save_all tolstr conv (args # as) s =
     (case l_save_archive tolstr conv args s of (r, s) \<Rightarrow>
        (case save_all tolstr conv as s of (rs, s) \<Rightarrow> (r # rs, s)))"

definition open_files :: "object list \<Rightarrow> nat" where
  "open_files objs = length (filter (\<lambda>obj. snd obj = FileDescr) objs)"

lemma open_files_mset: "open_files objs = size (filter_mset (\<lambda>obj. snd obj = FileDescr) (mset objs))"
  by (simp add: open_files_def flip: size_mset)

lemma held_files: "held [k] before t \<Longrightarrow> open_files t = open_files before + (if k = FileDescr then 1 else 0)"
  by (cases t) (auto simp: open_files_def)

lemma save_files:
  assumes "save_leaves before r t" "\<nexists>w. r = Inl (Terminates w)"
  shows "open_files t \<ge> open_files before + (if r = Inr [LBool True] then 1 else 0)"
  using assms
  by (auto simp: save_leaves_def held_files split: sum.splits lua_error.splits if_splits)

lemma save_all_files:
  "owned mem {} before s \<Longrightarrow> save_all tolstr conv calls s = (rs, s') \<Longrightarrow>
   (\<And>w. Inl (Terminates w) \<notin> set rs) \<Longrightarrow>
   \<exists>t. owned mem {} t s' \<and> open_files before + length (filter (\<lambda>r. r = Inr [LBool True]) rs) \<le> open_files t"
proof (induction calls arbitrary: before s rs)
  case Nil
  then show ?case by auto
next
  case (Cons args calls)
  obtain r s1 where r: "l_save_archive tolstr conv args s = (r, s1)" by fastforce
  obtain rs1 s2 where rs: "save_all tolstr conv calls s1 = (rs1, s2)" by fastforce
  from Cons.prems(2) r rs have e: "rs = r # rs1" "s' = s2" by auto
  from leavesD [OF leaves_save_archive Cons.prems(1), of tolstr conv args] r obtain t1 where
    t1: "save_leaves before r t1" "owned mem {} t1 s1" by auto
  have "\<nexists>w. r = Inl (Terminates w)" using Cons.prems(3) e by auto
  with save_files [OF t1(1)] have
    "open_files before + (if r = Inr [LBool True] then 1 else 0) \<le> open_files t1" by simp
  moreover obtain t where "owned mem {} t s2"
      "open_files t1 + length (filter (\<lambda>r. r = Inr [LBool True]) rs1) \<le> open_files t"
    using Cons.IH [OF t1(2), of rs1] rs Cons.prems(3) e by auto
  ultimately show ?case unfolding e by (intro exI [of _ t]) auto
qed

lemma unboxed_save: "unboxed (l_save_archive tolstr conv args)"
proof -
  have "unboxed (write_entries tolstr a e es)" for a e es
    by (induction es) (auto simp: entry_fail_def unchecked_failure_def intro!: unboxed_intros)
  then show ?thesis
    by (auto simp: l_save_archive_def archive_fail_def argument_defs unchecked_failure_def
        intro!: unboxed_intros split: option.split lua_value.split)
qed

lemma save_all_unboxed:
  "save_all tolstr conv calls s = (rs, s') \<Longrightarrow> os_boxes s = [] \<and> \<not> failed_unchecked s \<Longrightarrow>
   os_boxes s' = [] \<and> \<not> failed_unchecked s'"
proof (induction calls arbitrary: s rs)
  case (Cons args calls)
  from unboxed_save [of tolstr conv args] Cons.prems(2)
  have "os_boxes (snd (l_save_archive tolstr conv args s)) = [] \<and>
      \<not> failed_unchecked (snd (l_save_archive tolstr conv args s))" by (simp add: unboxed_def)
  with Cons.IH Cons.prems(1) show ?case by (auto split: prod.splits)
qed simp

text \<open>
  Writing leaks: each successful \<open>save_archive\<close> leaves the file descriptor it opened, since
  \<open>archive_write_open_fd\<close> does not pass it to the archive to close; so \<open>n\<close> of them leave \<open>n\<close> open files.
\<close>

theorem save_archive_leaks:
  assumes "\<And>n. 0 \<le> oc_len (oracle n) \<and> oc_len (oracle n) \<le> mem" "mem < 2 ^ 64"
    "save_all tolstr conv calls (native_start oracle mem) = (rs, s)" "\<And>w. Inl (Terminates w) \<notin> set rs"
  shows "length (filter (\<lambda>r. r = Inr [LBool True]) rs) \<le> open_files (os_live s)"
proof -
  have "owned (world_of (\<lambda>_. Inr []) oracle mem) {} [] (native_start oracle mem)"
    using assms(1,2) unfolding native_start_tolstr by (rule owned_start_with)
  from save_all_files [OF this assms(3,4)] obtain t where t: "owned (world_of (\<lambda>_. Inr []) oracle mem) {} t s"
    "open_files [] + length (filter (\<lambda>r. r = Inr [LBool True]) rs) \<le> open_files t" by blast
  have "\<not> failed_unchecked s"
    using save_all_unboxed [OF assms(3)] by (simp add: failed_unchecked_def native_start_def)
  with t(1) obtain lost where "mset (os_live s) = mset (boxed s) + mset t + mset lost"
    by (auto simp: owned_def intact_def)
  then have "open_files t \<le> open_files (os_live s)"
    by (simp add: open_files_mset)
  with t(2) show ?thesis by (simp add: open_files_def)
qed

text \<open>A library whose calls succeed; every seventh is the \<open>open\<close> of an archive without entries.\<close>

definition saving :: "nat \<Rightarrow> outcome" where
  "saving n = \<lparr>oc_rc = (if n mod 7 = 0 then 1 else 0), oc_len = 0, oc_out = [], oc_junk = (\<lambda>_. NUL), oc_strs = [], oc_items = []\<rparr>"

lemma save_archive_leaks_witness:
  "fst (save_all (\<lambda>_. ''x'') plain_conv [[LStr ''a.tar'', LTable []], [LStr ''b.tar'', LTable []]] (native_start saving 0))
     = [Inr [LBool True], Inr [LBool True]] \<and>
   2 \<le> open_files (os_live (snd (save_all (\<lambda>_. ''x'') plain_conv
     [[LStr ''a.tar'', LTable []], [LStr ''b.tar'', LTable []]] (native_start saving 0))))"
proof -
  let ?run = "save_all (\<lambda>_. ''x'') plain_conv [[LStr ''a.tar'', LTable []], [LStr ''b.tar'', LTable []]] (native_start saving 0)"
  have r: "fst ?run = [Inr [LBool True], Inr [LBool True]]" by code_simp
  then have "2 \<le> open_files (os_live (snd ?run))"
    using save_archive_leaks [of saving 0, OF _ _ prod.collapse [of ?run, symmetric]]
    by (simp add: saving_def del: save_all.simps)
  with r show ?thesis by blast
qed

lemma archive_reads_free_witness:
  "case l_get_archive_file plain_conv [LStr ''a.tar'', LStr ''f''] (native_start (\<lambda>n. saving 1) 0) of
    (r, s) \<Rightarrow> r = Inr [LNil, LStr ''entry not found''] \<and> os_live s = []"
proof -
  let ?run = "l_get_archive_file plain_conv [LStr ''a.tar'', LStr ''f''] (native_start (\<lambda>n. saving 1) 0)"
  have "fst ?run = Inr [LNil, LStr ''entry not found'']" by code_simp
  with archive_reads_free [of "\<lambda>n. saving 1" 0 l_get_archive_file plain_conv "[LStr ''a.tar'', LStr ''f'']"]
  show ?thesis by (simp add: saving_def split: prod.splits)
qed

end
