(* ===== verification/Spec2Isabelle.thy ===== *)
theory Spec2Isabelle
  imports Base64 IrcRefine IrcSession Socks5 Connection HttpServer LuaRegistry Callbacks Process App
    Applib Terminal Toml TomlText TomlNumbers TomlLoad Certificates Bignum Userdata Archive
begin

text \<open>
  snowcone is a terminal IRC client: a C++ host around a Lua program.  The host runs one event loop, owns
  the sockets, the terminal and the child processes, and calls Lua; the Lua program is data to it.  This
  development models the host, and the libraries written for it, in the order data goes through them.

  \<^bold>\<open>The path of an IRC message.\<close>
  \<^item> \<open>Connection\<close> (\<open>client/net/connection.*\<close>, \<open>stream.hpp\<close>, \<open>client/irc/lua.cpp\<close>): how a connection is made,
    as the sequence of its library calls for any outcome of them (\<open>connect\<close>, \<open>connect_tls\<close>), the settings
    \<open>l_start_irc\<close> reads, the write queue (\<open>connection_write\<close>, \<open>write_done\<close>) and the Lua handle
    (\<open>l_send_irc\<close>, \<open>l_close_irc\<close>).  \<open>Socks5\<close> (\<open>mysocks5\<close>): the proxy handshake it may go through, a state
    machine whose composition with the bytes of a server is \<open>socks_run\<close>; \<open>via_proxy\<close> puts it into \<open>connect\<close>.
  \<^item> \<open>LineBuffer\<close> (\<open>client/net/linebuffer.*\<close>): the receive buffer; an access outside of it is \<open>None\<close>.
  \<^item> \<open>IrcMsg\<close> (\<open>ircmsg\<close>): the parser that cuts a message in place by writing NULs into the buffer.
    \<open>IrcRefine\<close> shows that it never leaves the message and computes \<open>spec_parse\<close>, a function on strings.
  \<^item> \<open>IrcSession\<close> (\<open>client/irc/lua.cpp\<close>): the coroutine that reads, cuts, parses and calls Lua.  Its
    specification \<open>spec_stream\<close> is a function of the concatenated bytes, so the chunks do not matter.
  \<^item> This theory joins the ends: what is put into a write queue comes out of a session, and \<open>irc_session\<close> is
    a session over the connection that \<open>connect\<close> has made.

  \<^bold>\<open>The other services of the host.\<close>
  \<^item> \<open>Httpd\<close> (\<open>client/httpd.cpp\<close>): HTTP sessions and websockets, each a record of its fields and its
    outstanding operations, with one function per completion handler, and the request handler.
    \<open>HttpServer\<close>: the listener, the Lua methods, and \<open>server_step\<close>, everything that can happen to a server.
  \<^item> \<open>Process\<close> (\<open>client/process.cpp\<close>), \<open>Callbacks\<close> (\<open>client/timer.cpp\<close>, \<open>dnslookup.cpp\<close>),
    \<open>LuaRegistry\<close> (\<open>client/LuaRef.hpp\<close>): asynchronous operations and who owns their Lua callbacks.
  \<^item> \<open>App\<close>, \<open>EventLoop\<close>, \<open>Terminal\<close>, \<open>Applib\<close> (\<open>client/app.cpp\<close>, \<open>main.cpp\<close>, \<open>bracketed_paste.cpp\<close>,
    \<open>safecall.cpp\<close>, \<open>applib.cpp\<close>): terminal input, protected calls, start-up and shutdown, what a run does to
    the terminal, and the Lua library \<open>snowcone\<close>.

  \<^bold>\<open>The libraries for Lua.\<close>
  \<^item> \<open>Base64\<close> (\<open>base64\<close>, \<open>mybase64\<close>), \<open>Toml\<close> (\<open>mytoml\<close>), \<open>Bignum\<close> (\<open>myopenssl/bignum.cpp\<close>).
  \<^item> \<open>NativeObjects\<close> is a heap of the objects that C libraries hand out, with an oracle that answers the
    library calls; \<open>Pkey\<close> and \<open>Certificates\<close> (\<open>myopenssl\<close>), \<open>Filters\<close> (\<open>hsfilter\<close>, \<open>mystringprep\<close>,
    \<open>mygeoip\<close>), \<open>Archive\<close> (\<open>myarchive\<close>) and \<open>Curses\<close> (\<open>myncurses\<close>, with its table of colour pairs) model
    the bindings over it, every path with its allocations and releases.  A pointer the code does not check
    for null stands for an object that is not live; using it sets \<open>os_fault\<close>, and \<open>unchecked_failure\<close> lists the
    failures from which that comes.

  \<^bold>\<open>The TOML parser\<close> (\<open>mytoml/toml11/toml.hpp\<close>, vendored).  A configuration file is text from outside, so the
  parser is modelled too.  \<open>TomlScan\<close>: locations, regions and the scanner combinators, and the reference
  \<open>munch\<close> they equal.  \<open>TomlSyntax\<close>: the features of a TOML version and the grammar, with the source's names
  and the prefix \<open>sx_\<close>.  \<open>TomlScalar\<close>: values, and the parsers of numbers, dates and strings.  \<open>TomlParser\<close>:
  error recovery, guessing of types, keys, \<open>insert_value\<close>, arrays and inline tables (\<open>parse_task\<close> is the
  recursion of \<open>parse_value\<close>, \<open>parse_array\<close> and \<open>parse_inline_table\<close>).  \<open>TomlDocument\<close>: tables, headers, files.
  \<open>TomlLoad\<close> composes it with the binding of \<open>Toml\<close>, from a text to a Lua value, on a Lua stack with an
  arbitrary number of free slots, beyond which pushing is undefined.  What is shown: \<open>TomlText\<close>,
  the grammar's text is UTF-8; \<open>TomlNumbers\<close>, decimal integers are read back and never wrap, and where
  binary ones overflow; \<open>TomlTables\<close>, what \<open>insert_value\<close> changes; \<open>TomlValues\<close> and \<open>TomlInvariant\<close>, parsed
  documents are well-formed; \<open>TomlRecovery\<close>, a document on which the parser does not end.

  \<^bold>\<open>Shared theories.\<close>  \<open>Prelude\<close>: bytes, memory, words.  \<open>LuaApi\<close>: Lua values and the argument checks of
  \<open>lauxlib.h\<close>; how Lua coerces values is a parameter \<open>lua_conv\<close>.  \<open>Userdata\<close> (\<open>client/userdata.hpp\<close>): the
  registry of metatables, whose names decide the types of userdata.  \<open>OutputQueue\<close>: the locale of a queue with
  one write in flight, interpreted by the connection and by the websocket.  \<open>Machine\<close>: the locales of state
  machines with an invariant, interpreted by the websocket, the session and the server.  The locale \<open>native_library\<close> of
  \<open>NativeObjects\<close> is a set of tables of safe bindings, interpreted by OpenSSL, the filters, the windows and,
  here, by all of them together.

  \<^bold>\<open>How the model relates to the code.\<close>  A class is a record, a completion handler or method a function of
  the record and the result it is given; the order in which completions arrive is an arbitrary list, so
  the theorems hold for every schedule of the single-threaded event loop.  Pointers into a buffer are
  positions in a list of chars.  Undefined behaviour (leaving a buffer, popping an empty queue) is \<open>None\<close>,
  so a theorem whose conclusion is \<open>Some\<close> excludes it.  A Lua error or an exception is the left side of a
  sum.  Code that is not in the repository (Boost.Asio and Beast, OpenSSL, Lua, ncurses, the C
  library's locale) appears as parameters: the results of its operations, for any value they can take,
  with the documented laws as hypotheses where a property needs one.

  \<^bold>\<open>Termination and bounds.\<close>  The loops of the TOML parser may run for ever and are partial functions,
  \<open>None\<close> when they do (\<open>comment_recovery_hangs\<close>); scanning always ends (\<open>grammar_scans\<close>).  All other
  definitions are total; the loops over buffers end because their
  positions grow (\<open>next_line_bound\<close>, \<open>get_nonempty_line_bound\<close>), the session because reads are finite.
  \<open>socks_run\<close> recurses on a rank of the protocol states (\<open>step_rank\<close>).  Only the TOML export has fuel,
  since it does not end on some tables (\<open>export_mixed_keys\<close>); \<open>toml_roundtrip\<close> shows that some fuel is
  enough for every table that came from a document.  The integers of TOML are unbounded in the
  model and checked against 64 bits where the code reads them.  \<open>irc_buffer_size\<close> is the 131072 of the code, ports are
  16-bit words, the shift register of the decoder 32 bits, sizes of buffers 64-bit words.

  \<^bold>\<open>The lemmas.\<close>  For each state machine: an invariant, preserved by every operation, then by every run.
  For each converter: totality, a reference function it equals, and a round trip.  For the bindings of
  native libraries: rules \<open>safe_intros\<close> that follow the calls of a binding one by one, so that each binding
  is one line, and a theorem for any sequence of calls from Lua in which no unchecked failure occurred.  Where the code does not do what it
  means to, the theorem states what it does (\<open>send_before_accept_writes_twice\<close>, \<open>native_failures_harm\<close>,
  \<open>terminal_restored\<close>, \<open>paste_is_one_event\<close>, \<open>connect_request_address_malformed\<close>, \<open>export_mixed_keys\<close>, \<open>missing_divisor\<close>, \<open>save_archive_leaks\<close>,
  \<open>stop_inside_handler\<close>, \<open>close_stops_accepting\<close>).

  \<^bold>\<open>Not modelled.\<close>  The tests.  Of toml11: the serializer, the comments, indentation and number formats
  that are kept for it, the text of error messages, and the accessors and conversions of \<open>toml::value\<close>;
  reading a \<open>double\<close> from text is a parameter.  The depth of the C++ stack.  What a \<open>__tostring\<close> metamethod
  does besides giving a string or raising an error.  The tables of constants the \<open>luaopen\<close> functions
  register.
\<close>

section \<open>From the writer to the callback\<close>

text \<open>The line \<open>irc:send\<close> is given for a message, and the messages that survive being sent as a line.\<close>

definition wire_line :: "string ircmsg \<Rightarrow> string" where
  "wire_line m = print_msg m @ [CR, LF]"

definition wire_ok :: "string ircmsg \<Rightarrow> bool" where
  "wire_ok m \<longleftrightarrow> ok_msg m \<and> LF \<notin> set (print_msg m) \<and> length (wire_line m) \<le> irc_buffer_size"

lemma spec_parse_trim: "spec_parse (spec_trim s) = spec_parse s"
  by (simp add: spec_parse_def spec_trim_def)

lemma line_text_wire:
  assumes "ok_msg m"
  shows "line_text (print_msg m @ [CR]) = spec_trim (print_msg m)" "spec_trim (print_msg m) \<noteq> []"
proof -
  show "line_text (print_msg m @ [CR]) = spec_trim (print_msg m)"
    using print_msg_NUL [OF assms] by (auto simp: line_text_def chomp_def intro!: arg_cong [of _ _ spec_trim] takeWhile_eq_all_conv [THEN iffD2])
  have "spec_parse [] = Inl MISSING_COMMAND"
    by (simp add: spec_parse_def spec_trim_def spec_body_def spec_word_def)
  with spec_parse_print [OF assms] spec_parse_trim [of "print_msg m"]
  show "spec_trim (print_msg m) \<noteq> []" by (metis Inl_Inr_False)
qed

lemma spec_stream_wire:
  assumes "list_all wire_ok ms"
  shows "spec_stream irc_buffer_size (concat (List.map wire_line ms)) = (ms, None)"
  using assms
proof (induction ms)
  case Nil
  then show ?case by (simp add: spec_stream_pending irc_buffer_size_def)
next
  case (Cons m ms)
  then have ok: "ok_msg m" "LF \<notin> set (print_msg m @ [CR])" "length (print_msg m @ [CR]) < irc_buffer_size"
    by (simp_all add: wire_ok_def wire_line_def)
  have sp: "split_at LF (print_msg m @ CR # LF # r) = (print_msg m @ [CR], Some r)" for r
    using split_at_here [OF ok(2), of r] by simp
  have "spec_parse (spec_trim (print_msg m)) = Inr m"
    using spec_parse_print [OF ok(1)] by (simp add: spec_parse_trim)
  with Cons ok(3) sp line_text_wire [OF ok(1)] show ?case
    by (simp add: spec_stream.simps [of irc_buffer_size "print_msg m @ _"] wire_line_def)
qed

text \<open>
  C3: Messages sent with the write queue of a connection and read by a session, through a network that may
  cut the bytes into reads in any way: once the writes are done and the bytes have arrived, the callback
  has been given exactly these messages, in the order of sending, whatever interleaving of sends and
  write completions there was.
\<close>

theorem messages_end_to_end:
  assumes "list_all wire_ok ms" "enqueued evs = List.map wire_line ms"
    "qrun connection_write (write_done False) c_ops evs connection_new = (out, c)" "c_ops c = []"
    "bytes_of rs = out"
  shows "\<exists>flags. length flags = length ms \<and>
    session_thread (Inr fp) rs =
      Some (CON fp # map2 (\<lambda>m b. MSG (pushircmsg m) b) ms flags @
        (case first_error rs of None \<Rightarrow> [] | Some e \<Rightarrow> [END (Some e)]))"
proof -
  have "out = concat (List.map wire_line ms)"
    using conn.run_drained [OF _ _ assms(3,4)] assms(2)
    by (simp add: conn_live_def conn_ok_def connection_new_def conn_waiting_def)
  with assms(5) spec_stream_wire [OF assms(1)]
  have s: "spec_stream irc_buffer_size (bytes_of rs) = (ms, None)" by simp
  obtain ms' fin where l: "session_loop (LineBuffer_new irc_buffer_size) rs = Some (msg_events ms', fin)"
    "List.map fst ms' = ms" "fin = first_error rs"
    using session_loop_at [OF lb_at_new [of irc_buffer_size], of irc_buffer_size rs] s
    by (simp del: replicate.simps) blast
  have "msg_events ms' = map2 (\<lambda>m b. MSG (pushircmsg m) b) ms (List.map snd ms')"
    by (simp add: l(2) [symmetric] zip_map_fst_snd split_beta)
  with l show ?thesis by (intro exI [of _ "List.map snd ms'"]) (auto simp: session_thread_def)
qed

definition ping :: "string ircmsg" where
  "ping = \<lparr>msg_tags = [], msg_source = [], msg_command = ''PING'', msg_args = [''a b'']\<rparr>"

lemma messages_end_to_end_witness:
  "\<exists>flags. length flags = 1 \<and>
    session_thread (Inr ''fp'') [Inr ''PI'', Inr ''NG :a '', Inr [CHR ''b'', CR, LF], Inl ''eof''] =
      Some (CON ''fp'' # map2 (\<lambda>m b. MSG (pushircmsg m) b) [ping] flags @ [END (Some ''eof'')])"
proof -
  have line: "wire_line ping = ''PING :a b'' @ [CR, LF]" and ok: "list_all wire_ok [ping]"
    by (simp_all add: wire_ok_def wire_line_def ping_def print_msg_def ok_msg_def ok_middle_def ok_word_def
        irc_buffer_size_def)
  obtain c where c: "qrun connection_write (write_done False) c_ops [Enq (wire_line ping), Ack] connection_new =
      (wire_line ping, c)" "c_ops c = []"
    by (simp add: connection_write_def write_actual_def write_done_def connection_new_def Let_def line)
  from messages_end_to_end [OF ok _ c, of "[Inr ''PI'', Inr ''NG :a '', Inr [CHR ''b'', CR, LF], Inl ''eof'']" "''fp''"]
  show ?thesis by (simp add: line)
qed

section \<open>From the call of connect to the events\<close>

text \<open>\<open>session_thread\<close> connects first; what \<open>connect\<close> returns or throws is what the session starts with.\<close>

definition irc_session :: "conn_env \<Rightarrow> settings \<Rightarrow> (string + string) list \<Rightarrow> session_event list option" where
  "irc_session env st rs = session_thread (snd (connect env st)) rs"

text \<open>
  C10: An encrypted session. When Lua calls \<open>connect\<close> with TLS and without a name of its own to verify, the
  callback hears nothing but the end with an error, or else the connection was made by a handshake
  that succeeded, its first event is the fingerprint, and before the handshake verification was switched
  on against the server's host name and no other.  The one exception is an empty host name, with which
  nothing is verified: exactly then the handshake ran without verification.
\<close>

theorem tls_session_verified:
  assumes "l_start_irc conv cert_of key_of args = Inr st" "lua_toboolean (lua_arg args 1)"
    "noneornil args 6" "irc_session env st rs = Some evs"
  shows "(\<exists>e. evs = [END (Some e)]) \<or>
    (\<exists>before r fp rest. fst (connect env st) = before @ [Handshake, PeerDigest] \<and>
       (\<forall>v. VerifyPeer v \<in> set before \<longleftrightarrow> st_host st \<noteq> [] \<and> v = st_host st) \<and>
       Handshake \<notin> set before \<and> env Handshake = Inr r \<and>
       snd (connect env st) = Inr fp \<and> evs = CON fp # rest)"
proof (cases "snd (connect env st)")
  case (Inl e)
  with assms(4) show ?thesis by (auto simp: irc_session_def session_thread_def)
next
  case (Inr fp)
  have verify: "st_verify st = st_host st" using start_irc_settings [OF assms(1)] assms(3) by blast
  have tls: "st_tls st" using start_irc_tls [OF assms(1)] assms(2) by simp
  from tls_success_ops [OF Inr tls] connect_handshake_Inr [OF tls Inr]
  obtain before r where before: "fst (connect env st) = before @ [Handshake, PeerDigest]"
    "Handshake \<notin> set before" "env Handshake = Inr r"
    by auto
  moreover have "VerifyPeer v \<in> set before \<longleftrightarrow> st_host st \<noteq> [] \<and> v = st_host st" for v
    using verify_ops [OF Inr tls before(1), of v] verify by simp
  moreover have "\<exists>rest. evs = CON fp # rest"
    using assms(4) Inr by (auto simp: irc_session_def session_thread_def bind_eq_Some_conv)
  ultimately show ?thesis using Inr by blast
qed

lemma tls_session_verified_witness:
  "let args = [LBool True, LStr ''irc'', LInt 6697, LNil, LNil, LNil, LNil, LNil, LNil, LNil, LNil, LRef 1];
       st = \<lparr>st_tls = True, st_host = ''irc'', st_port = 6697, st_client_cert = None, st_client_key = None,
         st_verify = ''irc'', st_sni = ''irc'', st_socks_host = [], st_socks_port = 0, st_socks_auth = NoCredential\<rparr>
   in \<exists>before fp rest. fst (connect (\<lambda>_. Inr ''x'') st) = before @ [Handshake, PeerDigest] \<and>
     VerifyPeer ''irc'' \<in> set before \<and> irc_session (\<lambda>_. Inr ''x'') st [] = Some (CON fp # rest)"
proof -
  let ?args = "[LBool True, LStr ''irc'', LInt 6697, LNil, LNil, LNil, LNil, LNil, LNil, LNil, LNil, LRef 1]"
  let ?st = "\<lparr>st_tls = True, st_host = ''irc'', st_port = 6697, st_client_cert = None, st_client_key = None,
         st_verify = ''irc'', st_sni = ''irc'', st_socks_host = [], st_socks_port = 0, st_socks_auth = NoCredential\<rparr>"
  have "l_start_irc plain_conv (\<lambda>_. None) (\<lambda>_. None) ?args = Inr ?st"
    by (simp add: l_start_irc_def plain_conv_def check_string_view_def checkinteger_def lua_arg_def
        luaL_opt_def noneornil_def checkany_def argcheck_def c_str_def Let_def)
  moreover obtain fp where fp: "snd (connect (\<lambda>_. Inr ''x'') ?st) = Inr fp"
    by (simp add: connect_def connect_tls_def perform_def done_io_def optionally_def peer_fingerprint_def
        set_buffer_size_tcp_def set_buffer_size_tls_def)
  moreover obtain evs where evs: "irc_session (\<lambda>_. Inr ''x'') ?st [] = Some evs"
    using session_callback_sequence [of "snd (connect (\<lambda>_. Inr ''x'') ?st)" "[]"] by (auto simp: irc_session_def)
  moreover have "\<nexists>e. evs = [END (Some e)]" using evs fp by (auto simp: irc_session_def session_thread_def bind_eq_Some_conv)
  ultimately show ?thesis
    using tls_session_verified [of plain_conv "\<lambda>_. None" "\<lambda>_. None" ?args ?st "\<lambda>_. Inr ''x''" "[]" evs]
    by (simp add: lua_arg_def noneornil_def Let_def) blast
qed

section \<open>The objects of the native libraries\<close>






text \<open>
  C34: The failures the bindings do not look at are real.  In any state, an error raised by a \<open>__tostring\<close> metamethod for a key of the table given to \<open>set_subjectName\<close> reaches Lua and leaves the new name
  live with no userdata holding it; a null from \<open>X509_NAME_new\<close> is handed to the library as a name; and
  a lookup in a database that has been closed follows a null pointer.
\<close>

theorem native_failures_harm:
  assumes "i < length (os_boxes s)" "\<And>obj. obj \<in> set (os_live s) \<Longrightarrow> fst obj < os_next s"
  shows "(os_boxes s ! i = (CertObj, Some h) \<and> oc_rc (os_oracle s (length (os_log s))) \<noteq> 0 \<and> os_tolstr s k = Inl e \<longrightarrow>
      (case x509_set_subjectName conv [LRef i, LTable ((k, v) # es)] s of (r, s') \<Rightarrow>
         r = Inl e \<and> os_live s' = (os_next s, NameObj) # os_live s \<and> boxed s' = boxed s)) \<and>
    (os_boxes s ! i = (CertObj, Some h) \<and> oc_rc (os_oracle s (length (os_log s))) = 0 \<and> os_tolstr s k = Inr field \<and>
      lua_tostr conv v = Some val \<longrightarrow>
      os_fault (snd (x509_set_subjectName conv [LRef i, LTable [(k, v)]] s))) \<and>
    (os_boxes s ! i = (GeoIpDb, None) \<and> lua_tostr conv v = Some addr \<longrightarrow>
      os_fault (snd (get_name_by_addr conv [LRef i, v] s)))"
proof -
  have fresh: "(os_next s, NameObj) \<notin> set (os_live s)" using assms(2) by fastforce
  show ?thesis
    using assms(1) fresh
    by (auto simp: x509_set_subjectName_def x509_set_name_def check_x509_def check_object_def check_box_def
        check_table_def to_X509_NAME_def luaL_tolstring_def create_unchecked_def not_null_def call_def obind_def
        ret_def lua_arg_def boxed_def fail_if_def release_def openssl_failure_def throw_def
        get_name_by_addr_def geoip_name_def check_pointer_def check_cstr_def check_str_def check_string_view_def
        lift_def undefined_behaviour_def)
qed

lemma native_failures_harm_witness:
  "let s = (native_start_with (\<lambda>_. Inl (LuaErr LNil))
              (\<lambda>_. \<lparr>oc_rc = 1, oc_len = 0, oc_out = [], oc_junk = (\<lambda>_. NUL), oc_strs = [], oc_items = []\<rparr>) 0)
            \<lparr>os_boxes := [(CertObj, Some 0)], os_live := [(0, CertObj)], os_next := 1\<rparr>
   in os_live (snd (x509_set_subjectName plain_conv [LRef 0, LTable [(LRef 7, LStr ''x'')]] s)) = [(1, NameObj), (0, CertObj)]"
  using native_failures_harm [of 0 "(native_start_with (\<lambda>_. Inl (LuaErr LNil))
              (\<lambda>_. \<lparr>oc_rc = 1, oc_len = 0, oc_out = [], oc_junk = (\<lambda>_. NUL), oc_strs = [], oc_items = []\<rparr>) 0)
            \<lparr>os_boxes := [(CertObj, Some 0)], os_live := [(0, CertObj)], os_next := 1\<rparr>"
      0 "LRef 7" "LuaErr LNil" plain_conv "LStr ''x''" "[]"]
  by (simp add: native_start_with_def native_start_def split: prod.splits)

end
